(* ===== verification/Prelude.thy ===== *)
theory Prelude
  imports Main "HOL-Library.Word" "HOL-Library.List_Lexorder" "HOL-Library.Char_ord"
    "HOL-Library.Product_Lexorder"
begin

text \<open>
  Shared vocabulary of the development: Go results as sums, pointers as options, the
  \<open>if err != nil { return err }\<close> idiom, and the lemmas on lists and maps the
  components use. The collections \<open>go_string\<close>, \<open>table\<close> and \<open>handler\<close>
  gather the facts that \<open>simp add:\<close> and \<open>auto simp:\<close> use for the string functions of
  Go's standard library, the database tables and the request handlers.
\<close>

named_theorems go_string
named_theorems table
named_theorems handler

section \<open>Results and pointers\<close>

text \<open>
  A Go call that returns \<open>(x, err)\<close> returns \<open>Inl e\<close> when \<open>err\<close> is not nil and
  \<open>Inr x\<close> otherwise. \<open>and_then\<close> is the early return on an error.
\<close>

type_synonym ('e, 'a) go_result = "'e + 'a"

definition and_then :: "('e, 'a) go_result \<Rightarrow> ('a \<Rightarrow> ('e, 'b) go_result) \<Rightarrow> ('e, 'b) go_result" where
  "and_then r k = (case r of Inl e \<Rightarrow> Inl e | Inr x \<Rightarrow> k x)"

lemma and_then_simps [simp]:
  "and_then (Inl e) k = Inl e"
  "and_then (Inr x) k = k x"
  by (simp_all add: and_then_def)

lemma and_then_Inr_iff: "and_then r k = Inr y \<longleftrightarrow> (\<exists>x. r = Inr x \<and> k x = Inr y)"
  by (cases r) auto

text \<open>A nil-able pointer is an option; \<open>deref d p\<close> reads it with a default for nil.\<close>

definition deref :: "'a \<Rightarrow> 'a option \<Rightarrow> 'a" where
  "deref d p = (case p of None \<Rightarrow> d | Some x \<Rightarrow> x)"

lemma deref_simps [simp]: "deref d None = d" "deref d (Some x) = x"
  by (simp_all add: deref_def)

section \<open>Rows and lists\<close>

text \<open>The update of every row that satisfies a condition (SQL \<open>UPDATE ... WHERE\<close>).\<close>

definition update_where :: "('a \<Rightarrow> bool) \<Rightarrow> ('a \<Rightarrow> 'a) \<Rightarrow> 'a list \<Rightarrow> 'a list" where
  "update_where p f xs = map (\<lambda>x. if p x then f x else x) xs"

lemma update_where_simps [simp]:
  "update_where p f [] = []"
  "update_where p f (x # xs) = (if p x then f x else x) # update_where p f xs"
  by (simp_all add: update_where_def)

lemma length_update_where [simp]: "length (update_where p f xs) = length xs"
  by (simp add: update_where_def)

lemma set_update_where:
  "set (update_where p f xs) = {f x | x. x \<in> set xs \<and> p x} \<union> {x \<in> set xs. \<not> p x}"
  by (induction xs) auto

lemma map_update_where_same:
  "(\<And>x. x \<in> set xs \<Longrightarrow> p x \<Longrightarrow> g (f x) = g x) \<Longrightarrow> map g (update_where p f xs) = map g xs"
  by (induction xs) auto

lemma update_where_none: "(\<And>x. x \<in> set xs \<Longrightarrow> \<not> p x) \<Longrightarrow> update_where p f xs = xs"
  by (induction xs) auto

text \<open>
  A unique column: the values of a key on the rows that have one are pairwise different
  (SQL \<open>UNIQUE\<close> ignores NULL).
\<close>

definition unique_on :: "('a \<Rightarrow> 'k option) \<Rightarrow> 'a list \<Rightarrow> bool" where
  "unique_on key xs \<longleftrightarrow> distinct (List.map_filter key xs)"

lemma map_filter_conv_set: "k \<in> set (List.map_filter f xs) \<longleftrightarrow> (\<exists>x \<in> set xs. f x = Some k)"
  by (induction xs) (auto simp: List.map_filter_simps split: option.splits)

lemma unique_on_Nil [simp]: "unique_on key []"
  by (simp add: unique_on_def List.map_filter_simps)

lemma unique_on_Cons [simp]:
  "unique_on key (x # xs) \<longleftrightarrow>
     unique_on key xs \<and> (\<forall>k. key x = Some k \<longrightarrow> (\<forall>y \<in> set xs. key y \<noteq> Some k))"
  by (auto simp: unique_on_def List.map_filter_simps map_filter_conv_set split: option.splits)

lemma unique_on_append [simp]:
  "unique_on key (xs @ ys) \<longleftrightarrow> unique_on key xs \<and> unique_on key ys \<and>
     (\<forall>x \<in> set xs. \<forall>y \<in> set ys. \<forall>k. key x = Some k \<longrightarrow> key y \<noteq> Some k)"
  by (induction xs) auto

lemma unique_on_total: "unique_on (\<lambda>x. Some (f x)) xs \<longleftrightarrow> distinct (map f xs)"
  by (induction xs) (auto simp: image_iff)

lemma distinct_map_key: "distinct (map f xs) \<Longrightarrow> x \<in> set xs \<Longrightarrow> y \<in> set xs \<Longrightarrow> f x = f y \<Longrightarrow> x = y"
  by (auto simp: distinct_map inj_on_def)

lemma find_SomeD: "List.find P xs = Some x \<Longrightarrow> x \<in> set xs \<and> P x"
  by (induction xs) (auto split: if_splits)

lemma filter_one:
  assumes "distinct xs" "x \<in> set xs" "\<And>y. y \<in> set xs \<Longrightarrow> P y \<longleftrightarrow> y = x"
  shows "filter P xs = [x]"
  using assms
proof (induction xs)
  case Nil
  then show ?case by simp
next
  case (Cons y ys)
  show ?case
  proof (cases "y = x")
    case True
    then have "P z = False" if "z \<in> set ys" for z using Cons.prems(1,3) that by auto
    then have "filter P ys = []" by (simp add: filter_empty_conv)
    then show ?thesis using Cons.prems(3) [of y] True by simp
  next
    case False
    then have "filter P ys = [x]" using Cons by simp
    then show ?thesis using Cons.prems(3) [of y] False by simp
  qed
qed

lemma distinct_map_find:
  assumes "distinct (map f xs)"
  shows "List.find (\<lambda>y. f y = k) xs = Some x \<longleftrightarrow> x \<in> set xs \<and> f x = k"
  using assms by (induction xs) auto

lemma unique_on_filter: "unique_on key xs \<Longrightarrow> unique_on key (filter p xs)"
  by (induction xs) auto

lemma unique_onD:
  "unique_on key xs \<Longrightarrow> x \<in> set xs \<Longrightarrow> y \<in> set xs \<Longrightarrow> key x = Some k \<Longrightarrow> key y = Some k \<Longrightarrow> x = y"
  by (induction xs) auto

lemma map_filter_conv_map: "List.map_filter f xs = List.map_filter id (map f xs)"
  by (induction xs) (auto simp: List.map_filter_simps split: option.splits)

lemma unique_on_update_same:
  assumes "\<And>x. x \<in> set xs \<Longrightarrow> p x \<Longrightarrow> key (f x) = key x"
  shows "unique_on key (update_where p f xs) = unique_on key xs"
  unfolding unique_on_def map_filter_conv_map [of key]
  using map_update_where_same [of xs p key f] assms by simp

lemma unique_on_update_clear:
  assumes "unique_on key xs" and "\<And>x. x \<in> set xs \<Longrightarrow> p x \<Longrightarrow> key (f x) = None"
  shows "unique_on key (update_where p f xs)"
  using assms by (induction xs) (auto simp: set_update_where)

lemma unique_on_update_one:
  assumes "unique_on key xs"
    and "\<And>x y. x \<in> set xs \<Longrightarrow> y \<in> set xs \<Longrightarrow> p x \<Longrightarrow> p y \<Longrightarrow> x = y"
    and "\<And>x. x \<in> set xs \<Longrightarrow> p x \<Longrightarrow> key (f x) = Some k"
    and "\<And>x. x \<in> set xs \<Longrightarrow> \<not> p x \<Longrightarrow> key x \<noteq> Some k"
    and "distinct xs"
  shows "unique_on key (update_where p f xs)"
  using assms
proof (induction xs)
  case (Cons a xs)
  have IH: "unique_on key (update_where p f xs)"
    using Cons by auto
  show ?case
  proof (cases "p a")
    case True
    then have "\<forall>y \<in> set xs. \<not> p y" using Cons.prems by auto
    then have "update_where p f xs = xs" by (simp add: update_where_none)
    then show ?thesis using True Cons.prems IH \<open>\<forall>y \<in> set xs. \<not> p y\<close> by auto
  next
    case False
    then show ?thesis using Cons.prems IH by (auto simp: set_update_where)
  qed
qed simp

end
