(* ===== verification/GoStrings.thy ===== *)
theory GoStrings
  imports Prelude
begin

text \<open>
  The functions of Go's \<open>strings\<close> and \<open>strconv\<close> packages that the program calls, on
  Go strings as lists of bytes (\<open>string\<close>). Separators and patterns are single bytes
  where the program uses single bytes. White space is the ASCII white space of
  \<open>unicode.IsSpace\<close> (the inputs are environment variables and the output of
  \<open>wg\<close> and \<open>ip\<close>). The lemmas give each function's specification and the round trips
  \<open>Split\<close>/\<open>Join\<close> and \<open>Itoa\<close>/\<open>Atoi\<close>.
\<close>

section \<open>Prefixes and cutting\<close>

text \<open>\<open>strings.CutPrefix(s, p)\<close>: \<open>Some\<close> of what follows the prefix, \<open>None\<close> for \<open>ok = false\<close>.\<close>

fun CutPrefix :: "string \<Rightarrow> string \<Rightarrow> string option" where
  "CutPrefix s [] = Some s"
| "CutPrefix [] (p # ps) = None"
| "CutPrefix (c # s) (p # ps) = (if c = p then CutPrefix s ps else None)"

definition HasPrefix :: "string \<Rightarrow> string \<Rightarrow> bool" where
  "HasPrefix s p \<longleftrightarrow> CutPrefix s p \<noteq> None"

lemma CutPrefix_Some_iff: "CutPrefix s p = Some r \<longleftrightarrow> s = p @ r"
  by (induction s p rule: CutPrefix.induct) auto

lemma CutPrefix_append [simp]: "CutPrefix (p @ r) p = Some r"
  by (simp add: CutPrefix_Some_iff)

lemma HasPrefix_iff [go_string]: "HasPrefix s p \<longleftrightarrow> (\<exists>r. s = p @ r)"
  by (auto simp: HasPrefix_def CutPrefix_Some_iff)

text \<open>\<open>strings.Cut(s, sep)\<close> for a one-byte separator.\<close>

fun Cut :: "string \<Rightarrow> char \<Rightarrow> (string \<times> string) option" where
  "Cut [] c = None"
| "Cut (x # s) c = (if x = c then Some ([], s) else map_option (apfst ((#) x)) (Cut s c))"

lemma Cut_append [simp]: "c \<notin> set a \<Longrightarrow> Cut (a @ c # b) c = Some (a, b)"
  by (induction a) auto

lemma Cut_Some_iff: "Cut s c = Some (a, b) \<longleftrightarrow> s = a @ c # b \<and> c \<notin> set a"
proof (induction s arbitrary: a)
  case (Cons x s)
  show ?case
  proof (cases "x = c")
    case False
    then show ?thesis using Cons by (cases a) auto
  qed (cases a; auto)
qed simp

text \<open>\<open>strings.ReplaceAll(s, old, new)\<close> for a one-byte \<open>old\<close>.\<close>

definition ReplaceAll :: "string \<Rightarrow> char \<Rightarrow> string \<Rightarrow> string" where
  "ReplaceAll s old new = concat (map (\<lambda>c. if c = old then new else [c]) s)"

lemma ReplaceAll_simps [simp]:
  "ReplaceAll [] old new = []"
  "ReplaceAll (c # s) old new = (if c = old then new else [c]) @ ReplaceAll s old new"
  by (simp_all add: ReplaceAll_def)

lemma ReplaceAll_id [simp]: "old \<notin> set s \<Longrightarrow> ReplaceAll s old new = s"
  by (induction s) auto

text \<open>
  Escaping a byte with an escape byte in front of it loses nothing: the escaped byte
  occurs in the result only after an escape.
\<close>

lemma ReplaceAll_escape_head:
  assumes "esc \<noteq> x"
  shows "\<not> (\<exists>t. ReplaceAll s x [esc, x] = x # t)"
  using assms by (cases s) auto

lemma ReplaceAll_escape_inj:
  assumes "esc \<noteq> x"
  shows "ReplaceAll s x [esc, x] = ReplaceAll t x [esc, x] \<Longrightarrow> s = t"
proof (induction s arbitrary: t)
  case Nil
  then show ?case by (cases t) (auto split: if_splits)
next
  case (Cons c s)
  then obtain d t' where t: "t = d # t'" by (cases t) (auto split: if_splits)
  have no: "\<not> (\<exists>t. ReplaceAll r x [esc, x] = x # t)" for r
    using ReplaceAll_escape_head [OF assms] .
  show ?case
  proof (cases "(c = x) = (d = x)")
    case True
    then show ?thesis using Cons.IH [of t'] Cons.prems by (auto simp: t split: if_splits)
  next
    case False
    then show ?thesis using no [of s] no [of t'] Cons.prems
      by (auto simp: t split: if_splits) metis+
  qed
qed

section \<open>Host and port\<close>

text \<open>
  \<open>net.JoinHostPort\<close>, and \<open>net.SplitHostPort\<close> (\<open>None\<close> for an error): the port follows
  the last colon, a host in brackets ends just before it, and nothing else has brackets.
\<close>

definition JoinHostPort :: "string \<Rightarrow> string \<Rightarrow> string" where
  "JoinHostPort host port =
     (if CHR '':'' \<in> set host then ''['' @ host @ '']:'' @ port else host @ '':'' @ port)"

definition SplitHostPort :: "string \<Rightarrow> (string \<times> string) option" where
  "SplitHostPort s = (case Cut (rev s) (CHR '':'') of
       None \<Rightarrow> None
     | Some (rp, rh) \<Rightarrow> let port = rev rp; h = rev rh; inner = butlast (tl h) in
         if HasPrefix s ''['' then
           (if length h < 2 \<or> last h \<noteq> CHR '']'' \<or> CHR '']'' \<in> set inner \<or> CHR ''['' \<in> set (tl s) \<or> CHR '']'' \<in> set port
            then None else Some (inner, port))
         else (if CHR '':'' \<in> set h \<or> CHR ''['' \<in> set s \<or> CHR '']'' \<in> set s then None else Some (h, port)))"

lemma SplitHostPort_Join:
  assumes "CHR ''['' \<notin> set host" "CHR '']'' \<notin> set host"
    and "CHR ''['' \<notin> set port" "CHR '']'' \<notin> set port" "CHR '':'' \<notin> set port"
  shows "SplitHostPort (JoinHostPort host port) = Some (host, port)"
proof (cases "CHR '':'' \<in> set host")
  case True
  have "Cut (rev (JoinHostPort host port)) (CHR '':'') = Some (rev port, rev (''['' @ host @ '']''))"
    using assms(5) True by (simp add: JoinHostPort_def)
  then show ?thesis using assms True
    by (simp add: SplitHostPort_def JoinHostPort_def HasPrefix_def Let_def butlast_append)
next
  case False
  have "Cut (rev (JoinHostPort host port)) (CHR '':'') = Some (rev port, rev host)"
    using assms(5) False by (simp add: JoinHostPort_def)
  moreover have "\<not> HasPrefix (host @ CHR '':'' # port) ''[''" using assms(1) by (cases host) (auto simp: HasPrefix_def)
  ultimately show ?thesis using assms False by (simp add: SplitHostPort_def JoinHostPort_def Let_def)
qed

section \<open>Split, Join, Fields, TrimSpace, Contains\<close>

text \<open>\<open>strings.Split(s, sep)\<close> for a one-byte separator: the empty string gives one empty field.\<close>

fun Split :: "string \<Rightarrow> char \<Rightarrow> string list" where
  "Split [] c = [[]]"
| "Split (x # s) c =
     (if x = c then [] # Split s c
      else (case Split s c of [] \<Rightarrow> [[x]] | h # t \<Rightarrow> (x # h) # t))"

fun Join :: "string list \<Rightarrow> string \<Rightarrow> string" where
  "Join [] sep = []"
| "Join [a] sep = a"
| "Join (a # b # xs) sep = a @ sep @ Join (b # xs) sep"

lemma Split_not_Nil [simp]: "Split s c \<noteq> []"
  by (cases s) (auto split: list.splits)

lemma Split_no_sep: "c \<notin> set a \<Longrightarrow> Split a c = [a]"
  by (induction a) auto

lemma Split_append_sep: "c \<notin> set a \<Longrightarrow> Split (a @ c # b) c = a # Split b c"
  by (induction a) auto

lemma Split_Join:
  "xs \<noteq> [] \<Longrightarrow> (\<And>x. x \<in> set xs \<Longrightarrow> c \<notin> set x) \<Longrightarrow> Split (Join xs [c]) c = xs"
proof (induction xs "[c]" rule: Join.induct)
  case (3 a b xs)
  then show ?case by (simp add: Split_append_sep)
qed (auto simp: Split_no_sep)

lemma Join_Split: "Join (Split s c) [c] = s"
proof (induction s)
  case (Cons x s)
  obtain h t where ht: "Split s c = h # t" by (cases "Split s c") auto
  then show ?case using Cons by (cases t) auto
qed simp

definition is_space :: "char \<Rightarrow> bool" where
  "is_space c \<longleftrightarrow> c \<in> {CHR 0x09, CHR 0x0A, CHR 0x0B, CHR 0x0C, CHR 0x0D, CHR '' ''}"

definition TrimLeft :: "string \<Rightarrow> string" where
  "TrimLeft s = dropWhile is_space s"

definition TrimSpace :: "string \<Rightarrow> string" where
  "TrimSpace s = rev (dropWhile is_space (rev (TrimLeft s)))"

text \<open>\<open>strings.Fields(s)\<close>: the maximal runs of bytes that are not white space.\<close>

fun fields_acc :: "string \<Rightarrow> string \<Rightarrow> string list" where
  "fields_acc [] cur = (if cur = [] then [] else [rev cur])"
| "fields_acc (c # s) cur =
     (if is_space c then (if cur = [] then fields_acc s [] else rev cur # fields_acc s [])
      else fields_acc s (c # cur))"

definition Fields :: "string \<Rightarrow> string list" where
  "Fields s = fields_acc s []"

definition no_space :: "string \<Rightarrow> bool" where
  "no_space s \<longleftrightarrow> (\<forall>c \<in> set s. \<not> is_space c)"

lemma no_space_simps [simp]:
  "no_space []"
  "no_space (c # s) \<longleftrightarrow> \<not> is_space c \<and> no_space s"
  "no_space (s @ t) \<longleftrightarrow> no_space s \<and> no_space t"
  "no_space (rev s) \<longleftrightarrow> no_space s"
  by (auto simp: no_space_def)

lemma fields_acc_word:
  "no_space w \<Longrightarrow> fields_acc (w @ s) cur = fields_acc s (rev w @ cur)"
  by (induction w arbitrary: cur) auto

lemma Fields_Nil [simp]: "Fields [] = []"
  by (simp add: Fields_def)

lemma Fields_space [simp]: "is_space c \<Longrightarrow> Fields (c # s) = Fields s"
  by (simp add: Fields_def)

lemma Fields_word_space:
  "w \<noteq> [] \<Longrightarrow> no_space w \<Longrightarrow> is_space c \<Longrightarrow> Fields (w @ c # s) = w # Fields s"
  by (simp add: Fields_def fields_acc_word)

lemma Fields_word: "w \<noteq> [] \<Longrightarrow> no_space w \<Longrightarrow> Fields w = [w]"
  using fields_acc_word [of w "[]" "[]"] by (simp add: Fields_def)

lemma fields_acc_words:
  "no_space cur \<Longrightarrow> w \<in> set (fields_acc s cur) \<Longrightarrow> w \<noteq> [] \<and> no_space w"
proof (induction s cur rule: fields_acc.induct)
  case (2 c s cur)
  then show ?case by (cases "is_space c"; cases "cur = []") auto
qed (auto split: if_splits)

lemma Fields_words: "w \<in> set (Fields s) \<Longrightarrow> w \<noteq> [] \<and> no_space w"
  unfolding Fields_def by (rule fields_acc_words) simp_all

lemma Fields_Join:
  "(\<And>w. w \<in> set ws \<Longrightarrow> w \<noteq> [] \<and> no_space w) \<Longrightarrow> Fields (Join ws [CHR '' '']) = ws"
proof (induction ws "[CHR '' '']" rule: Join.induct)
  case (3 a b xs)
  then show ?case by (simp add: Fields_word_space is_space_def)
qed (auto simp: Fields_word)

lemma dropWhile_hd: "xs = [] \<or> \<not> P (hd xs) \<Longrightarrow> dropWhile P xs = xs"
  by (cases xs) auto

lemma TrimSpace_no_outer:
  "s = [] \<or> (\<not> is_space (hd s) \<and> \<not> is_space (last s)) \<Longrightarrow> TrimSpace s = s"
  by (auto simp: TrimSpace_def TrimLeft_def dropWhile_hd hd_rev)

lemma TrimSpace_no_space [simp]: "no_space s \<Longrightarrow> TrimSpace s = s"
  by (rule TrimSpace_no_outer) (auto simp: no_space_def)

lemma TrimSpace_outer:
  "TrimSpace s = [] \<or> \<not> is_space (hd (TrimSpace s)) \<and> \<not> is_space (last (TrimSpace s))"
proof -
  define t where "t = TrimLeft s"
  define u where "u = dropWhile is_space (rev t)"
  have ts: "TrimSpace s = rev u" by (simp add: TrimSpace_def t_def u_def)
  have hdt: "t = [] \<or> \<not> is_space (hd t)"
    unfolding t_def TrimLeft_def using hd_dropWhile by blast
  have hdu: "u = [] \<or> \<not> is_space (hd u)"
    unfolding u_def using hd_dropWhile by blast
  obtain v where v: "rev t = v @ u"
    unfolding u_def by (metis takeWhile_dropWhile_id)
  have "hd (rev u) = hd t" if "u \<noteq> []"
  proof -
    have "t = rev u @ rev v" using v by (metis rev_append rev_rev_ident)
    then show ?thesis using that by simp
  qed
  moreover have "t \<noteq> []" if "u \<noteq> []" using that v by auto
  ultimately show ?thesis using hdt hdu by (auto simp: ts last_rev)
qed

fun Contains :: "string \<Rightarrow> string \<Rightarrow> bool" where
  "Contains [] sub \<longleftrightarrow> sub = []"
| "Contains (c # s) sub \<longleftrightarrow> HasPrefix (c # s) sub \<or> Contains s sub"

lemma Contains_iff: "Contains s sub \<longleftrightarrow> (\<exists>a b. s = a @ sub @ b)"
proof (induction s)
  case (Cons c s)
  have "(\<exists>a b. c # s = a @ sub @ b) \<longleftrightarrow> (\<exists>b. c # s = sub @ b) \<or> (\<exists>a b. s = a @ sub @ b)"
    (is "?L \<longleftrightarrow> ?R")
  proof
    assume ?L
    then obtain a b where "c # s = a @ sub @ b" by blast
    then show ?R by (cases a) auto
  next
    assume ?R
    then show ?L
    proof
      assume "\<exists>b. c # s = sub @ b"
      then obtain b where "c # s = [] @ sub @ b" by auto
      then show ?L by blast
    next
      assume "\<exists>a b. s = a @ sub @ b"
      then obtain a b where "s = a @ sub @ b" by blast
      then have "c # s = (c # a) @ sub @ b" by simp
      then show ?L by blast
    qed
  qed
  then show ?case using Cons by (simp add: HasPrefix_iff)
qed simp

section \<open>Decimal numbers\<close>

text \<open>
  \<open>strconv.Itoa\<close> and \<open>%d\<close>, and \<open>strconv.Atoi\<close>: an optional sign, at least one decimal
  digit and nothing else, in the range of a 64-bit \<open>int\<close>.
\<close>

definition is_digit :: "char \<Rightarrow> bool" where
  "is_digit c \<longleftrightarrow> 48 \<le> (of_char c :: nat) \<and> (of_char c :: nat) \<le> 57"

definition digit_val :: "char \<Rightarrow> nat" where
  "digit_val c = of_char c - 48"

definition digit_char :: "nat \<Rightarrow> char" where
  "digit_char d = char_of (48 + d)"

fun FormatNat :: "nat \<Rightarrow> string" where
  "FormatNat n = (if n < 10 then [digit_char n] else FormatNat (n div 10) @ [digit_char (n mod 10)])"

declare FormatNat.simps [simp del]

definition parse_dec :: "string \<Rightarrow> nat option" where
  "parse_dec s = (if s \<noteq> [] \<and> list_all is_digit s
     then Some (foldl (\<lambda>n c. 10 * n + digit_val c) 0 s) else None)"

definition Itoa :: "int \<Rightarrow> string" where
  "Itoa i = (if i < 0 then CHR ''-'' # FormatNat (nat (- i)) else FormatNat (nat i))"

definition in_int64 :: "int \<Rightarrow> bool" where
  "in_int64 i \<longleftrightarrow> - (2 ^ 63) \<le> i \<and> i < 2 ^ 63"

definition Atoi :: "string \<Rightarrow> int option" where
  "Atoi s = (let (neg, ds) = (case s of [] \<Rightarrow> (False, [])
                | c # t \<Rightarrow> if c = CHR ''-'' then (True, t) else if c = CHR ''+'' then (False, t) else (False, s))
     in case parse_dec ds of None \<Rightarrow> None
        | Some n \<Rightarrow> let i = (if neg then - int n else int n) in if in_int64 i then Some i else None)"

lemma of_char_digit_char: "d < 10 \<Longrightarrow> (of_char (digit_char d) :: nat) = 48 + d"
  by (simp add: digit_char_def)

lemma digit_char_digit [simp]: "d < 10 \<Longrightarrow> is_digit (digit_char d)"
  by (simp add: is_digit_def of_char_digit_char)

lemma digit_val_digit_char [simp]: "d < 10 \<Longrightarrow> digit_val (digit_char d) = d"
  by (simp add: digit_val_def of_char_digit_char)

lemma FormatNat_digits: "list_all is_digit (FormatNat n)"
proof (induction n rule: FormatNat.induct)
  case (1 n)
  then show ?case by (simp add: FormatNat.simps [of n])
qed

lemma FormatNat_not_Nil [simp]: "FormatNat n \<noteq> []"
  by (simp add: FormatNat.simps [of n])

lemma foldl_FormatNat: "foldl (\<lambda>n c. 10 * n + digit_val c) 0 (FormatNat n) = n"
proof (induction n rule: FormatNat.induct)
  case (1 n)
  then show ?case by (simp add: FormatNat.simps [of n])
qed

lemma parse_dec_FormatNat [simp]: "parse_dec (FormatNat n) = Some n"
  by (simp add: parse_dec_def FormatNat_digits foldl_FormatNat)

lemma FormatNat_inj [simp]: "FormatNat m = FormatNat n \<longleftrightarrow> m = n"
  by (metis option.inject parse_dec_FormatNat)

lemma not_digit_chars [simp]:
  "\<not> is_digit (CHR ''.'')" "\<not> is_digit (CHR '':'')" "\<not> is_digit (CHR ''/'')"
  "\<not> is_digit (CHR ''-'')" "\<not> is_digit (CHR ''+'')" "\<not> is_digit (CHR '','')" "\<not> is_digit (CHR '' '')"
  by (simp_all add: is_digit_def)

lemma FormatNat_not_in: "\<not> is_digit c \<Longrightarrow> c \<notin> set (FormatNat n)"
  using FormatNat_digits [of n] by (auto simp: list_all_iff)

lemma FormatNat_hd: "is_digit (hd (FormatNat n))"
  using FormatNat_digits [of n] by (cases "FormatNat n") auto

lemma FormatNat_sign [simp]:
  "FormatNat n \<noteq> CHR ''-'' # t" "CHR ''-'' # t \<noteq> FormatNat n" "FormatNat n \<noteq> CHR ''+'' # t"
  using FormatNat_hd [of n] by (cases "FormatNat n"; auto)+

lemma Itoa_inj [simp]: "Itoa i = Itoa j \<longleftrightarrow> i = j"
  by (auto simp: Itoa_def split: if_splits)

lemma Atoi_Itoa: "in_int64 i \<Longrightarrow> Atoi (Itoa i) = Some i"
proof (cases "i < 0")
  case True
  then show "in_int64 i \<Longrightarrow> ?thesis" by (simp add: Atoi_def Itoa_def Let_def)
next
  case False
  obtain c t where ct: "FormatNat (nat i) = c # t" by (cases "FormatNat (nat i)") auto
  have "c \<noteq> CHR ''-''" "c \<noteq> CHR ''+''"
    using ct FormatNat_sign [where n = "nat i" and t = t] by auto
  moreover have "parse_dec (c # t) = Some (nat i)"
    using parse_dec_FormatNat [of "nat i"] by (simp add: ct)
  moreover assume "in_int64 i"
  ultimately show ?thesis using False by (simp add: Atoi_def Itoa_def Let_def ct)
qed

end
