(* ===== verification/IPNet.thy ===== *)
theory IPNet
  imports GoStrings
begin

unbundle bit_operations_syntax

text \<open>
  IP addresses as the byte slices of Go's \<open>net\<close> package, and the parts of that package
  the control plane's allocator calls: \<open>net.ParseCIDR\<close>, \<open>IP.Mask\<close>, \<open>IPNet.Contains\<close>
  and \<open>IP.String\<close>. The slice operations are written for any length; the text forms are
  the IPv4 ones. A text that Go would hand to its IPv6 parser is reported as
  \<open>IPv6Text\<close>, so that the model says where it stops: the agents use a mesh address only
  as IPv4 (\<open>meshIP + "/32"\<close> and \<open>ip -4\<close> in wgmanager.go).

  The lemmas read a slice as a big-endian number (\<open>ip_val\<close>) and give the arithmetic of
  a CIDR block: masking clears the host bits, \<open>Contains\<close> compares the network bits, and
  the last address has all host bits set.
\<close>

type_synonym ip = "8 word list"

record ipnet =
  net_IP :: ip
  net_Mask :: ip

definition ip_val :: "ip \<Rightarrow> nat" where
  "ip_val bs = foldl (\<lambda>n b. 256 * n + unat b) 0 bs"

lemma foldl_ip_val: "foldl (\<lambda>n b. 256 * n + unat (b :: 8 word)) a bs = a * 256 ^ length bs + ip_val bs"
proof (induction bs arbitrary: a)
  case (Cons b bs)
  show ?case
    unfolding ip_val_def foldl_Cons Cons.IH [of "256 * a + unat b"] Cons.IH [of "256 * 0 + unat b"]
    by (simp add: algebra_simps)
qed (simp add: ip_val_def)

lemma ip_val_Nil [simp]: "ip_val [] = 0"
  by (simp add: ip_val_def)

lemma ip_val_Cons: "ip_val (b # bs) = unat b * 256 ^ length bs + ip_val bs"
  using foldl_ip_val [of "unat b" bs] by (simp add: ip_val_def)

lemma ip_val_snoc: "ip_val (bs @ [b]) = 256 * ip_val bs + unat b"
  by (simp add: ip_val_def)

lemma unat_byte_less: "unat (b :: 8 word) < 256"
  using unsigned_less [of b] by simp

lemma ip_val_less: "ip_val bs < 256 ^ length bs"
proof (induction bs)
  case (Cons b bs)
  have "unat b * 256 ^ length bs + ip_val bs < (unat b + 1) * 256 ^ length bs"
    using Cons by simp
  also have "\<dots> \<le> 256 * 256 ^ length bs"
    using unat_byte_less [of b] by (intro mult_right_mono) auto
  finally show ?case by (simp add: ip_val_Cons)
qed simp

lemma ip_val_inj: "length a = length b \<Longrightarrow> ip_val a = ip_val b \<Longrightarrow> a = b"
proof (induction a arbitrary: b)
  case (Cons x a)
  then obtain y b' where b: "b = y # b'" and len: "length a = length b'" by (cases b) auto
  let ?m = "256 ^ length a :: nat"
  have eq: "unat x * ?m + ip_val a = unat y * ?m + ip_val b'"
    using Cons.prems by (simp add: b len ip_val_Cons)
  have "ip_val a < ?m" "ip_val b' < ?m" using ip_val_less [of a] ip_val_less [of b'] len by simp_all
  then have "unat x = unat y" "ip_val a = ip_val b'"
    using arg_cong [OF eq, of "\<lambda>n. n div ?m"] arg_cong [OF eq, of "\<lambda>n. n mod ?m"] by simp_all
  then have "x = y" "ip_val a = ip_val b'" by (simp_all add: word_unat_eq_iff)
  then show ?case using Cons.IH [OF len] by (simp add: b)
qed simp

section \<open>Masks\<close>

text \<open>\<open>net.CIDRMask(n, 8 * l)\<close>: n one bits, then zero bits, as l bytes.\<close>

fun CIDRMask :: "nat \<Rightarrow> nat \<Rightarrow> ip" where
  "CIDRMask 0 n = []"
| "CIDRMask (Suc l) n =
     (if 8 \<le> n then 0xFF # CIDRMask l (n - 8) else NOT (drop_bit n 0xFF) # CIDRMask l 0)"

text \<open>\<open>IP.Mask\<close> for a mask of the address's own length; nil otherwise.\<close>

definition IP_Mask :: "ip \<Rightarrow> ip \<Rightarrow> ip" where
  "IP_Mask a m = (if length a = length m then map2 (AND) a m else [])"

text \<open>\<open>IPNet.Contains\<close> for slices of the network's own length.\<close>

definition net_contains :: "ipnet \<Rightarrow> ip \<Rightarrow> bool" where
  "net_contains n a \<longleftrightarrow> length a = length (net_IP n) \<and> length (net_Mask n) = length (net_IP n)
     \<and> map2 (AND) (net_IP n) (net_Mask n) = map2 (AND) a (net_Mask n)"

lemma length_CIDRMask [simp]: "length (CIDRMask l n) = l"
  by (induction l n rule: CIDRMask.induct) auto

lemma byte_FF: "(0xFF :: 8 word) = mask 8"
  by (simp add: mask_eq_exp_minus_1)

lemma byte_ones [simp]: "b AND 0xFF = (b :: 8 word)"
  by (rule bit_word_eqI) (simp add: byte_FF bit_simps)

lemma byte_host_mask: "n \<le> 8 \<Longrightarrow> drop_bit n (0xFF :: 8 word) = mask (8 - n)"
  by (rule bit_word_eqI) (auto simp: byte_FF bit_simps)

lemma unat_and_not_mask:
  "unat ((b :: 8 word) AND NOT (mask k)) = (unat b div 2 ^ k) * 2 ^ k"
proof -
  have "unat (b AND NOT (mask k)) = push_bit k (drop_bit k (unat b))"
    by (rule bit_eqI) (auto simp: bit_simps dest: bit_imp_le_length)
  then show ?thesis by (simp add: push_bit_eq_mult drop_bit_eq_div)
qed

lemma unat_or_mask:
  assumes "k \<le> 8"
  shows "unat ((b :: 8 word) OR mask k) = (unat b div 2 ^ k) * 2 ^ k + (2 ^ k - 1)"
proof -
  have "unat (b OR mask k) = push_bit k (drop_bit k (unat b)) OR mask k"
    using assms by (intro bit_eqI) (auto simp: bit_simps dest: bit_imp_le_length)
  also have "\<dots> = push_bit k (drop_bit k (unat b)) + mask k"
    by (rule disjunctive_add_eq_or [symmetric]) (auto simp: bit_eq_iff bit_simps)
  finally show ?thesis by (simp add: push_bit_eq_mult drop_bit_eq_div mask_eq_exp_minus_1)
qed

text \<open>
  The number of host bits of an l-byte address under an n-bit mask is \<open>8 * l - n\<close>. Two
  steps of arithmetic carry both values through the byte list, by induction from its end.
\<close>

lemma host_split_high:
  fixes h l b v :: nat
  assumes "h \<le> 8 * l"
  shows "(b * 256 ^ l + v) div 2 ^ h * 2 ^ h = b * 256 ^ l + v div 2 ^ h * 2 ^ h"
proof -
  have "(256 :: nat) ^ l = 2 ^ (8 * l)" by (simp add: power_mult)
  also have "\<dots> = 2 ^ (8 * l - h) * 2 ^ h" using assms by (simp flip: power_add)
  finally have eq: "b * 256 ^ l = (b * 2 ^ (8 * l - h)) * 2 ^ h" by simp
  show ?thesis unfolding eq by (simp add: distrib_right)
qed

lemma host_split_low:
  fixes l b k v :: nat
  assumes "v < 256 ^ l"
  shows "(b * 256 ^ l + v) div 2 ^ (8 * l + k) * 2 ^ (8 * l + k) = b div 2 ^ k * 2 ^ k * 256 ^ l"
proof -
  have p: "(2 :: nat) ^ (8 * l + k) = 256 ^ l * 2 ^ k" by (simp add: power_add power_mult)
  have "(b * 256 ^ l + v) div 256 ^ l = b" using assms by simp
  then have "(b * 256 ^ l + v) div 2 ^ (8 * l + k) = b div 2 ^ k"
    by (simp add: p div_mult2_eq)
  then show ?thesis by (simp add: p)
qed

lemma ip_val_mask0: "length a = l \<Longrightarrow> ip_val (map2 (AND) a (CIDRMask l 0)) = 0"
  by (induction l arbitrary: a) 
     (auto simp: length_Suc_conv ip_val_Cons byte_FF unat_and_not_mask unat_byte_less)

lemma ip_val_masked:
  "length a = l \<Longrightarrow> n \<le> 8 * l \<Longrightarrow>
    ip_val (map2 (AND) a (CIDRMask l n)) = ip_val a div 2 ^ (8 * l - n) * 2 ^ (8 * l - n)"
proof (induction l n arbitrary: a rule: CIDRMask.induct)
  case (2 l n)
  then obtain b bs where a: "a = b # bs" and len: "length bs = l" by (cases a) auto
  show ?case
  proof (cases "8 \<le> n")
    case True
    define k where "k = 8 * l - (n - 8)"
    have h: "8 * Suc l - n = k" and le: "n - 8 \<le> 8 * l" and k: "k \<le> 8 * l"
      using 2 True by (auto simp: k_def)
    show ?thesis
      unfolding h using 2(1) [OF True len le] True host_split_high [OF k, of "unat b" "ip_val bs"]
      by (simp add: a ip_val_Cons len k_def [symmetric])
  next
    case False
    then have h: "8 * Suc l - n = 8 * l + (8 - n)" by simp
    show ?thesis
      unfolding h using False host_split_low [of "ip_val bs" l "unat b" "8 - n"] ip_val_less [of bs]
      by (simp add: a ip_val_Cons len ip_val_mask0 byte_host_mask unat_and_not_mask)
  qed
qed simp

section \<open>The last address of a block\<close>

text \<open>mesh.lastAddr: every byte of the network address with the bits outside the mask set.\<close>

definition lastAddr :: "ipnet \<Rightarrow> ip" where
  "lastAddr n = map2 (\<lambda>b m. b OR NOT m) (net_IP n) (net_Mask n)"

lemma ip_val_last0:
  "length a = l \<Longrightarrow> Suc (ip_val (map2 (\<lambda>b m. b OR NOT m) a (CIDRMask l 0))) = 256 ^ l"
proof (induction l arbitrary: a)
  case (Suc l)
  then obtain b bs where a: "a = b # bs" and len: "length bs = l" by (cases a) auto
  have "unat (b OR mask 8) = 255"
    using unat_byte_less [of b] by (simp add: unat_or_mask)
  then show ?case using Suc.IH [OF len] by (simp add: a ip_val_Cons len byte_FF)
qed simp

lemma ip_val_last:
  "length a = l \<Longrightarrow> n \<le> 8 * l \<Longrightarrow>
    Suc (ip_val (map2 (\<lambda>b m. b OR NOT m) a (CIDRMask l n)))
      = ip_val a div 2 ^ (8 * l - n) * 2 ^ (8 * l - n) + 2 ^ (8 * l - n)"
proof (induction l n arbitrary: a rule: CIDRMask.induct)
  case (2 l n)
  then obtain b bs where a: "a = b # bs" and len: "length bs = l" by (cases a) auto
  let ?last = "\<lambda>m. ip_val (map2 (\<lambda>b m. b OR NOT m) bs (CIDRMask l m))"
  show ?case
  proof (cases "8 \<le> n")
    case True
    define k where "k = 8 * l - (n - 8)"
    have h: "8 * Suc l - n = k" and le: "n - 8 \<le> 8 * l" and k: "k \<le> 8 * l"
      using 2 True by (auto simp: k_def)
    have "b OR NOT 0xFF = b" by (simp add: byte_FF) (rule bit_word_eqI, simp add: bit_simps)
    then have "Suc (ip_val (map2 (\<lambda>b m. b OR NOT m) a (CIDRMask (Suc l) n)))
        = unat b * 256 ^ l + Suc (?last (n - 8))"
      using True by (simp add: a ip_val_Cons len)
    also have "\<dots> = (unat b * 256 ^ l + ip_val bs div 2 ^ k * 2 ^ k) + 2 ^ k"
      using 2(1) [OF True len le] by (simp add: k_def)
    also have "\<dots> = ip_val a div 2 ^ k * 2 ^ k + 2 ^ k"
      using host_split_high [OF k, of "unat b" "ip_val bs"] by (simp add: a ip_val_Cons len)
    finally show ?thesis unfolding h .
  next
    case False
    then have h: "8 * Suc l - n = 8 * l + (8 - n)" by simp
    have "Suc (ip_val (map2 (\<lambda>b m. b OR NOT m) a (CIDRMask (Suc l) n)))
        = unat (b OR mask (8 - n)) * 256 ^ l + Suc (?last 0)"
      using False by (simp add: a ip_val_Cons len byte_host_mask)
    also have "\<dots> = Suc (unat (b OR mask (8 - n))) * 256 ^ l"
      using ip_val_last0 [OF len] by simp
    also have "Suc (unat (b OR mask (8 - n))) = unat b div 2 ^ (8 - n) * 2 ^ (8 - n) + 2 ^ (8 - n)"
      by (simp add: unat_or_mask)
    also have "\<dots> * 256 ^ l = unat b div 2 ^ (8 - n) * 2 ^ (8 - n) * 256 ^ l + 2 ^ (8 * l + (8 - n))"
      by (simp add: distrib_right power_add power_mult)
    also have "unat b div 2 ^ (8 - n) * 2 ^ (8 - n) * 256 ^ l
        = ip_val a div 2 ^ (8 * l + (8 - n)) * 2 ^ (8 * l + (8 - n))"
      using host_split_low [of "ip_val bs" l "unat b" "8 - n"] ip_val_less [of bs]
      by (simp add: a ip_val_Cons len)
    finally show ?thesis unfolding h .
  qed
qed simp

section \<open>Text forms\<close>

text \<open>\<open>IP.String\<close> of a 4-byte address: its bytes in decimal, separated by dots.\<close>

definition IP_String :: "ip \<Rightarrow> string" where
  "IP_String a = Join (map (\<lambda>b. FormatNat (unat b)) a) [CHR ''.'']"

datatype cidr_error = CIDRSyntax | IPv6Text

fun first_special :: "string \<Rightarrow> char option" where
  "first_special [] = None"
| "first_special (c # s) =
     (if c = CHR ''.'' \<or> c = CHR '':'' \<or> c = CHR ''%'' then Some c else first_special s)"

text \<open>One octet: decimal digits, at most 255, no leading zero.\<close>

definition parse_octet :: "string \<Rightarrow> 8 word option" where
  "parse_octet s = (case parse_dec s of None \<Rightarrow> None
     | Some n \<Rightarrow> if n \<le> 255 \<and> \<not> (1 < length s \<and> hd s = CHR ''0'') then Some (of_nat n) else None)"

definition ParseAddr :: "string \<Rightarrow> (cidr_error, ip) go_result" where
  "ParseAddr s = (case first_special s of
     Some c \<Rightarrow>
       if c = CHR ''.'' then
         (case map parse_octet (Split s (CHR ''.'')) of
            [Some a, Some b, Some c, Some d] \<Rightarrow> Inr [a, b, c, d]
          | _ \<Rightarrow> Inl CIDRSyntax)
       else if c = CHR '':'' then Inl IPv6Text
       else Inl CIDRSyntax
   | None \<Rightarrow> Inl CIDRSyntax)"

text \<open>
  \<open>net.ParseCIDR\<close>, of which the program keeps the network: the address part, a slash, and
  a decimal prefix length of at most 32.
\<close>

definition ParseCIDR :: "string \<Rightarrow> (cidr_error, ipnet) go_result" where
  "ParseCIDR s = (case Cut s (CHR ''/'') of
     None \<Rightarrow> Inl CIDRSyntax
   | Some (addr, msk) \<Rightarrow> and_then (ParseAddr addr) (\<lambda>a.
       case parse_dec msk of
         None \<Rightarrow> Inl CIDRSyntax
       | Some n \<Rightarrow>
           if 32 < n then Inl CIDRSyntax
           else let m = CIDRMask 4 n in Inr \<lparr>net_IP = IP_Mask a m, net_Mask = m\<rparr>))"

lemma first_special_octets:
  "\<not> is_digit c \<Longrightarrow> first_special (FormatNat n @ c # s) = first_special (c # s)"
proof -
  have "list_all is_digit d \<Longrightarrow> first_special (d @ t) = first_special t" for d t
    by (induction d) (auto simp: is_digit_def)
  then show ?thesis using FormatNat_digits by blast
qed

lemma FormatNat_no_leading_zero: "1 < length (FormatNat n) \<Longrightarrow> hd (FormatNat n) \<noteq> CHR ''0''"
proof (induction n rule: FormatNat.induct)
  case (1 n)
  show ?case
  proof (cases "n < 10")
    case True
    then show ?thesis using 1 by (simp add: FormatNat.simps [of n])
  next
    case False
    then have hd: "hd (FormatNat n) = hd (FormatNat (n div 10))" by (simp add: FormatNat.simps [of n])
    show ?thesis
    proof (cases "n div 10 < 10")
      case True
      have "digit_char (n div 10) \<noteq> CHR ''0''"
        using of_char_digit_char [OF True] False by auto
      then show ?thesis using hd True by (simp add: FormatNat.simps [of "n div 10"])
    next
      case tl: False
      then have "1 < length (FormatNat (n div 10))"
        by (simp add: FormatNat.simps [of "n div 10"])
      then show ?thesis using 1 False hd by simp
    qed
  qed
qed

lemma parse_octet_FormatNat [simp]: "parse_octet (FormatNat (unat b)) = Some b"
  using unat_byte_less [of b] FormatNat_no_leading_zero [of "unat b"]
  by (auto simp: parse_octet_def)

text \<open>Printing a 4-byte address and parsing the text gives the address back.\<close>

lemma ParseAddr_String: "length a = 4 \<Longrightarrow> ParseAddr (IP_String a) = Inr a"
proof -
  assume "length a = 4"
  then obtain b0 b1 b2 b3 where a: "a = [b0, b1, b2, b3]"
    by (auto simp: length_Suc_conv numeral_eq_Suc)
  have sp: "Split (IP_String a) (CHR ''.'') = map (\<lambda>b. FormatNat (unat b)) a"
    unfolding IP_String_def by (rule Split_Join) (auto simp: a FormatNat_not_in)
  have "first_special (IP_String a) = Some (CHR ''.'')"
    by (simp add: a IP_String_def first_special_octets)
  then show ?thesis by (simp add: ParseAddr_def sp) (simp add: a)
qed

lemma IP_String_inj: "length a = 4 \<Longrightarrow> length b = 4 \<Longrightarrow> IP_String a = IP_String b \<Longrightarrow> a = b"
  by (metis ParseAddr_String sum.inject(2))

text \<open>What a parsed network looks like, and its arithmetic.\<close>

definition net4 :: "nat \<Rightarrow> ipnet \<Rightarrow> bool" where
  "net4 n net \<longleftrightarrow> n \<le> 32 \<and> net_Mask net = CIDRMask 4 n
     \<and> (\<exists>a. length a = 4 \<and> net_IP net = IP_Mask a (net_Mask net))"

lemma ParseAddr_length: "ParseAddr s = Inr a \<Longrightarrow> length a = 4"
  by (auto simp: ParseAddr_def split: option.splits list.splits if_splits)

lemma ParseCIDR_net4:
  assumes "ParseCIDR s = Inr net"
  shows "\<exists>n. net4 n net"
proof -
  obtain addr msk where c: "Cut s (CHR ''/'') = Some (addr, msk)"
    using assms by (cases "Cut s (CHR ''/'')") (auto simp: ParseCIDR_def)
  obtain a where a: "ParseAddr addr = Inr a"
    using assms c by (auto simp: ParseCIDR_def and_then_Inr_iff)
  obtain n where n: "parse_dec msk = Some n"
    using assms c a by (cases "parse_dec msk") (auto simp: ParseCIDR_def)
  have "n \<le> 32" "net = \<lparr>net_IP = IP_Mask a (CIDRMask 4 n), net_Mask = CIDRMask 4 n\<rparr>"
    using assms c a n by (auto simp: ParseCIDR_def Let_def split: if_splits)
  then have "net4 n net" using ParseAddr_length [OF a] by (auto simp: net4_def)
  then show ?thesis ..
qed

lemma net4_masked:
  assumes "net4 n net"
  shows "length (net_IP net) = 4" "length (net_Mask net) = 4" "IP_Mask (net_IP net) (net_Mask net) = net_IP net"
proof -
  obtain a where a: "length a = 4" "net_Mask net = CIDRMask 4 n" "net_IP net = IP_Mask a (CIDRMask 4 n)"
    using assms by (auto simp: net4_def)
  show "length (net_IP net) = 4" "length (net_Mask net) = 4" by (simp_all add: a IP_Mask_def)
  show "IP_Mask (net_IP net) (net_Mask net) = net_IP net"
    using a by (auto simp: IP_Mask_def list_eq_iff_nth_eq and.assoc)
qed

definition host_size :: "nat \<Rightarrow> nat" where
  "host_size n = 2 ^ (32 - n)"

lemma net4_vals:
  assumes "net4 n net"
  shows "ip_val (net_IP net) = ip_val (net_IP net) div host_size n * host_size n"
    and "Suc (ip_val (lastAddr net)) = ip_val (net_IP net) + host_size n"
    and "length (lastAddr net) = 4"
proof -
  note m = net4_masked [OF assms]
  have mask: "net_Mask net = CIDRMask 4 n" and n: "n \<le> 8 * 4" using assms by (auto simp: net4_def)
  show net: "ip_val (net_IP net) = ip_val (net_IP net) div host_size n * host_size n"
    using ip_val_masked [OF m(1) n] m by (simp add: IP_Mask_def mask host_size_def)
  show "Suc (ip_val (lastAddr net)) = ip_val (net_IP net) + host_size n"
    using ip_val_last [OF m(1) n] net by (simp add: lastAddr_def mask host_size_def)
  show "length (lastAddr net) = 4" using m by (simp add: lastAddr_def)
qed

lemma net4_contains:
  assumes "net4 n net"
  shows "net_contains net a \<longleftrightarrow> length a = 4 \<and> ip_val (net_IP net) \<le> ip_val a
    \<and> ip_val a < ip_val (net_IP net) + host_size n"
proof (cases "length a = 4")
  case True
  note m = net4_masked [OF assms] and v = net4_vals(1) [OF assms]
  have mask: "net_Mask net = CIDRMask 4 n" and n: "n \<le> 8 * 4" using assms by (auto simp: net4_def)
  have "net_contains net a \<longleftrightarrow> IP_Mask a (net_Mask net) = net_IP net"
    using m True by (auto simp: net_contains_def IP_Mask_def)
  also have "\<dots> \<longleftrightarrow> ip_val (IP_Mask a (net_Mask net)) = ip_val (net_IP net)"
    using m True by (auto intro!: ip_val_inj simp: IP_Mask_def)
  also have "\<dots> \<longleftrightarrow> ip_val a div host_size n * host_size n = ip_val (net_IP net)"
    using ip_val_masked [OF True n] True m by (simp add: IP_Mask_def mask host_size_def)
  also have "\<dots> \<longleftrightarrow> ip_val (net_IP net) \<le> ip_val a \<and> ip_val a < ip_val (net_IP net) + host_size n"
  proof -
    define d where "d = ip_val (net_IP net) div host_size n"
    have pos: "0 < host_size n" by (simp add: host_size_def)
    have "ip_val a div host_size n * host_size n = d * host_size n
        \<longleftrightarrow> d * host_size n \<le> ip_val a \<and> ip_val a < d * host_size n + host_size n"
      using pos by (simp add: div_nat_eqI mult.commute) (metis add.commute div_nat_eqI
          dividend_less_times_div mult.commute mult_Suc_right times_div_less_eq_dividend)
    then show ?thesis using v by (simp add: d_def)
  qed
  finally show ?thesis using True by simp
qed (auto simp: net_contains_def net4_masked [OF assms])

end
