(* ===== verification/Json.thy ===== *)
theory Json
  imports GoStrings "HOL-Library.AList" "HOL-Library.Log_Nat"
begin

text \<open>
  JSON values and the part of Go's \<open>encoding/json\<close> the program relies on: what
  \<open>json.Unmarshal\<close> does when it decodes a value into a struct. A number is \<open>JInt\<close> when
  it is written as a plain integer (what an \<open>int\<close> field accepts) and \<open>JNum\<close> when it is not
  integral; an integral value written with a fraction or an exponent is outside the model.

  Unmarshal leaves the destination alone on \<open>null\<close>, ignores unknown keys, matches a key to
  a field exactly and, failing that, case-insensitively (ASCII folding here), keeps absent
  fields as they are, and reports a value of the wrong type as an error. After such an
  error every caller of the program discards the destination, so the model returns None.
\<close>

datatype json =
    JNull
  | JBool bool
  | JInt int
  | JNum
  | JStr string
  | JArr "json list"
  | JObj "(string \<times> json) list"

section \<open>Decoding into typed fields\<close>

fun dec_string :: "json \<Rightarrow> string \<Rightarrow> string option" where
  "dec_string (JStr s) old = Some s"
| "dec_string JNull old = Some old"
| "dec_string _ old = None"

fun dec_int :: "json \<Rightarrow> int \<Rightarrow> int option" where
  "dec_int (JInt i) old = (if in_int64 i then Some i else None)"
| "dec_int JNull old = Some old"
| "dec_int _ old = None"

fun dec_bool :: "json \<Rightarrow> bool \<Rightarrow> bool option" where
  "dec_bool (JBool b) old = Some b"
| "dec_bool JNull old = Some old"
| "dec_bool _ old = None"

text \<open>A slice: \<open>null\<close> is nil, an array is decoded element by element from the zero value.\<close>

fun dec_all :: "(json \<Rightarrow> 'a \<Rightarrow> 'a option) \<Rightarrow> 'a \<Rightarrow> json list \<Rightarrow> 'a list option" where
  "dec_all f z [] = Some []"
| "dec_all f z (x # xs) = (case f x z of None \<Rightarrow> None
     | Some y \<Rightarrow> map_option ((#) y) (dec_all f z xs))"

fun dec_slice :: "(json \<Rightarrow> 'a \<Rightarrow> 'a option) \<Rightarrow> 'a \<Rightarrow> json \<Rightarrow> 'a list \<Rightarrow> 'a list option" where
  "dec_slice f z (JArr xs) old = dec_all f z xs"
| "dec_slice f z JNull old = Some []"
| "dec_slice f z _ old = None"

lemma dec_all_map [simp]:
  "(\<And>x. x \<in> set xs \<Longrightarrow> f (g x) z = Some x) \<Longrightarrow> dec_all f z (map g xs) = Some xs"
  by (induction xs) auto

section \<open>Structs\<close>

text \<open>
  A struct type is described by its JSON field names, each with the setter that decodes a
  value into that field.
\<close>

type_synonym 's fields = "(string \<times> (json \<Rightarrow> 's \<Rightarrow> 's option)) list"

definition fold_char :: "char \<Rightarrow> nat" where
  "fold_char c = (let n = of_char c in if 65 \<le> n \<and> n \<le> 90 then n + 32 else n)"

definition fold_name :: "string \<Rightarrow> nat list" where
  "fold_name s = map fold_char s"

definition find_field :: "'s fields \<Rightarrow> string \<Rightarrow> (json \<Rightarrow> 's \<Rightarrow> 's option) option" where
  "find_field fs k = (case map_of fs k of
     Some f \<Rightarrow> Some f
   | None \<Rightarrow> map_option snd (List.find (\<lambda>(n, _). fold_name n = fold_name k) fs))"

fun dec_members :: "'s fields \<Rightarrow> (string \<times> json) list \<Rightarrow> 's \<Rightarrow> 's option" where
  "dec_members fs [] s = Some s"
| "dec_members fs ((k, v) # kvs) s = (case find_field fs k of
     None \<Rightarrow> dec_members fs kvs s
   | Some f \<Rightarrow> (case f v s of None \<Rightarrow> None | Some s' \<Rightarrow> dec_members fs kvs s'))"

fun dec_struct :: "'s fields \<Rightarrow> json \<Rightarrow> 's \<Rightarrow> 's option" where
  "dec_struct fs (JObj kvs) s = dec_members fs kvs s"
| "dec_struct fs JNull s = Some s"
| "dec_struct fs _ s = None"

section \<open>Generic decoding\<close>

text \<open>
  Decoding into an \<open>interface{}\<close> gives maps, whose keys are unique (the last occurrence
  wins) and which are marshalled in key order, and 64-bit floating-point numbers: an
  integer of more than 53 bits is rounded to a multiple of a power of two, ties to even.
\<close>

definition float64_int :: "int \<Rightarrow> int" where
  "float64_int i = (let a = nat \<bar>i\<bar>; u = 2 ^ (floorlog 2 a - 53); q = a div u; r = a mod u;
       q' = (if u < 2 * r \<or> (2 * r = u \<and> odd q) then q + 1 else q)
     in sgn i * int (q' * u))"

lemma float64_int_small: "\<bar>i\<bar> < 2 ^ 53 \<Longrightarrow> float64_int i = i"
proof -
  assume i: "\<bar>i\<bar> < 2 ^ 53"
  have "nat \<bar>i\<bar> < nat (2 ^ 53)" using i by (simp only: nat_less_eq_zless abs_ge_zero)
  then have "floorlog 2 (nat \<bar>i\<bar>) \<le> 53"
    by (intro floorlog_leI) (simp_all add: nat_power_eq)
  then have e: "floorlog 2 (nat \<bar>i\<bar>) - 53 = 0" by (rule diff_is_0_eq [THEN iffD2])
  show ?thesis unfolding float64_int_def Let_def e by (simp add: sgn_mult_abs)
qed

fun last_wins :: "(string \<times> 'a) list \<Rightarrow> (string \<times> 'a) list" where
  "last_wins [] = []"
| "last_wins ((k, v) # kvs) = (if k \<in> fst ` set kvs then last_wins kvs else (k, v) # last_wins kvs)"

fun generic :: "json \<Rightarrow> json" where
  "generic (JArr xs) = JArr (map generic xs)"
| "generic (JObj kvs) = JObj (sort_key fst (last_wins (map (\<lambda>(k, v). (k, generic v)) kvs)))"
| "generic (JInt i) = JInt (float64_int i)"
| "generic v = v"

end
