(* ===== verification/Protocol.thy ===== *)
theory Protocol
  imports Json
begin

text \<open>
  internal/protocol: the WebSocket envelopes and their payloads, what \<open>json.Marshal\<close>
  makes of each payload, and \<open>DecodePayload\<close>. The lemmas are the round trips: a payload
  that was marshalled on one side is decoded to the same payload on the other.
\<close>

section \<open>Messages\<close>

definition TypeRegister :: string where "TypeRegister = ''register''"
definition TypeRegistered :: string where "TypeRegistered = ''registered''"
definition TypeHeartbeat :: string where "TypeHeartbeat = ''heartbeat''"
definition TypePeerList :: string where "TypePeerList = ''peer_list''"

lemmas message_types = TypeRegister_def TypeRegistered_def TypeHeartbeat_def TypePeerList_def

record Envelope =
  env_Type :: string
  env_Payload :: json

record RegisterPayload =
  reg_Name :: string
  reg_PublicKey :: string
  reg_Port :: int
  reg_Endpoint :: string
  reg_AdvertisedSubnets :: "string list"

record PeerInfo =
  peer_PublicKey :: string
  peer_MeshIP :: string
  peer_Endpoint :: string
  peer_AdvertisedSubnets :: "string list"

record RegisteredPayload =
  rgd_MeshIP :: string
  rgd_Peers :: "PeerInfo list"

record PeerListPayload =
  pl_Peers :: "PeerInfo list"

section \<open>Marshalling\<close>

text \<open>The \<open>omitempty\<close> tag leaves a member out when its value is empty.\<close>

definition omitempty :: "bool \<Rightarrow> string \<Rightarrow> json \<Rightarrow> (string \<times> json) list" where
  "omitempty isempty k v = (if isempty then [] else [(k, v)])"

definition enc_strings :: "string list \<Rightarrow> json" where
  "enc_strings xs = JArr (map JStr xs)"

definition enc_register :: "RegisterPayload \<Rightarrow> json" where
  "enc_register p = JObj ([(''name'', JStr (reg_Name p)), (''public_key'', JStr (reg_PublicKey p)),
      (''port'', JInt (reg_Port p))]
    @ omitempty (reg_Endpoint p = []) ''endpoint'' (JStr (reg_Endpoint p))
    @ omitempty (reg_AdvertisedSubnets p = []) ''advertised_subnets'' (enc_strings (reg_AdvertisedSubnets p)))"

definition enc_peer :: "PeerInfo \<Rightarrow> json" where
  "enc_peer p = JObj ([(''public_key'', JStr (peer_PublicKey p)), (''mesh_ip'', JStr (peer_MeshIP p))]
    @ omitempty (peer_Endpoint p = []) ''endpoint'' (JStr (peer_Endpoint p))
    @ omitempty (peer_AdvertisedSubnets p = []) ''advertised_subnets'' (enc_strings (peer_AdvertisedSubnets p)))"

definition enc_registered :: "RegisteredPayload \<Rightarrow> json" where
  "enc_registered p = JObj [(''mesh_ip'', JStr (rgd_MeshIP p)), (''peers'', JArr (map enc_peer (rgd_Peers p)))]"

definition enc_peer_list :: "PeerListPayload \<Rightarrow> json" where
  "enc_peer_list p = JObj [(''peers'', JArr (map enc_peer (pl_Peers p)))]"

definition enc_heartbeat :: json where
  "enc_heartbeat = JObj []"

section \<open>Unmarshalling\<close>

definition zero_register :: RegisterPayload where
  "zero_register = \<lparr>reg_Name = [], reg_PublicKey = [], reg_Port = 0, reg_Endpoint = [], reg_AdvertisedSubnets = []\<rparr>"

definition zero_peer :: PeerInfo where
  "zero_peer = \<lparr>peer_PublicKey = [], peer_MeshIP = [], peer_Endpoint = [], peer_AdvertisedSubnets = []\<rparr>"

definition zero_registered :: RegisteredPayload where
  "zero_registered = \<lparr>rgd_MeshIP = [], rgd_Peers = []\<rparr>"

definition zero_peer_list :: PeerListPayload where
  "zero_peer_list = \<lparr>pl_Peers = []\<rparr>"

definition register_fields :: "RegisterPayload fields" where
  "register_fields =
    [(''name'', \<lambda>v s. map_option (\<lambda>x. s\<lparr>reg_Name := x\<rparr>) (dec_string v (reg_Name s))),
     (''public_key'', \<lambda>v s. map_option (\<lambda>x. s\<lparr>reg_PublicKey := x\<rparr>) (dec_string v (reg_PublicKey s))),
     (''port'', \<lambda>v s. map_option (\<lambda>x. s\<lparr>reg_Port := x\<rparr>) (dec_int v (reg_Port s))),
     (''endpoint'', \<lambda>v s. map_option (\<lambda>x. s\<lparr>reg_Endpoint := x\<rparr>) (dec_string v (reg_Endpoint s))),
     (''advertised_subnets'', \<lambda>v s. map_option (\<lambda>x. s\<lparr>reg_AdvertisedSubnets := x\<rparr>)
        (dec_slice dec_string [] v (reg_AdvertisedSubnets s)))]"

definition peer_fields :: "PeerInfo fields" where
  "peer_fields =
    [(''public_key'', \<lambda>v s. map_option (\<lambda>x. s\<lparr>peer_PublicKey := x\<rparr>) (dec_string v (peer_PublicKey s))),
     (''mesh_ip'', \<lambda>v s. map_option (\<lambda>x. s\<lparr>peer_MeshIP := x\<rparr>) (dec_string v (peer_MeshIP s))),
     (''endpoint'', \<lambda>v s. map_option (\<lambda>x. s\<lparr>peer_Endpoint := x\<rparr>) (dec_string v (peer_Endpoint s))),
     (''advertised_subnets'', \<lambda>v s. map_option (\<lambda>x. s\<lparr>peer_AdvertisedSubnets := x\<rparr>)
        (dec_slice dec_string [] v (peer_AdvertisedSubnets s)))]"

definition registered_fields :: "RegisteredPayload fields" where
  "registered_fields =
    [(''mesh_ip'', \<lambda>v s. map_option (\<lambda>x. s\<lparr>rgd_MeshIP := x\<rparr>) (dec_string v (rgd_MeshIP s))),
     (''peers'', \<lambda>v s. map_option (\<lambda>x. s\<lparr>rgd_Peers := x\<rparr>)
        (dec_slice (dec_struct peer_fields) zero_peer v (rgd_Peers s)))]"

definition peer_list_fields :: "PeerListPayload fields" where
  "peer_list_fields =
    [(''peers'', \<lambda>v s. map_option (\<lambda>x. s\<lparr>pl_Peers := x\<rparr>)
        (dec_slice (dec_struct peer_fields) zero_peer v (pl_Peers s)))]"

text \<open>
  \<open>DecodePayload\<close>: the payload arrives as a generic value, is marshalled again and
  unmarshalled into the zero value of the concrete struct.
\<close>

definition DecodePayload :: "'s fields \<Rightarrow> 's \<Rightarrow> Envelope \<Rightarrow> 's option" where
  "DecodePayload fs zero env = dec_struct fs (generic (env_Payload env)) zero"


section \<open>Round trips\<close>

lemma dec_strings_map [simp]: "dec_all dec_string [] (map JStr xs) = Some xs"
  by (rule dec_all_map) simp

lemma map_generic_JStr [simp]: "map (generic \<circ> JStr) xs = map JStr xs"
  by simp

lemma small_in_int64: "\<bar>i\<bar> < 2 ^ 53 \<Longrightarrow> in_int64 i"
  by (auto simp: in_int64_def abs_less_iff)

lemma register_roundtrip:
  assumes "\<bar>reg_Port p\<bar> < 2 ^ 53"
  shows "DecodePayload register_fields zero_register \<lparr>env_Type = t, env_Payload = enc_register p\<rparr> = Some p"
  using small_in_int64 [OF assms] float64_int_small [OF assms]
  by (cases p) (simp add: DecodePayload_def enc_register_def omitempty_def enc_strings_def
     sort_key_def register_fields_def zero_register_def find_field_def)

lemma peer_roundtrip: "dec_struct peer_fields (generic (enc_peer p)) zero_peer = Some p"
  by (cases p) (simp add: enc_peer_def omitempty_def enc_strings_def sort_key_def peer_fields_def
     zero_peer_def find_field_def)

lemma peers_roundtrip:
  "dec_all (dec_struct peer_fields) zero_peer (map (generic \<circ> enc_peer) ps) = Some ps"
  by (rule dec_all_map) (simp add: peer_roundtrip)

lemma registered_roundtrip:
  "DecodePayload registered_fields zero_registered \<lparr>env_Type = t, env_Payload = enc_registered p\<rparr> = Some p"
  by (cases p) (simp add: DecodePayload_def enc_registered_def sort_key_def registered_fields_def
     zero_registered_def find_field_def peers_roundtrip)

lemma peer_list_roundtrip:
  "DecodePayload peer_list_fields zero_peer_list \<lparr>env_Type = t, env_Payload = enc_peer_list p\<rparr> = Some p"
  by (cases p) (simp add: DecodePayload_def enc_peer_list_def sort_key_def peer_list_fields_def
     zero_peer_list_def find_field_def peers_roundtrip)

end
