(* ===== verification/Database.thy ===== *)
theory Database
  imports GoStrings
begin

text \<open>
  The Postgres database behind internal/controlplane/db: the tables that the migrations
  create, as lists of rows, and what the statements of the package meet there. A statement
  can fail for reasons outside the program (a lost connection, a cancelled context): the
  list \<open>faults\<close> scripts, statement by statement, whether Postgres serves it, and an
  exhausted script means that every later statement is served. Every theorem that does not
  mention \<open>faults\<close> holds for every script. A statement that is not served changes nothing.

  \<open>db_ok\<close> collects the constraints of the schema: unique columns, foreign keys and CHECKs.
\<close>

text \<open>db.Node, which mirrors a row of the nodes table. Times are nanoseconds.\<close>

record Node =
  node_ID :: nat
  node_Name :: string
  node_PublicKey :: string
  node_MeshIP :: string
  node_LastEndpoint :: "string option"
  node_LastSeen :: "int option"
  node_AdvertisedSubnets :: "string list"

record ResourceRow =
  res_id :: nat
  res_name :: string
  res_protocol :: string
  res_domain :: "string option"
  res_entry_point :: string
  res_cert_resolver :: "string option"
  res_target_scheme :: string
  res_target_skip_verify :: bool
  res_sticky :: bool

record TargetRow =
  tgt_resource_id :: nat
  tgt_node_id :: "nat option"
  tgt_address :: "string option"
  tgt_port :: int
  tgt_role :: string

record UserRow =
  user_id :: nat
  user_email :: string
  user_password_hash :: "string option"
  user_role :: string
  user_invite_token :: "string option"
  user_invite_expires :: "int option"
  user_reset_token :: "string option"
  user_reset_expires :: "int option"
  user_created_at :: int

record db =
  nodes :: "Node list"
  resources :: "ResourceRow list"
  resource_targets :: "TargetRow list"
  users :: "UserRow list"
  next_id :: nat
  faults :: "bool list"

text \<open>The tables of a freshly migrated database.\<close>

definition empty_db :: db where
  "empty_db = \<lparr>nodes = [], resources = [], resource_targets = [], users = [], next_id = 0, faults = []\<rparr>"

section \<open>Serving a statement\<close>

text \<open>What the driver reports. Handlers print these errors; they never look inside.\<close>

datatype db_error =
    Unserved
  | UniqueViolation
  | CheckViolation
  | ForeignKeyViolation
  | OutOfRange
  | NoRows

definition statement :: "db \<Rightarrow> bool \<times> db" where
  "statement d = (case faults d of [] \<Rightarrow> (True, d) | f # fs \<Rightarrow> (\<not> f, d\<lparr>faults := fs\<rparr>))"

text \<open>Two databases have the same tables (they may differ in the script and the id source).\<close>

definition same_tables :: "db \<Rightarrow> db \<Rightarrow> bool" where
  "same_tables a b \<longleftrightarrow> nodes a = nodes b \<and> resources a = resources b
     \<and> resource_targets a = resource_targets b \<and> users a = users b"

lemma same_tables_refl [simp]: "same_tables d d"
  by (simp add: same_tables_def)

lemma same_tables_trans: "same_tables a b \<Longrightarrow> same_tables b c \<Longrightarrow> same_tables a c"
  by (simp add: same_tables_def)

lemma statement_tables:
  assumes "statement d = (ok, d')"
  shows "nodes d' = nodes d" "resources d' = resources d" "resource_targets d' = resource_targets d"
    "users d' = users d" "next_id d' = next_id d"
  using assms by (auto simp: statement_def split: list.splits)

lemma statement_served [simp]: "faults d = [] \<Longrightarrow> statement d = (True, d)"
  by (simp add: statement_def)

text \<open>A query or command that is one statement: run it when served.\<close>

definition run_statement :: "(db \<Rightarrow> (db_error + 'a) \<times> db) \<Rightarrow> db \<Rightarrow> (db_error + 'a) \<times> db" where
  "run_statement body d = (case statement d of (ok, d1) \<Rightarrow> if ok then body d1 else (Inl Unserved, d1))"

lemma run_statement_cases:
  assumes "run_statement body d = (r, d')"
  obtains d1 where "statement d = (False, d1)" "r = Inl Unserved" "d' = d1"
  | d1 where "statement d = (True, d1)" "body d1 = (r, d')"
  using assms by (auto simp: run_statement_def split: prod.splits if_splits)

lemma run_statement_served: "faults d = [] \<Longrightarrow> run_statement body d = body d"
  by (simp add: run_statement_def)

text \<open>A transaction that ends in an error is rolled back to the tables it began with.\<close>

definition rollback_to :: "db \<Rightarrow> db \<Rightarrow> db" where
  "rollback_to d0 d = d0\<lparr>faults := faults d, next_id := next_id d\<rparr>"

lemma rollback_to_sel [simp]:
  "nodes (rollback_to d0 d) = nodes d0" "resources (rollback_to d0 d) = resources d0"
  "resource_targets (rollback_to d0 d) = resource_targets d0" "users (rollback_to d0 d) = users d0"
  "next_id (rollback_to d0 d) = next_id d" "faults (rollback_to d0 d) = faults d"
  by (simp_all add: rollback_to_def)

text \<open>
  \<open>Begin\<close>, the statements of the body, \<open>Commit\<close>, with the deferred \<open>Rollback\<close> on
  every other way out.
\<close>

definition in_transaction ::
  "(db_error \<Rightarrow> 'e) \<Rightarrow> (db_error \<Rightarrow> 'e) \<Rightarrow> (db \<Rightarrow> ('e + 'a) \<times> db) \<Rightarrow> db \<Rightarrow> ('e + 'a) \<times> db" where
  "in_transaction begin_err commit_err body d = (case statement d of (ok, d1) \<Rightarrow>
     if \<not> ok then (Inl (begin_err Unserved), d1)
     else (case body d1 of
         (Inl e, d2) \<Rightarrow> (Inl e, rollback_to d1 d2)
       | (Inr x, d2) \<Rightarrow> (case statement d2 of (ok, d3) \<Rightarrow>
           if ok then (Inr x, d3) else (Inl (commit_err Unserved), rollback_to d1 d3))))"

section \<open>The constraints of the schema\<close>

definition node_ids :: "db \<Rightarrow> nat set" where
  "node_ids d = node_ID ` set (nodes d)"

definition in_int4 :: "int \<Rightarrow> bool" where
  "in_int4 i \<longleftrightarrow> - (2 ^ 31) \<le> i \<and> i < 2 ^ 31"

definition protocol_check :: "string \<Rightarrow> bool" where
  "protocol_check p \<longleftrightarrow> p = ''http'' \<or> p = ''tcp'' \<or> p = ''udp''"

definition role_check :: "string \<Rightarrow> bool" where
  "role_check r \<longleftrightarrow> r = ''primary'' \<or> r = ''backup''"

definition target_row_ok :: "TargetRow \<Rightarrow> bool" where
  "target_row_ok t \<longleftrightarrow> in_int4 (tgt_port t) \<and> role_check (tgt_role t)
     \<and> ((tgt_node_id t \<noteq> None) \<noteq> (tgt_address t \<noteq> None))"

definition nodes_ok :: "db \<Rightarrow> bool" where
  "nodes_ok d \<longleftrightarrow> distinct (map node_ID (nodes d)) \<and> distinct (map node_Name (nodes d))
     \<and> distinct (map node_PublicKey (nodes d)) \<and> distinct (map node_MeshIP (nodes d))
     \<and> (\<forall>n \<in> set (nodes d). node_ID n < next_id d)"

definition resources_ok :: "db \<Rightarrow> bool" where
  "resources_ok d \<longleftrightarrow> distinct (map res_id (resources d)) \<and> distinct (map res_name (resources d))
     \<and> (\<forall>r \<in> set (resources d). protocol_check (res_protocol r) \<and> res_id r < next_id d)
     \<and> (\<forall>t \<in> set (resource_targets d). target_row_ok t \<and> tgt_resource_id t \<in> res_id ` set (resources d)
          \<and> (\<forall>i. tgt_node_id t = Some i \<longrightarrow> i \<in> node_ids d))"

definition users_ok :: "db \<Rightarrow> bool" where
  "users_ok d \<longleftrightarrow> distinct (map user_id (users d)) \<and> distinct (map user_email (users d))
     \<and> unique_on user_invite_token (users d) \<and> unique_on user_reset_token (users d)
     \<and> (\<forall>u \<in> set (users d). user_id u < next_id d)"

definition db_ok :: "db \<Rightarrow> bool" where
  "db_ok d \<longleftrightarrow> nodes_ok d \<and> resources_ok d \<and> users_ok d"

lemmas db_ok_defs = db_ok_def nodes_ok_def resources_ok_def users_ok_def

lemma empty_db_ok: "db_ok empty_db"
  by (simp add: db_ok_defs empty_db_def)

lemma same_tables_ok:
  assumes "same_tables a b" "next_id a \<le> next_id b" "db_ok a"
  shows "db_ok b"
  using assms by (fastforce simp: db_ok_defs same_tables_def node_ids_def)

lemma statement_ok:
  assumes "statement d = (ok, d')"
  shows "db_ok d' = db_ok d"
  using statement_tables [OF assms] by (simp add: db_ok_defs node_ids_def)

lemma statement_same: "statement d = (ok, d') \<Longrightarrow> same_tables d d'"
  by (simp add: same_tables_def statement_tables)

lemma rollback_same: "same_tables d0 (rollback_to d0 d)"
  by (simp add: same_tables_def)

text \<open>A transaction either commits what its body did or leaves the tables as they were.\<close>

lemma in_transaction_error:
  assumes "in_transaction b c body d = (Inl e, d')"
  shows "same_tables d d'"
  using assms
  by (auto simp: in_transaction_def split: prod.splits sum.splits if_splits
      dest!: statement_same intro: same_tables_trans rollback_same)

lemma in_transaction_commit:
  assumes "in_transaction b c body d = (Inr x, d')"
  obtains d1 d2 where "statement d = (True, d1)" "body d1 = (Inr x, d2)" "statement d2 = (True, d')"
  using assms by (auto simp: in_transaction_def split: prod.splits sum.splits if_splits)

text \<open>
  Every statement function of the package keeps the schema's constraints. The contract of
  an operation on the database, and the rule that carries it over the serving of the
  statement, are stated once.
\<close>

locale db_operation =
  fixes body :: "db \<Rightarrow> (db_error + 'a) \<times> db"
  assumes body_ok: "db_ok d \<Longrightarrow> body d = (r, d') \<Longrightarrow> db_ok d'"
    and body_error: "body d = (Inl e, d') \<Longrightarrow> same_tables d d'"
begin

lemma run_ok:
  assumes "db_ok d" "run_statement body d = (r, d')"
  shows "db_ok d'"
  using assms(2)
proof (rule run_statement_cases)
  fix d1 assume "statement d = (False, d1)" "d' = d1"
  then show ?thesis using assms(1) by (simp add: statement_ok)
next
  fix d1 assume s: "statement d = (True, d1)" and b: "body d1 = (r, d')"
  have "db_ok d1" using assms(1) s by (simp add: statement_ok)
  then show ?thesis using b by (rule body_ok)
qed

lemma run_error:
  assumes "run_statement body d = (Inl e, d')"
  shows "same_tables d d'"
  using assms
proof (rule run_statement_cases)
  fix d1 assume "statement d = (False, d1)" "d' = d1"
  then show ?thesis by (auto intro: statement_same)
next
  fix d1 assume "statement d = (True, d1)" "body d1 = (Inl e, d')"
  then show ?thesis by (blast intro: same_tables_trans statement_same body_error)
qed

end

text \<open>
  The same for a function that runs several statements: \<open>advances\<close> says that ids are
  never reissued. A body with both laws may run in a transaction.
\<close>

locale db_transaction =
  fixes body :: "db \<Rightarrow> ('e + 'a) \<times> db"
  assumes keeps: "db_ok d \<Longrightarrow> body d = (Inr x, d') \<Longrightarrow> db_ok d'"
    and advances: "body d = (r, d') \<Longrightarrow> next_id d \<le> next_id d'"
begin

lemma transaction_ok:
  assumes ok: "db_ok d" and run: "in_transaction b c body d = (r, d')"
  shows "db_ok d'"
proof -
  obtain s1 d1 where s: "statement d = (s1, d1)" by (cases "statement d")
  have ok1: "db_ok d1" using ok s by (simp add: statement_ok)
  have roll: "db_ok (rollback_to d1 d2)" if "next_id d1 \<le> next_id d2" for d2
    using that by (intro same_tables_ok [OF rollback_same _ ok1]) simp
  obtain r2 d2 where b: "body d1 = (r2, d2)" by (cases "body d1")
  have n2: "next_id d1 \<le> next_id d2" using b by (rule advances)
  obtain s3 d3 where s3: "statement d2 = (s3, d3)" by (cases "statement d2")
  have n3: "next_id d1 \<le> next_id d3" using n2 s3 by (simp add: statement_tables)
  show ?thesis
    using run s b s3 ok1 roll [OF n2] roll [OF n3] keeps [OF ok1] statement_ok [OF s3]
    by (cases r2) (auto simp: in_transaction_def split: if_splits)
qed

end

end
