(* ===== verification/NodesDb.thy ===== *)
theory NodesDb
  imports Database
begin

text \<open>
  internal/controlplane/db/db.go: the statements on the nodes table. \<open>pg_now\<close> is what
  \<open>now()\<close> gives inside the statement. The lemmas show that each keeps the schema's
  constraints, that an upsert is an upsert of the row with that name (a registered node
  keeps its id and its mesh address, whatever address is offered), and that a heartbeat
  touches nothing but the row's time.
\<close>

definition UsedMeshIPs :: "db \<Rightarrow> (db_error + string list) \<times> db" where
  "UsedMeshIPs = run_statement (\<lambda>d. (Inr (map node_MeshIP (nodes d)), d))"

definition ListNodes :: "db \<Rightarrow> (db_error + Node list) \<times> db" where
  "ListNodes = run_statement (\<lambda>d. (Inr (nodes d), d))"

definition node_named :: "string \<Rightarrow> db \<Rightarrow> Node option" where
  "node_named name d = List.find (\<lambda>n. node_Name n = name) (nodes d)"

text \<open>INSERT ... ON CONFLICT (name) DO UPDATE ... RETURNING host(mesh_ip).\<close>

definition upsert_body ::
  "int \<Rightarrow> string \<Rightarrow> string \<Rightarrow> string \<Rightarrow> string \<Rightarrow> string list \<Rightarrow> db \<Rightarrow> (db_error + string) \<times> db" where
  "upsert_body pg_now name publicKey meshIP endpoint subnets d =
     (case node_named name d of
        Some n \<Rightarrow>
          if list_ex (\<lambda>m. node_Name m \<noteq> name \<and> node_PublicKey m = publicKey) (nodes d)
          then (Inl UniqueViolation, d)
          else (Inr (node_MeshIP n),
                d\<lparr>nodes := update_where (\<lambda>m. node_Name m = name)
                    (\<lambda>m. m\<lparr>node_PublicKey := publicKey, node_LastEndpoint := Some endpoint,
                           node_LastSeen := Some pg_now, node_AdvertisedSubnets := subnets\<rparr>) (nodes d)\<rparr>)
      | None \<Rightarrow>
          if list_ex (\<lambda>m. node_PublicKey m = publicKey \<or> node_MeshIP m = meshIP) (nodes d)
          then (Inl UniqueViolation, d)
          else (Inr meshIP,
                d\<lparr>nodes := nodes d @ [\<lparr>node_ID = next_id d, node_Name = name, node_PublicKey = publicKey,
                     node_MeshIP = meshIP, node_LastEndpoint = Some endpoint, node_LastSeen = Some pg_now,
                     node_AdvertisedSubnets = subnets\<rparr>], next_id := Suc (next_id d)\<rparr>))"

definition UpsertNode ::
  "int \<Rightarrow> string \<Rightarrow> string \<Rightarrow> string \<Rightarrow> string \<Rightarrow> string list \<Rightarrow> db \<Rightarrow> (db_error + string) \<times> db" where
  "UpsertNode pg_now name publicKey meshIP endpoint subnets =
     run_statement (upsert_body pg_now name publicKey meshIP endpoint subnets)"

definition touch_body :: "int \<Rightarrow> string \<Rightarrow> db \<Rightarrow> (db_error + unit) \<times> db" where
  "touch_body pg_now publicKey d = (Inr (), d\<lparr>nodes := update_where (\<lambda>n. node_PublicKey n = publicKey)
     (\<lambda>n. n\<lparr>node_LastSeen := Some pg_now\<rparr>) (nodes d)\<rparr>)"

definition TouchLastSeen :: "int \<Rightarrow> string \<Rightarrow> db \<Rightarrow> (db_error + unit) \<times> db" where
  "TouchLastSeen pg_now publicKey = run_statement (touch_body pg_now publicKey)"

section \<open>Looking a node up by name\<close>

lemma node_named_Some_iff:
  "nodes_ok d \<Longrightarrow> node_named name d = Some n \<longleftrightarrow> n \<in> set (nodes d) \<and> node_Name n = name"
  by (simp add: node_named_def nodes_ok_def distinct_map_find)

lemma node_named_None_iff: "node_named name d = None \<longleftrightarrow> name \<notin> node_Name ` set (nodes d)"
  by (auto simp: node_named_def find_None_iff)

section \<open>The constraints are kept\<close>

lemma nodes_ok_update:
  assumes ok: "nodes_ok d"
    and same: "\<And>n. node_ID (f n) = node_ID n" "\<And>n. node_Name (f n) = node_Name n"
      "\<And>n. node_MeshIP (f n) = node_MeshIP n"
    and key: "distinct (map node_PublicKey (update_where p f (nodes d)))"
  shows "nodes_ok (d\<lparr>nodes := update_where p f (nodes d)\<rparr>)"
  using ok key by (auto simp: nodes_ok_def map_update_where_same same set_update_where)

lemma node_ids_update:
  "(\<And>n. node_ID (f n) = node_ID n) \<Longrightarrow> node_ids (d\<lparr>nodes := update_where p f (nodes d)\<rparr>) = node_ids d"
proof -
  assume "\<And>n. node_ID (f n) = node_ID n"
  then have "map node_ID (update_where p f (nodes d)) = map node_ID (nodes d)"
    by (intro map_update_where_same)
  then show ?thesis by (metis db.select_convs(1) db.surjective db.update_convs(1) node_ids_def set_map)
qed

lemma resources_ok_nodes:
  assumes "resources_ok d" "node_ids d \<subseteq> node_ids (d\<lparr>nodes := ns\<rparr>)"
  shows "resources_ok (d\<lparr>nodes := ns\<rparr>)"
  using assms by (auto simp: resources_ok_def node_ids_def subset_iff)

lemma upsert_key_unique:
  assumes ok: "nodes_ok d"
    and free: "\<not> list_ex (\<lambda>m. node_Name m \<noteq> name \<and> node_PublicKey m = key) (nodes d)"
    and f: "\<And>n. node_PublicKey (f n) = key"
  shows "distinct (map node_PublicKey (update_where (\<lambda>m. node_Name m = name) f (nodes d)))"
  unfolding unique_on_total [symmetric]
proof (rule unique_on_update_one [where k = key])
  show "unique_on (\<lambda>n. Some (node_PublicKey n)) (nodes d)" "distinct (nodes d)"
    using ok by (simp_all add: nodes_ok_def unique_on_total distinct_map)
  show "x = y" if "x \<in> set (nodes d)" "y \<in> set (nodes d)" "node_Name x = name" "node_Name y = name" for x y
    using that ok distinct_map_key [of node_Name "nodes d" x y] by (simp add: nodes_ok_def)
qed (use free f in \<open>auto simp: list_ex_iff\<close>)

lemma upsert_insert_ok:
  assumes "db_ok d" "node_Name n \<notin> node_Name ` set (nodes d)" "node_PublicKey n \<notin> node_PublicKey ` set (nodes d)"
    "node_MeshIP n \<notin> node_MeshIP ` set (nodes d)" "node_ID n = next_id d"
  shows "db_ok (d\<lparr>nodes := nodes d @ [n], next_id := Suc (next_id d)\<rparr>)"
proof -
  have "nodes_ok (d\<lparr>nodes := nodes d @ [n], next_id := Suc (next_id d)\<rparr>)"
    using assms by (fastforce simp: db_ok_def nodes_ok_def)
  moreover have "resources_ok (d\<lparr>nodes := nodes d @ [n], next_id := Suc (next_id d)\<rparr>)"
    using assms by (fastforce simp: db_ok_def resources_ok_def node_ids_def)
  ultimately show ?thesis using assms(1) by (auto simp: db_ok_def users_ok_def less_SucI)
qed

lemma upsert_body_ok:
  assumes "db_ok d" "upsert_body now name key ip ep subs d = (r, d')"
  shows "db_ok d'"
proof (cases "node_named name d")
  case None
  show ?thesis
  proof (cases "list_ex (\<lambda>m. node_PublicKey m = key \<or> node_MeshIP m = ip) (nodes d)")
    case True
    then show ?thesis using assms None by (simp add: upsert_body_def)
  next
    case False
    then have "key \<notin> node_PublicKey ` set (nodes d)" "ip \<notin> node_MeshIP ` set (nodes d)"
      by (auto simp: list_ex_iff)
    then show ?thesis
      using assms None False by (auto simp: upsert_body_def node_named_None_iff intro!: upsert_insert_ok)
  qed
next
  case (Some n)
  show ?thesis
  proof (cases "list_ex (\<lambda>m. node_Name m \<noteq> name \<and> node_PublicKey m = key) (nodes d)")
    case True
    then show ?thesis using assms Some by (simp add: upsert_body_def)
  next
    case False
    let ?f = "\<lambda>m. m\<lparr>node_PublicKey := key, node_LastEndpoint := Some ep,
                    node_LastSeen := Some now, node_AdvertisedSubnets := subs\<rparr>"
    let ?ns = "update_where (\<lambda>m. node_Name m = name) ?f (nodes d)"
    have d': "d' = d\<lparr>nodes := ?ns\<rparr>"
      using assms(2) Some False by (simp add: upsert_body_def)
    have ok: "nodes_ok d" "resources_ok d" "users_ok d" using assms(1) by (simp_all add: db_ok_def)
    have "nodes_ok d'"
      unfolding d' using upsert_key_unique [OF ok(1) False] by (intro nodes_ok_update ok) simp_all
    moreover have "resources_ok d'"
      unfolding d' using ok(2) by (intro resources_ok_nodes) (simp_all add: node_ids_update)
    moreover have "users_ok d'" using ok(3) by (simp add: d' users_ok_def)
    ultimately show ?thesis by (simp add: db_ok_def)
  qed
qed

interpretation upsert: db_operation "upsert_body now name key ip ep subs"
proof
  show "same_tables d d'" if "upsert_body now name key ip ep subs d = (Inl e, d')" for d e d'
    using that by (auto simp: upsert_body_def split: option.splits if_splits)
qed (rule upsert_body_ok)

interpretation touch: db_operation "touch_body now key"
proof
  show "db_ok d'" if "db_ok d" "touch_body now key d = (r, d')" for d r d'
  proof -
    let ?f = "\<lambda>n. n\<lparr>node_LastSeen := Some now\<rparr>"
    have d': "d' = d\<lparr>nodes := update_where (\<lambda>n. node_PublicKey n = key) ?f (nodes d)\<rparr>"
      using that(2) by (simp add: touch_body_def)
    have "nodes_ok d'" unfolding d'
      using that(1) by (intro nodes_ok_update) (simp_all add: db_ok_defs map_update_where_same)
    moreover have "resources_ok d'" unfolding d'
      using that(1) by (intro resources_ok_nodes) (simp_all add: db_ok_def node_ids_update)
    ultimately show ?thesis using that(1) by (simp add: db_ok_def d' users_ok_def)
  qed
qed (simp add: touch_body_def)

section \<open>What an upsert does\<close>

text \<open>A registered name keeps its address: the offered one is not used.\<close>

lemma upsert_existing:
  assumes "node_named name d = Some n" "upsert_body now name key ip ep subs d = (Inr got, d')"
  shows "got = node_MeshIP n" "node_MeshIP ` set (nodes d') = node_MeshIP ` set (nodes d)"
    "node_Name ` set (nodes d') = node_Name ` set (nodes d)"
proof -
  let ?f = "\<lambda>m. m\<lparr>node_PublicKey := key, node_LastEndpoint := Some ep,
                    node_LastSeen := Some now, node_AdvertisedSubnets := subs\<rparr>"
  have d': "got = node_MeshIP n" "nodes d' = update_where (\<lambda>m. node_Name m = name) ?f (nodes d)"
    using assms by (auto simp: upsert_body_def split: if_splits)
  then show "got = node_MeshIP n" by simp
  have "map node_MeshIP (nodes d') = map node_MeshIP (nodes d)" "map node_Name (nodes d') = map node_Name (nodes d)"
    unfolding d' by (rule map_update_where_same; simp)+
  then show "node_MeshIP ` set (nodes d') = node_MeshIP ` set (nodes d)"
    "node_Name ` set (nodes d') = node_Name ` set (nodes d)"
    by (metis set_map)+
qed

lemma upsert_new:
  assumes "node_named name d = None" "upsert_body now name key ip ep subs d = (Inr got, d')"
  shows "got = ip" "ip \<notin> node_MeshIP ` set (nodes d)"
    "nodes d' = nodes d @ [\<lparr>node_ID = next_id d, node_Name = name, node_PublicKey = key,
       node_MeshIP = ip, node_LastEndpoint = Some ep, node_LastSeen = Some now, node_AdvertisedSubnets = subs\<rparr>]"
  using assms by (auto simp: upsert_body_def list_ex_iff split: if_splits)

lemma upsert_row:
  assumes "nodes_ok d" "upsert_body now name key ip ep subs d = (Inr got, d')"
  shows "\<exists>n \<in> set (nodes d'). node_Name n = name \<and> node_PublicKey n = key \<and> node_MeshIP n = got
     \<and> node_LastEndpoint n = Some ep \<and> node_LastSeen n = Some now \<and> node_AdvertisedSubnets n = subs"
proof (cases "node_named name d")
  case None
  then show ?thesis using upsert_new [OF None assms(2)] by simp
next
  case (Some n)
  then have "n \<in> set (nodes d)" "node_Name n = name" using node_named_Some_iff [OF assms(1)] by auto
  moreover have "got = node_MeshIP n" using upsert_existing [OF Some assms(2)] by simp
  moreover have "nodes d' = update_where (\<lambda>m. node_Name m = name)
      (\<lambda>m. m\<lparr>node_PublicKey := key, node_LastEndpoint := Some ep, node_LastSeen := Some now,
             node_AdvertisedSubnets := subs\<rparr>) (nodes d)"
    using assms(2) Some by (auto simp: upsert_body_def split: if_splits)
  ultimately show ?thesis
    by (intro bexI [of _ "n\<lparr>node_PublicKey := key, node_LastEndpoint := Some ep, node_LastSeen := Some now,
             node_AdvertisedSubnets := subs\<rparr>"]) (auto simp: set_update_where)
qed

text \<open>Who has which address: an upsert only ever adds a pair, and a heartbeat adds none.\<close>

definition names_ips :: "db \<Rightarrow> (string \<times> string) set" where
  "names_ips d = (\<lambda>n. (node_Name n, node_MeshIP n)) ` set (nodes d)"

lemma map_names_ips: "map (\<lambda>n. (node_Name n, node_MeshIP n)) (nodes d) = map (\<lambda>n. (node_Name n, node_MeshIP n)) (nodes d')
    \<Longrightarrow> names_ips d = names_ips d'"
  unfolding names_ips_def by (metis set_map)

lemma upsert_names_ips:
  assumes "upsert_body now name key ip ep subs d = (Inr got, d')"
  shows "names_ips d' = insert (name, got) (names_ips d)"
    and "(name, got) \<in> names_ips d \<or> got = ip"
proof -
  have "names_ips d' = insert (name, got) (names_ips d) \<and> ((name, got) \<in> names_ips d \<or> got = ip)"
  proof (cases "node_named name d")
    case None
    then show ?thesis using upsert_new [OF None assms] by (auto simp: names_ips_def)
  next
    case (Some n)
    then have n: "n \<in> set (nodes d)" "node_Name n = name" by (auto simp: node_named_def find_Some_iff)
    have "nodes d' = update_where (\<lambda>m. node_Name m = name)
        (\<lambda>m. m\<lparr>node_PublicKey := key, node_LastEndpoint := Some ep, node_LastSeen := Some now,
               node_AdvertisedSubnets := subs\<rparr>) (nodes d)"
      using assms Some by (auto simp: upsert_body_def split: if_splits)
    then have "names_ips d' = names_ips d"
      by (intro map_names_ips) (simp add: map_update_where_same)
    moreover have "(name, got) \<in> names_ips d"
      using upsert_existing(1) [OF Some assms] n by (auto simp: names_ips_def)
    ultimately show ?thesis by auto
  qed
  then show "names_ips d' = insert (name, got) (names_ips d)" "(name, got) \<in> names_ips d \<or> got = ip" by blast+
qed

lemma touch_names_ips: "touch_body now key d = (r, d') \<Longrightarrow> names_ips d' = names_ips d"
  by (auto simp: touch_body_def map_update_where_same intro!: map_names_ips)

lemma names_ips_cong: "nodes d' = nodes d \<Longrightarrow> names_ips d' = names_ips d"
  by (simp add: names_ips_def)

lemma names_ips_unique:
  assumes "nodes_ok d" "(n, i) \<in> names_ips d" "(n', i') \<in> names_ips d"
  shows "n = n' \<longleftrightarrow> i = i'"
proof -
  obtain x y where "x \<in> set (nodes d)" "n = node_Name x" "i = node_MeshIP x"
    "y \<in> set (nodes d)" "n' = node_Name y" "i' = node_MeshIP y" using assms(2,3) by (auto simp: names_ips_def)
  then show ?thesis using assms(1) distinct_map_key [of node_Name "nodes d" x y]
    distinct_map_key [of node_MeshIP "nodes d" x y] by (auto simp: nodes_ok_def)
qed

end
