(* ===== verification/Mesh.thy ===== *)
theory Mesh
  imports IPNet Protocol NodesDb
begin

text \<open>
  internal/controlplane/mesh: address allocation and peer lists. The lemmas show that the
  byte-wise \<open>incIP\<close> is addition modulo the size of the address space, that the allocation
  loop always ends, and that it returns the least host address whose text is not in use,
  or reports exhaustion exactly when every host address is in use. \<open>address_allocator\<close> is
  the contract the WebSocket server uses.
\<close>

section \<open>incIP\<close>

text \<open>\<open>for i := len(ip) - 1; i >= 0; i--\<close>, with \<open>i + 1\<close> as the loop counter.\<close>

fun incIP_from :: "nat \<Rightarrow> ip \<Rightarrow> ip" where
  "incIP_from 0 a = a"
| "incIP_from (Suc i) a =
     (let a' = a[i := a ! i + 1] in if a' ! i \<noteq> 0 then a' else incIP_from i a')"

definition incIP :: "ip \<Rightarrow> ip" where
  "incIP a = incIP_from (length a) a"

lemma length_incIP_from [simp]: "length (incIP_from i a) = length a"
  by (induction i a rule: incIP_from.induct) (auto simp: Let_def)

lemma length_incIP [simp]: "length (incIP a) = length a"
  by (simp add: incIP_def)

lemma incIP_from_append:
  "i \<le> length xs \<Longrightarrow> incIP_from i (xs @ ys) = incIP_from i xs @ ys"
proof (induction i arbitrary: xs)
  case (Suc i)
  then have "(xs @ ys)[i := (xs @ ys) ! i + 1] = xs[i := xs ! i + 1] @ ys"
    by (simp add: list_update_append nth_append)
  moreover have "incIP_from i (xs[i := xs ! i + 1] @ ys) = incIP_from i (xs[i := xs ! i + 1]) @ ys"
    using Suc by simp
  ultimately show ?case
    using Suc.prems by (cases "xs ! i + 1 = 0") (simp_all add: Let_def nth_append)
qed simp

lemma incIP_snoc: "incIP (xs @ [b]) = (if b + 1 \<noteq> 0 then xs @ [b + 1] else incIP xs @ [0])"
  using incIP_from_append [of "length xs" xs "[b + 1]"] by (auto simp: incIP_def Let_def)

lemma unat_byte_inc: "unat ((b :: 8 word) + 1) = (if b + 1 = 0 then 0 else unat b + 1)"
  using unatSuc [of b] by (auto simp: add.commute)

text \<open>The carry loop computes addition of one modulo \<open>256 ^ length\<close>.\<close>

lemma ip_val_incIP: "ip_val (incIP a) = (ip_val a + 1) mod 256 ^ length a"
proof (induction a rule: rev_induct)
  case (snoc b xs)
  show ?case
  proof (cases "b + 1 = 0")
    case True
    then have "(unat b + 1) mod 256 = 0" using unat_word_ariths(1) [of b 1] by simp
    then have b: "unat b = 255" using unat_byte_less [of b] by presburger
    have "ip_val (incIP (xs @ [b])) = 256 * ((ip_val xs + 1) mod 256 ^ length xs)"
      using True snoc by (simp add: incIP_snoc ip_val_snoc)
    also have "\<dots> = (256 * (ip_val xs + 1)) mod (256 * 256 ^ length xs)"
      by (simp only: mult_mod_right)
    also have "256 * (ip_val xs + 1) = ip_val (xs @ [b]) + 1"
      by (simp add: ip_val_snoc b)
    finally show ?thesis by simp
  next
    case False
    have "ip_val (incIP (xs @ [b])) = ip_val (xs @ [b]) + 1"
      using False by (simp add: incIP_snoc ip_val_snoc unat_byte_inc)
    moreover have "ip_val (xs @ [b + 1]) < 256 ^ length (xs @ [b])"
      using ip_val_less [of "xs @ [b + 1]"] by simp
    then have "ip_val (xs @ [b]) + 1 < 256 ^ length (xs @ [b])"
      using False by (simp add: ip_val_snoc unat_byte_inc)
    ultimately show ?thesis by (metis mod_less)
  qed
qed (simp add: incIP_def)

section \<open>AllocateIP\<close>

datatype mesh_error =
    ParseMeshCIDR string cidr_error
  | MeshExhausted string

text \<open>
  The loop of \<open>AllocateIP\<close>: it stops outside the network or at the broadcast address. Its
  measure is the distance to the broadcast address, counted upwards with wrap-around.
\<close>

definition alloc_dist :: "ipnet \<Rightarrow> ip \<Rightarrow> nat" where
  "alloc_dist net a = (ip_val (lastAddr net) + 256 ^ length a - ip_val a) mod 256 ^ length a"

lemma mod_dist_decr:
  fixes b v m :: nat
  assumes "b < m" "v < m" "v \<noteq> b"
  shows "(b + m - (v + 1) mod m) mod m < (b + m - v) mod m"
proof (cases "v + 1 < m")
  case True
  show ?thesis
  proof (cases "v < b")
    case lt: True
    have "(b + m - (v + 1)) mod m = b - (v + 1)"
      using lt assms by (metis Suc_eq_plus1 Suc_leI add.commute le_add_diff mod_add_self1
          mod_less less_imp_diff_less Nat.add_diff_assoc)
    moreover have "(b + m - v) mod m = b - v"
      using lt assms by (metis add.commute less_imp_le mod_add_self1 mod_less less_imp_diff_less
          Nat.add_diff_assoc)
    ultimately show ?thesis using lt True by simp
  next
    case False
    then have "(b + m - v) mod m = b + m - v" "(b + m - (v + 1)) mod m = b + m - (v + 1)"
      using assms by simp_all
    then show ?thesis using True False assms by simp
  qed
next
  case False
  then have v: "v = m - 1" and m: "0 < m" using assms by auto
  have "(v + 1) mod m = 0" using v m by simp
  then show ?thesis using v m assms by simp
qed

lemma alloc_dist_decr:
  assumes "net_contains net a" "a \<noteq> lastAddr net"
  shows "alloc_dist net (incIP a) < alloc_dist net a"
proof -
  let ?m = "256 ^ length a :: nat"
  have len: "length (lastAddr net) = length a"
    using assms(1) by (simp add: net_contains_def lastAddr_def)
  have "ip_val (lastAddr net) < ?m" "ip_val a < ?m"
    using ip_val_less [of "lastAddr net"] ip_val_less [of a] by (simp_all add: len)
  moreover have "ip_val a \<noteq> ip_val (lastAddr net)"
    using assms(2) ip_val_inj [of a "lastAddr net"] len by auto
  ultimately show ?thesis
    using mod_dist_decr [of "ip_val (lastAddr net)" ?m "ip_val a"]
    by (simp add: alloc_dist_def ip_val_incIP)
qed

function alloc_loop :: "ipnet \<Rightarrow> string list \<Rightarrow> ip \<Rightarrow> string option" where
  "alloc_loop net used a =
     (if net_contains net a \<and> a \<noteq> lastAddr net then
        (let candidate = IP_String a in
         if candidate \<notin> set used then Some candidate else alloc_loop net used (incIP a))
      else None)"
  by pat_completeness auto
termination
  by (relation "measure (\<lambda>(net, used, a). alloc_dist net a)") (auto intro: alloc_dist_decr)

declare alloc_loop.simps [simp del]

definition AllocateIP :: "string \<Rightarrow> string list \<Rightarrow> (mesh_error, string) go_result" where
  "AllocateIP cidr used = (case ParseCIDR cidr of
     Inl e \<Rightarrow> Inl (ParseMeshCIDR cidr e)
   | Inr net \<Rightarrow>
       (case alloc_loop net used (incIP (IP_Mask (net_IP net) (net_Mask net))) of
          Some candidate \<Rightarrow> Inr candidate
        | None \<Rightarrow> Inl (MeshExhausted cidr)))"

section \<open>PeerListFor\<close>

definition peer_of_node :: "Node \<Rightarrow> PeerInfo" where
  "peer_of_node n = \<lparr>peer_PublicKey = node_PublicKey n, peer_MeshIP = node_MeshIP n,
     peer_Endpoint = deref [] (node_LastEndpoint n), peer_AdvertisedSubnets = node_AdvertisedSubnets n\<rparr>"

fun PeerListFor :: "string \<Rightarrow> Node list \<Rightarrow> PeerInfo list" where
  "PeerListFor key [] = []"
| "PeerListFor key (n # ns) =
     (if node_PublicKey n = key then PeerListFor key ns else peer_of_node n # PeerListFor key ns)"

section \<open>What the loop returns\<close>

text \<open>The addresses at or above \<open>lo\<close> and below the broadcast address.\<close>

definition candidates :: "ipnet \<Rightarrow> nat \<Rightarrow> ip set" where
  "candidates net lo = {b. length b = 4 \<and> lo \<le> ip_val b \<and> ip_val b < ip_val (lastAddr net)}"

definition least_free :: "ipnet \<Rightarrow> string list \<Rightarrow> nat \<Rightarrow> string \<Rightarrow> bool" where
  "least_free net used lo s \<longleftrightarrow> (\<exists>b \<in> candidates net lo. s = IP_String b \<and> s \<notin> set used
     \<and> (\<forall>c \<in> candidates net lo. ip_val c < ip_val b \<longrightarrow> IP_String c \<in> set used))"

lemma candidates_step:
  assumes "length a = 4" "ip_val a < ip_val (lastAddr net)"
  shows "candidates net (ip_val a) = insert a (candidates net (Suc (ip_val a)))"
proof -
  have "b = a" if "length b = 4" "ip_val b = ip_val a" for b
    using that assms ip_val_inj by auto
  then show ?thesis using assms by (auto simp: candidates_def Suc_le_eq le_less)
qed

lemma alloc_loop_spec:
  assumes "net4 n net" "length a = 4" "ip_val (net_IP net) \<le> ip_val a" "ip_val a \<le> ip_val (lastAddr net)"
  shows "case alloc_loop net used a of
      None \<Rightarrow> \<forall>b \<in> candidates net (ip_val a). IP_String b \<in> set used
    | Some s \<Rightarrow> least_free net used (ip_val a) s"
  using assms
proof (induction net used a rule: alloc_loop.induct)
  case (1 net used a)
  note v = net4_vals [OF "1.prems"(1)]
  have c: "net_contains net a"
    using "1.prems" v by (simp add: net4_contains [OF "1.prems"(1)])
  show ?case
  proof (cases "a = lastAddr net")
    case True
    then have "alloc_loop net used a = None" by (subst alloc_loop.simps) simp
    then show ?thesis using True by (auto simp: candidates_def)
  next
    case False
    then have lt: "ip_val a < ip_val (lastAddr net)"
      using "1.prems" ip_val_inj [of a "lastAddr net"] v(3) by (auto simp: le_less)
    note step = candidates_step [OF "1.prems"(2) lt]
    show ?thesis
    proof (cases "IP_String a \<in> set used")
      case False
      then have "least_free net used (ip_val a) (IP_String a)"
        using step by (auto simp: least_free_def candidates_def)
      then show ?thesis
        using False \<open>a \<noteq> lastAddr net\<close> c by (simp add: alloc_loop.simps [of net used a])
    next
      case True
      have "ip_val (lastAddr net) < 256 ^ 4" using ip_val_less [of "lastAddr net"] v(3) by simp
      then have inc: "ip_val (incIP a) = Suc (ip_val a)"
        using lt "1.prems"(2) by (simp add: ip_val_incIP)
      have "case alloc_loop net used (incIP a) of
          None \<Rightarrow> \<forall>b \<in> candidates net (Suc (ip_val a)). IP_String b \<in> set used
        | Some s \<Rightarrow> least_free net used (Suc (ip_val a)) s"
        unfolding inc [symmetric] using "1.IH" [of "IP_String a"] "1.prems" c False True lt inc by simp
      moreover have "alloc_loop net used a = alloc_loop net used (incIP a)"
        using c False True by (simp add: alloc_loop.simps [of net used a])
      moreover have "least_free net used (ip_val a) s" if "least_free net used (Suc (ip_val a)) s" for s
        using that True unfolding least_free_def step by auto
      ultimately show ?thesis
        using True step by (auto split: option.splits)
    qed
  qed
qed

text \<open>The host addresses of a network lie strictly between network and broadcast address.\<close>

definition host_addrs :: "ipnet \<Rightarrow> ip set" where
  "host_addrs net = candidates net (Suc (ip_val (net_IP net)))"

lemma host_addrs_iff:
  "net4 n net \<Longrightarrow> a \<in> host_addrs net \<longleftrightarrow> net_contains net a \<and> a \<noteq> net_IP net \<and> a \<noteq> lastAddr net"
proof -
  assume n: "net4 n net"
  note m = net4_masked [OF n] and v = net4_vals [OF n]
  have "length a = 4 \<Longrightarrow> (a = net_IP net) = (ip_val a = ip_val (net_IP net))"
    "length a = 4 \<Longrightarrow> (a = lastAddr net) = (ip_val a = ip_val (lastAddr net))"
    using m v(3) by (auto intro: ip_val_inj)
  then show ?thesis
    using v(2) by (auto simp: host_addrs_def candidates_def net4_contains [OF n])
qed

lemma mod_Suc_neq: "v < m \<Longrightarrow> 1 < m \<Longrightarrow> Suc v mod m \<noteq> v"
  by (cases "Suc v = m") auto

lemma alloc_start:
  assumes "net4 n net"
  shows "case alloc_loop net used (incIP (IP_Mask (net_IP net) (net_Mask net))) of
      None \<Rightarrow> \<forall>b \<in> host_addrs net. IP_String b \<in> set used
    | Some s \<Rightarrow> least_free net used (Suc (ip_val (net_IP net))) s"
proof -
  note m = net4_masked [OF assms] and v = net4_vals [OF assms]
  let ?N = "ip_val (net_IP net)" and ?a = "incIP (net_IP net)"
  have B: "ip_val (lastAddr net) < 256 ^ 4" using ip_val_less [of "lastAddr net"] v(3) by simp
  show ?thesis
  proof (cases "?N = ip_val (lastAddr net)")
    case True
    then have "host_size n = 1" using v(2) by simp
    then have "net_contains net ?a \<Longrightarrow> ip_val ?a = ?N"
      using net4_contains [OF assms, of ?a] by simp
    moreover have "ip_val ?a \<noteq> ?N"
      using mod_Suc_neq [of ?N "256 ^ 4"] m B True by (simp add: ip_val_incIP)
    ultimately have "alloc_loop net used ?a = None" by (subst alloc_loop.simps) auto
    then show ?thesis using True m by (auto simp: host_addrs_def candidates_def)
  next
    case False
    have "0 < host_size n" by (simp add: host_size_def)
    then have lt: "?N < ip_val (lastAddr net)" using v(2) False by linarith
    then have inc: "ip_val ?a = Suc ?N" using B m by (simp add: ip_val_incIP)
    then have "?N \<le> ip_val ?a" "ip_val ?a \<le> ip_val (lastAddr net)" using lt by simp_all
    then show ?thesis
      unfolding host_addrs_def inc [symmetric] using alloc_loop_spec [OF assms, of ?a used] m by simp
  qed
qed

lemma AllocateIP_cases:
  assumes "ParseCIDR cidr = Inr net"
  shows "case AllocateIP cidr used of
      Inl e \<Rightarrow> e = MeshExhausted cidr \<and> (\<forall>b \<in> host_addrs net. IP_String b \<in> set used)
    | Inr s \<Rightarrow> least_free net used (Suc (ip_val (net_IP net))) s"
proof -
  obtain n where "net4 n net" using ParseCIDR_net4 [OF assms] by blast
  from alloc_start [OF this, of used] show ?thesis
    by (simp add: AllocateIP_def assms split: option.splits)
qed

text \<open>The texts of the host addresses of a mesh CIDR.\<close>

definition mesh_host :: "string \<Rightarrow> string \<Rightarrow> bool" where
  "mesh_host cidr s \<longleftrightarrow> (\<exists>net. ParseCIDR cidr = Inr net \<and> s \<in> IP_String ` host_addrs net)"

section \<open>The contract of the allocator\<close>

locale address_allocator =
  fixes alloc :: "string list \<Rightarrow> ('e, string) go_result"
    and host :: "string \<Rightarrow> bool"
  assumes alloc_fresh: "alloc used = Inr s \<Longrightarrow> s \<notin> set used"
    and alloc_host: "alloc used = Inr s \<Longrightarrow> host s"
    and alloc_full: "alloc used = Inl e \<Longrightarrow> host s \<Longrightarrow> s \<in> set used"
begin

lemma alloc_progress: "host s \<Longrightarrow> s \<notin> set used \<Longrightarrow> \<exists>t. alloc used = Inr t"
  using alloc_full by (cases "alloc used") auto

lemma alloc_extends:
  assumes "alloc used = Inr s" "distinct used" "\<forall>t \<in> set used. host t"
  shows "distinct (used @ [s]) \<and> (\<forall>t \<in> set (used @ [s]). host t)"
  using assms alloc_fresh alloc_host by auto

end

interpretation mesh: address_allocator "AllocateIP cidr" "mesh_host cidr"
proof
  show "s \<notin> set used" if "AllocateIP cidr used = Inr s" for used s
    using that AllocateIP_cases [of cidr _ used]
    by (cases "ParseCIDR cidr") (auto simp: AllocateIP_def least_free_def split: option.splits)
  show "mesh_host cidr s" if "AllocateIP cidr used = Inr s" for used s
    using that AllocateIP_cases [of cidr _ used]
    by (cases "ParseCIDR cidr")
       (auto simp: AllocateIP_def least_free_def mesh_host_def host_addrs_def split: option.splits)
  show "s \<in> set used" if "AllocateIP cidr used = Inl e" "mesh_host cidr s" for used e s
    using that AllocateIP_cases [of cidr _ used]
    by (auto simp: mesh_host_def split: sum.splits)
qed

section \<open>Peer lists\<close>

lemma PeerListFor_filter: "PeerListFor key ns = map peer_of_node (filter (\<lambda>n. node_PublicKey n \<noteq> key) ns)"
  by (induction ns) auto

lemma PeerListFor_excludes_self: "p \<in> set (PeerListFor key ns) \<Longrightarrow> peer_PublicKey p \<noteq> key"
  by (auto simp: PeerListFor_filter peer_of_node_def)

end
