(* ===== verification/WsServer.thy ===== *)
theory WsServer
  imports Mesh NodesDb
begin

text \<open>
  internal/controlplane/wsserver: the server's state, one handler per message, the loop of
  a connection, and the broadcast. \<open>alive c\<close> says whether a write to connection \<open>c\<close>
  succeeds; \<open>srv_out\<close> is the history of the messages written. Go's map iteration order is
  unspecified: \<open>srv_conns\<close> is an association list with one entry per key, and what is
  proved about a broadcast does not depend on its order.
\<close>

record Server =
  srv_db :: db
  srv_cidr :: string
  srv_conns :: "(string \<times> nat) list"
  srv_out :: "(nat \<times> Envelope) list"

definition new_server :: "db \<Rightarrow> string \<Rightarrow> Server" where
  "new_server d cidr = \<lparr>srv_db = d, srv_cidr = cidr, srv_conns = [], srv_out = []\<rparr>"

datatype ws_error =
    UsedFailed db_error
  | AllocateFailed mesh_error
  | UpsertFailed db_error
  | NodesFailed db_error
  | WriteFailed
  | TouchFailed db_error

definition put_conn :: "string \<Rightarrow> nat \<Rightarrow> Server \<Rightarrow> Server" where
  "put_conn key conn s = s\<lparr>srv_conns := (key, conn) # filter (\<lambda>e. fst e \<noteq> key) (srv_conns s)\<rparr>"

definition delete_conn :: "string \<Rightarrow> Server \<Rightarrow> Server" where
  "delete_conn key s = s\<lparr>srv_conns := filter (\<lambda>e. fst e \<noteq> key) (srv_conns s)\<rparr>"

definition conn_for :: "Server \<Rightarrow> string \<Rightarrow> nat option" where
  "conn_for s key = map_of (srv_conns s) key"

definition WriteJSON :: "(nat \<Rightarrow> bool) \<Rightarrow> nat \<Rightarrow> Envelope \<Rightarrow> Server \<Rightarrow> bool \<times> Server" where
  "WriteJSON alive conn e s = (alive conn, if alive conn then s\<lparr>srv_out := srv_out s @ [(conn, e)]\<rparr> else s)"

definition peer_list_msg :: "string \<Rightarrow> Node list \<Rightarrow> Envelope" where
  "peer_list_msg key ns = \<lparr>env_Type = TypePeerList, env_Payload = enc_peer_list \<lparr>pl_Peers = PeerListFor key ns\<rparr>\<rparr>"

definition registered_msg :: "string \<Rightarrow> string \<Rightarrow> Node list \<Rightarrow> Envelope" where
  "registered_msg meshIP key ns = \<lparr>env_Type = TypeRegistered,
     env_Payload = enc_registered \<lparr>rgd_MeshIP = meshIP, rgd_Peers = PeerListFor key ns\<rparr>\<rparr>"

text \<open>A failed write in the loop is logged and the loop goes on.\<close>

fun broadcast_loop :: "(nat \<Rightarrow> bool) \<Rightarrow> Node list \<Rightarrow> (string \<times> nat) list \<Rightarrow> Server \<Rightarrow> Server" where
  "broadcast_loop alive ns [] s = s"
| "broadcast_loop alive ns ((key, conn) # rest) s =
     broadcast_loop alive ns rest (snd (WriteJSON alive conn (peer_list_msg key ns) s))"

definition broadcastPeerLists :: "(nat \<Rightarrow> bool) \<Rightarrow> Node list \<Rightarrow> Server \<Rightarrow> Server" where
  "broadcastPeerLists alive ns s = broadcast_loop alive ns (srv_conns s) s"

definition endpoint_of :: "string \<Rightarrow> RegisterPayload \<Rightarrow> string" where
  "endpoint_of remoteHost p =
     (if reg_Endpoint p \<noteq> [] then reg_Endpoint p else remoteHost @ '':'' @ Itoa (reg_Port p))"

definition with_db :: "Server \<Rightarrow> db \<Rightarrow> Server" where
  "with_db s d = s\<lparr>srv_db := d\<rparr>"

definition handleRegister ::
  "(nat \<Rightarrow> bool) \<Rightarrow> int \<Rightarrow> nat \<Rightarrow> string \<Rightarrow> RegisterPayload \<Rightarrow> Server \<Rightarrow> (ws_error + unit) \<times> Server" where
  "handleRegister alive pg_now conn remoteHost p s = (case UsedMeshIPs (srv_db s) of
       (Inl e, d1) \<Rightarrow> (Inl (UsedFailed e), with_db s d1)
     | (Inr used, d1) \<Rightarrow> (case AllocateIP (srv_cidr s) used of
         Inl e \<Rightarrow> (Inl (AllocateFailed e), with_db s d1)
       | Inr candidateIP \<Rightarrow>
         (case UpsertNode pg_now (reg_Name p) (reg_PublicKey p) candidateIP (endpoint_of remoteHost p)
                 (reg_AdvertisedSubnets p) d1 of
            (Inl e, d2) \<Rightarrow> (Inl (UpsertFailed e), with_db s d2)
          | (Inr meshIP, d2) \<Rightarrow>
            (let s2 = put_conn (reg_PublicKey p) conn (with_db s d2) in
             case ListNodes d2 of
               (Inl e, d3) \<Rightarrow> (Inl (NodesFailed e), with_db s2 d3)
             | (Inr ns, d3) \<Rightarrow>
               (case WriteJSON alive conn (registered_msg meshIP (reg_PublicKey p) ns) (with_db s2 d3) of
                  (False, s3) \<Rightarrow> (Inl WriteFailed, s3)
                | (True, s3) \<Rightarrow> (Inr (), broadcastPeerLists alive ns s3))))))"

definition handleHeartbeat :: "(nat \<Rightarrow> bool) \<Rightarrow> int \<Rightarrow> string \<Rightarrow> Server \<Rightarrow> (ws_error + unit) \<times> Server" where
  "handleHeartbeat alive pg_now publicKey s = (case TouchLastSeen pg_now publicKey (srv_db s) of
       (Inl e, d1) \<Rightarrow> (Inl (TouchFailed e), with_db s d1)
     | (Inr _, d1) \<Rightarrow> (case ListNodes d1 of
         (Inl e, d2) \<Rightarrow> (Inl (NodesFailed e), with_db s d2)
       | (Inr ns, d2) \<Rightarrow> (Inr (), broadcastPeerLists alive ns (with_db s d2))))"

text \<open>One round of the loop of \<open>HandleWS\<close>: the connection's \<open>publicKey\<close> and the Server.\<close>

definition handle_message ::
  "(nat \<Rightarrow> bool) \<Rightarrow> nat \<Rightarrow> string \<Rightarrow> int \<times> Envelope \<Rightarrow> string \<times> Server \<Rightarrow> string \<times> Server" where
  "handle_message alive conn remoteHost msg st = (case (msg, st) of ((pg_now, env), (publicKey, s)) \<Rightarrow>
     if env_Type env = TypeRegister then
       (case DecodePayload register_fields zero_register env of
          None \<Rightarrow> (publicKey, s)
        | Some p \<Rightarrow> (reg_PublicKey p, snd (handleRegister alive pg_now conn remoteHost p s)))
     else if env_Type env = TypeHeartbeat then
       (if publicKey = [] then (publicKey, s)
        else (publicKey, snd (handleHeartbeat alive pg_now publicKey s)))
     else (publicKey, s))"

definition close_conn :: "string \<times> Server \<Rightarrow> Server" where
  "close_conn st = (case st of (publicKey, s) \<Rightarrow> if publicKey \<noteq> [] then delete_conn publicKey s else s)"

text \<open>The host of the peer's address; an address that cannot be split is taken whole.\<close>

definition remote_host :: "string \<Rightarrow> string" where
  "remote_host remoteAddr = (case SplitHostPort remoteAddr of None \<Rightarrow> remoteAddr | Some (host, port) \<Rightarrow> host)"

lemma remote_host_Join:
  assumes "CHR ''['' \<notin> set host" "CHR '']'' \<notin> set host" "list_all is_digit port"
  shows "remote_host (JoinHostPort host port) = host"
proof -
  have digits: "c \<notin> set port" if "\<not> is_digit c" for c using assms(3) that by (auto simp: list_all_iff)
  have "CHR ''['' \<notin> set port" "CHR '']'' \<notin> set port" "CHR '':'' \<notin> set port"
    by (rule digits, simp add: is_digit_def)+
  from SplitHostPort_Join [OF assms(1,2) this] show ?thesis by (simp add: remote_host_def)
qed

text \<open>
  A connection that nothing interleaves with: the upgrade (\<open>None\<close> when it fails), then the
  messages it reads, each with the database's clock, until a read fails.
\<close>

definition HandleWS ::
  "(nat \<Rightarrow> bool) \<Rightarrow> nat option \<Rightarrow> string \<Rightarrow> (int \<times> Envelope) list \<Rightarrow> Server \<Rightarrow> Server" where
  "HandleWS alive upgraded remoteAddr msgs s = (case upgraded of
       None \<Rightarrow> s
     | Some conn \<Rightarrow> close_conn (fold (handle_message alive conn (remote_host remoteAddr)) msgs ([], s)))"

section \<open>The broadcast\<close>

lemma broadcast_loop_sel [simp]:
  "srv_db (broadcast_loop alive ns cs s) = srv_db s" "srv_cidr (broadcast_loop alive ns cs s) = srv_cidr s"
  "srv_conns (broadcast_loop alive ns cs s) = srv_conns s"
  by (induction alive ns cs s rule: broadcast_loop.induct) (auto simp: WriteJSON_def)

lemma broadcast_loop_out:
  "srv_out (broadcast_loop alive ns cs s) =
     srv_out s @ map (\<lambda>(key, conn). (conn, peer_list_msg key ns)) (filter (\<lambda>(key, conn). alive conn) cs)"
  by (induction alive ns cs s rule: broadcast_loop.induct) (auto simp: WriteJSON_def)

lemma broadcast_out:
  "srv_out (broadcastPeerLists alive ns s) =
     srv_out s @ map (\<lambda>(key, conn). (conn, peer_list_msg key ns)) (filter (\<lambda>(key, conn). alive conn) (srv_conns s))"
  by (simp add: broadcastPeerLists_def broadcast_loop_out)

lemma broadcast_sel [simp]:
  "srv_db (broadcastPeerLists alive ns s) = srv_db s" "srv_cidr (broadcastPeerLists alive ns s) = srv_cidr s"
  "srv_conns (broadcastPeerLists alive ns s) = srv_conns s"
  by (simp_all add: broadcastPeerLists_def)

text \<open>Every connected agent gets the list, and in it no one finds itself.\<close>

lemma broadcast_reaches:
  "(key, conn) \<in> set (srv_conns s) \<Longrightarrow> alive conn \<Longrightarrow>
    (conn, peer_list_msg key ns) \<in> set (srv_out (broadcastPeerLists alive ns s))"
  by (auto simp: broadcast_out image_iff)

lemma peer_list_decoded:
  "DecodePayload peer_list_fields zero_peer_list (peer_list_msg key ns) = Some \<lparr>pl_Peers = PeerListFor key ns\<rparr>"
  by (simp add: peer_list_msg_def peer_list_roundtrip)

lemma registered_decoded:
  "DecodePayload registered_fields zero_registered (registered_msg ip key ns)
     = Some \<lparr>rgd_MeshIP = ip, rgd_Peers = PeerListFor key ns\<rparr>"
  by (simp add: registered_msg_def registered_roundtrip)

section \<open>The connections\<close>

definition conns_ok :: "Server \<Rightarrow> bool" where
  "conns_ok s \<longleftrightarrow> distinct (map fst (srv_conns s))"

lemma conn_sel [simp]:
  "srv_db (put_conn k c s) = srv_db s" "srv_cidr (put_conn k c s) = srv_cidr s" "srv_out (put_conn k c s) = srv_out s"
  "srv_db (delete_conn k s) = srv_db s" "srv_cidr (delete_conn k s) = srv_cidr s"
  "srv_out (delete_conn k s) = srv_out s"
  "srv_db (with_db s d) = d" "srv_cidr (with_db s d) = srv_cidr s" "srv_conns (with_db s d) = srv_conns s"
  "srv_out (with_db s d) = srv_out s"
  by (simp_all add: put_conn_def delete_conn_def with_db_def)

lemma with_db_same [simp]: "with_db s (srv_db s) = s"
  by (simp add: with_db_def)

lemma map_of_filter_key: "map_of (filter (\<lambda>e. fst e \<noteq> k) xs) k' = (if k' = k then None else map_of xs k')"
  by (induction xs) auto

lemma conn_for_put: "conn_for (put_conn k c s) = (conn_for s)(k \<mapsto> c)"
  by (auto simp: conn_for_def put_conn_def fun_eq_iff map_of_filter_key)

lemma conn_for_delete: "conn_for (delete_conn k s) = (conn_for s)(k := None)"
  by (auto simp: conn_for_def delete_conn_def fun_eq_iff map_of_filter_key)

lemma conns_ok_put: "conns_ok s \<Longrightarrow> conns_ok (put_conn k c s)"
  by (auto simp: conns_ok_def put_conn_def distinct_map_filter)

lemma conns_ok_delete: "conns_ok s \<Longrightarrow> conns_ok (delete_conn k s)"
  by (auto simp: conns_ok_def delete_conn_def distinct_map_filter)

section \<open>A registration that succeeds\<close>

lemma UpsertNode_success:
  assumes ok: "nodes_ok d" and run: "UpsertNode now name key ip ep subs d = (Inr got, d')"
  shows "\<exists>n \<in> set (nodes d'). node_Name n = name \<and> node_PublicKey n = key \<and> node_MeshIP n = got
     \<and> node_LastEndpoint n = Some ep \<and> node_LastSeen n = Some now \<and> node_AdvertisedSubnets n = subs"
    and "got = (case node_named name d of Some n \<Rightarrow> node_MeshIP n | None \<Rightarrow> ip)"
proof -
  obtain d1 where s: "statement d = (True, d1)" and b: "upsert_body now name key ip ep subs d1 = (Inr got, d')"
    using run unfolding UpsertNode_def by (auto elim: run_statement_cases)
  have "nodes_ok d1" using ok statement_tables [OF s] by (simp add: nodes_ok_def)
  from upsert_row [OF this b]
  show "\<exists>n \<in> set (nodes d'). node_Name n = name \<and> node_PublicKey n = key \<and> node_MeshIP n = got
     \<and> node_LastEndpoint n = Some ep \<and> node_LastSeen n = Some now \<and> node_AdvertisedSubnets n = subs" .
  have "node_named name d1 = node_named name d" using statement_tables [OF s] by (simp add: node_named_def)
  then show "got = (case node_named name d of Some n \<Rightarrow> node_MeshIP n | None \<Rightarrow> ip)"
    using upsert_existing(1) [OF _ b] upsert_new(1) [OF _ b] by (auto split: option.splits)
qed

lemma ListNodes_success: "ListNodes d = (Inr ns, d') \<Longrightarrow> ns = nodes d \<and> same_tables d d'"
  unfolding ListNodes_def by (erule run_statement_cases) (auto simp: statement_tables statement_same)

lemma UsedMeshIPs_success: "UsedMeshIPs d = (Inr used, d') \<Longrightarrow> used = map node_MeshIP (nodes d) \<and> same_tables d d'"
  unfolding UsedMeshIPs_def by (erule run_statement_cases) (auto simp: statement_tables statement_same)

lemma handleRegister_success:
  assumes ok: "nodes_ok (srv_db s)" and run: "handleRegister alive now c h p s = (Inr (), s')"
  shows "\<exists>n \<in> set (nodes (srv_db s')). node_Name n = reg_Name p \<and> node_PublicKey n = reg_PublicKey p
      \<and> node_LastEndpoint n = Some (endpoint_of h p) \<and> node_LastSeen n = Some now
      \<and> node_AdvertisedSubnets n = reg_AdvertisedSubnets p
      \<and> (case node_named (reg_Name p) (srv_db s) of Some old \<Rightarrow> node_MeshIP n = node_MeshIP old
         | None \<Rightarrow> AllocateIP (srv_cidr s) (map node_MeshIP (nodes (srv_db s))) = Inr (node_MeshIP n))
      \<and> (c, registered_msg (node_MeshIP n) (reg_PublicKey p) (nodes (srv_db s'))) \<in> set (srv_out s')"
    and "conn_for s' = (conn_for s)(reg_PublicKey p \<mapsto> c)"
    and "(k, x) \<in> set (srv_conns s') \<Longrightarrow> alive x \<Longrightarrow> (x, peer_list_msg k (nodes (srv_db s'))) \<in> set (srv_out s')"
proof -
  obtain used d1 cand ip d2 ns d3 where u: "UsedMeshIPs (srv_db s) = (Inr used, d1)"
    and a: "AllocateIP (srv_cidr s) used = Inr cand"
    and up: "UpsertNode now (reg_Name p) (reg_PublicKey p) cand (endpoint_of h p) (reg_AdvertisedSubnets p) d1 = (Inr ip, d2)"
    and l: "ListNodes d2 = (Inr ns, d3)"
    and w: "alive c" "s' = broadcastPeerLists alive ns
      (snd (WriteJSON alive c (registered_msg ip (reg_PublicKey p) ns) (with_db (put_conn (reg_PublicKey p) c (with_db s d2)) d3)))"
    using run by (auto simp: handleRegister_def Let_def WriteJSON_def split: prod.splits sum.splits bool.splits if_splits)
  have used: "used = map node_MeshIP (nodes (srv_db s))" and s1: "same_tables (srv_db s) d1"
    using UsedMeshIPs_success [OF u] by auto
  have ns: "ns = nodes d2" and s3: "same_tables d2 d3" using ListNodes_success [OF l] by auto
  have "next_id d1 = next_id (srv_db s)"
    using u unfolding UsedMeshIPs_def by (rule run_statement_cases) (auto simp: statement_tables)
  then have ok1: "nodes_ok d1" using ok s1 by (simp add: nodes_ok_def same_tables_def)
  have named: "node_named (reg_Name p) d1 = node_named (reg_Name p) (srv_db s)"
    using s1 by (simp add: node_named_def same_tables_def)
  have db: "nodes (srv_db s') = ns" using w(2) ns s3 by (simp add: WriteJSON_def w(1) same_tables_def)
  have conns: "srv_conns s' = srv_conns (put_conn (reg_PublicKey p) c (with_db s d2))"
    using w(2) by (simp add: WriteJSON_def w(1))
  have reply: "(c, registered_msg ip (reg_PublicKey p) ns) \<in> set (srv_out s')"
    using w by (simp add: broadcast_out WriteJSON_def)
  obtain n where n: "n \<in> set ns" "node_Name n = reg_Name p" "node_PublicKey n = reg_PublicKey p" "node_MeshIP n = ip"
    "node_LastEndpoint n = Some (endpoint_of h p)" "node_LastSeen n = Some now"
    "node_AdvertisedSubnets n = reg_AdvertisedSubnets p"
    using UpsertNode_success(1) [OF ok1 up] ns by auto
  have "case node_named (reg_Name p) (srv_db s) of Some old \<Rightarrow> node_MeshIP n = node_MeshIP old
         | None \<Rightarrow> AllocateIP (srv_cidr s) (map node_MeshIP (nodes (srv_db s))) = Inr (node_MeshIP n)"
    using UpsertNode_success(2) [OF ok1 up] n(4) a used named by (simp split: option.splits)
  then show "\<exists>n \<in> set (nodes (srv_db s')). node_Name n = reg_Name p \<and> node_PublicKey n = reg_PublicKey p
      \<and> node_LastEndpoint n = Some (endpoint_of h p) \<and> node_LastSeen n = Some now
      \<and> node_AdvertisedSubnets n = reg_AdvertisedSubnets p
      \<and> (case node_named (reg_Name p) (srv_db s) of Some old \<Rightarrow> node_MeshIP n = node_MeshIP old
         | None \<Rightarrow> AllocateIP (srv_cidr s) (map node_MeshIP (nodes (srv_db s))) = Inr (node_MeshIP n))
      \<and> (c, registered_msg (node_MeshIP n) (reg_PublicKey p) (nodes (srv_db s'))) \<in> set (srv_out s')"
    using n reply unfolding db by (intro bexI [of _ n]) auto
  have "conn_for s' = conn_for (put_conn (reg_PublicKey p) c (with_db s d2))" by (simp add: fun_eq_iff conn_for_def conns)
  then show "conn_for s' = (conn_for s)(reg_PublicKey p \<mapsto> c)" by (simp add: conn_for_put) (simp add: conn_for_def fun_eq_iff)
  assume "(k, x) \<in> set (srv_conns s')" "alive x"
  then show "(x, peer_list_msg k (nodes (srv_db s'))) \<in> set (srv_out s')"
    unfolding db using w(2) by (auto intro!: broadcast_reaches)
qed

end
