(* ===== verification/ResourcesList.thy ===== *)
theory ResourcesList
  imports ResourcesDb "HOL-Library.Multiset"
begin

text \<open>
  \<open>ListResourcesWithTargets\<close> of internal/controlplane/db/resources.go: the join of
  resources, targets and nodes in the order of the query (the server's collation is taken
  to be the byte order), and the loop that groups its rows by resource. The main lemma is
  that on a database that satisfies the schema the result is what one expects: every
  resource that has a target, by name, each with its own targets by role, a node's target
  at the node's current mesh address.
\<close>

type_synonym join_row = "ResourceRow \<times> TargetRow \<times> Node option"

definition targets_of :: "db \<Rightarrow> ResourceRow \<Rightarrow> TargetRow list" where
  "targets_of d r = filter (\<lambda>t. tgt_resource_id t = res_id r) (resource_targets d)"

definition node_by_id :: "db \<Rightarrow> nat \<Rightarrow> Node option" where
  "node_by_id d i = List.find (\<lambda>n. node_ID n = i) (nodes d)"

definition join_node :: "db \<Rightarrow> TargetRow \<Rightarrow> Node option" where
  "join_node d t = (case tgt_node_id t of None \<Rightarrow> None | Some i \<Rightarrow> node_by_id d i)"

definition list_query :: "db \<Rightarrow> join_row list" where
  "list_query d = sort_key (\<lambda>(r, t, n). (res_name r, tgt_role t))
     (concat (map (\<lambda>r. map (\<lambda>t. (r, t, join_node d t)) (targets_of d r)) (resources d)))"

text \<open>\<open>COALESCE(host(n.mesh_ip), rt.address)\<close>; scanning NULL into a string is an error.\<close>

definition join_address :: "TargetRow \<Rightarrow> Node option \<Rightarrow> string option" where
  "join_address t n = (case n of Some nd \<Rightarrow> Some (node_MeshIP nd) | None \<Rightarrow> tgt_address t)"

definition scan_target :: "string \<Rightarrow> TargetRow \<Rightarrow> Node option \<Rightarrow> Target" where
  "scan_target addr t n = \<lparr>t_Address = addr, t_Port = tgt_port t, t_Role = tgt_role t,
     t_External = (tgt_node_id t = None), t_LastSeen = Option.bind n node_LastSeen,
     t_NodeName = map_option node_Name n\<rparr>"

definition scan_resource :: "ResourceRow \<Rightarrow> ResourceWithTargets" where
  "scan_resource r = \<lparr>r_Name = res_name r, r_Protocol = res_protocol r, r_Domain = res_domain r,
     r_EntryPoint = res_entry_point r, r_CertResolver = res_cert_resolver r,
     r_TargetScheme = res_target_scheme r, r_TargetSkipVerify = res_target_skip_verify r,
     r_Sticky = res_sticky r, r_Targets = []\<rparr>"

text \<open>\<open>byID\<close> and \<open>order\<close> together: the resources met so far, in the order of their first row.\<close>

definition add_row :: "nat \<Rightarrow> ResourceWithTargets \<Rightarrow> Target
    \<Rightarrow> (nat \<times> ResourceWithTargets) list \<Rightarrow> (nat \<times> ResourceWithTargets) list" where
  "add_row i base tg acc =
     (let acc' = (if i \<in> set (map fst acc) then acc else acc @ [(i, base)])
      in update_where (\<lambda>e. fst e = i) (apsnd (\<lambda>x. x\<lparr>r_Targets := r_Targets x @ [tg]\<rparr>)) acc')"

fun scan_rows :: "join_row list \<Rightarrow> (nat \<times> ResourceWithTargets) list
    \<Rightarrow> (resource_error, (nat \<times> ResourceWithTargets) list) go_result" where
  "scan_rows [] acc = Inr acc"
| "scan_rows ((r, t, n) # rows) acc = (case join_address t n of
     None \<Rightarrow> Inl ScanFailed
   | Some addr \<Rightarrow> scan_rows rows (add_row (res_id r) (scan_resource r) (scan_target addr t n) acc))"

definition ListResourcesWithTargets :: "db \<Rightarrow> (resource_error + ResourceWithTargets list) \<times> db" where
  "ListResourcesWithTargets d = (case run_statement (\<lambda>d. (Inr (list_query d), d)) d of
       (Inl e, d1) \<Rightarrow> (Inl (ListFailed e), d1)
     | (Inr rows, d1) \<Rightarrow> (case scan_rows rows [] of
         Inl e \<Rightarrow> (Inl e, d1)
       | Inr acc \<Rightarrow> (Inr (map snd acc), d1)))"

section \<open>What the list contains\<close>

definition resolve :: "db \<Rightarrow> TargetRow \<Rightarrow> Target" where
  "resolve d t = scan_target (deref [] (join_address t (join_node d t))) t (join_node d t)"

definition listing :: "db \<Rightarrow> ResourceRow \<Rightarrow> ResourceWithTargets" where
  "listing d r = (scan_resource r)\<lparr>r_Targets := map (resolve d) (sort_key tgt_role (targets_of d r))\<rparr>"

definition listed :: "db \<Rightarrow> ResourceWithTargets list" where
  "listed d = map (listing d) (filter (\<lambda>r. targets_of d r \<noteq> []) (sort_key res_name (resources d)))"

text \<open>The join in the order of the query is the concatenation of the sorted parts.\<close>

definition part :: "db \<Rightarrow> ResourceRow \<Rightarrow> join_row list" where
  "part d r = map (\<lambda>t. (r, t, join_node d t)) (sort_key tgt_role (targets_of d r))"

lemma filter_part:
  "filter (\<lambda>(r', t, n). res_name r' = nm \<and> tgt_role t = ro) (part d r)
    = (if res_name r = nm then map (\<lambda>t. (r, t, join_node d t)) (filter (\<lambda>t. tgt_role t = ro) (targets_of d r)) else [])"
  by (auto simp: part_def filter_map comp_def sort_key_stable)

lemma filter_concat: "filter P (concat xss) = concat (map (filter P) xss)"
  by (induction xss) auto

lemma concat_pick:
  assumes "distinct (map f xs)" "\<And>x. x \<in> set xs \<Longrightarrow> f x \<noteq> k \<Longrightarrow> g x = []"
  shows "concat (map g xs) = (case List.find (\<lambda>x. f x = k) xs of None \<Rightarrow> [] | Some x \<Rightarrow> g x)"
  using assms
proof (induction xs)
  case (Cons x xs)
  show ?case
  proof (cases "f x = k")
    case True
    then have "\<forall>y \<in> set xs. g y = []" using Cons.prems by (metis image_eqI list.set_map list.simps(9) distinct.simps(2) list.set_intros(2))
    then show ?thesis using True by simp
  next
    case False
    then show ?thesis using Cons by simp
  qed
qed simp

lemma find_sorted:
  assumes "distinct (map f xs)"
  shows "List.find (\<lambda>x. f x = k) (sort_key g xs) = List.find (\<lambda>x. f x = k) xs"
proof -
  have d: "distinct (map f (sort_key g xs))"
    using assms by (metis distinct_map distinct_sort set_sort)
  have "List.find (\<lambda>x. f x = k) (sort_key g xs) = Some x \<longleftrightarrow> List.find (\<lambda>x. f x = k) xs = Some x" for x
    by (simp add: distinct_map_find [OF d] distinct_map_find [OF assms])
  then show ?thesis by (metis not_None_eq)
qed

lemma mset_concat_map: "mset (concat (map f xs)) = sum_mset (image_mset (\<lambda>x. mset (f x)) (mset xs))"
  by (induction xs) auto

lemma sorted_parts:
  assumes "sorted (map f xs)" "distinct (map f xs)" "\<And>x y. x \<in> set xs \<Longrightarrow> y \<in> set (g x) \<Longrightarrow> fst (k y) = f x"
    and "\<And>x. x \<in> set xs \<Longrightarrow> sorted (map (\<lambda>y. snd (k y)) (g x))"
  shows "sorted (map (k :: 'y \<Rightarrow> string \<times> string) (concat (map g xs)))"
  using assms
proof (induction xs)
  case (Cons x xs)
  have "sorted (map k (g x))"
  proof -
    have "sorted_wrt (\<lambda>a b. k a \<le> k b) (g x)"
      using Cons.prems(4) [of x] Cons.prems(3) [of x]
      by (auto simp: sorted_map less_eq_prod_def intro: sorted_wrt_mono_rel [rotated])
    then show ?thesis by (simp add: sorted_map)
  qed
  moreover have "k a \<le> k b" if ab: "a \<in> set (g x)" "b \<in> set (concat (map g xs))" for a b
  proof -
    obtain y where y: "y \<in> set xs" "b \<in> set (g y)" using ab(2) by auto
    have "f x < f y" using y Cons.prems(1,2) by (auto simp: le_less)
    then show ?thesis using Cons.prems(3) [of x a] Cons.prems(3) [of y b] ab(1) y
      by (simp add: less_eq_prod_def)
  qed
  ultimately show ?case using Cons by (auto simp: sorted_append)
qed simp

lemma list_query_parts:
  assumes "distinct (map res_name (resources d))"
  shows "list_query d = concat (map (part d) (sort_key res_name (resources d)))"
  unfolding list_query_def
proof (rule properties_for_sort_key)
  let ?k = "\<lambda>(r, t, n). (res_name r, tgt_role t)" and ?rs = "resources d"
  let ?raw = "\<lambda>r. map (\<lambda>t. (r, t, join_node d t)) (targets_of d r)"
  have dsort: "distinct (map res_name (sort_key res_name ?rs))"
    using assms by (metis distinct_map distinct_sort set_sort)
  show "mset (concat (map (part d) (sort_key res_name ?rs))) = mset (concat (map ?raw ?rs))"
    by (simp add: mset_concat_map part_def)
  show "sorted (map ?k (concat (map (part d) (sort_key res_name ?rs))))"
  proof (rule sorted_parts [where f = res_name])
    show "distinct (map res_name (sort_key res_name ?rs))" by fact
  qed (auto simp: part_def comp_def case_prod_beta)
  fix x assume "x \<in> set (concat (map (part d) (sort_key res_name ?rs)))"
  obtain r0 t0 n0 where x: "x = (r0, t0, n0)" by (cases x) auto
  let ?P = "(\<lambda>(r, t, n). res_name r = res_name r0 \<and> tgt_role t = tgt_role t0) :: join_row \<Rightarrow> bool"
  have P: "(\<lambda>y. ?k x = ?k y) = ?P" by (auto simp: x fun_eq_iff)
  have "filter ?P (concat (map (part d) (sort_key res_name ?rs))) = filter ?P (concat (map ?raw ?rs))"
  proof -
    have raw: "filter ?P (?raw r) = filter ?P (part d r)" for r
      unfolding filter_part by (simp add: filter_map comp_def)
    have z: "filter ?P (part d r) = []" if "res_name r \<noteq> res_name r0" for r
      unfolding filter_part using that by simp
    have a: "concat (map (\<lambda>r. filter ?P (part d r)) (sort_key res_name ?rs))
        = concat (map (\<lambda>r. filter ?P (part d r)) ?rs)"
    proof -
      let ?g = "\<lambda>r. filter ?P (part d r)"
      have "concat (map ?g (sort_key res_name ?rs)) = (case List.find (\<lambda>r. res_name r = res_name r0)
          (sort_key res_name ?rs) of None \<Rightarrow> [] | Some r \<Rightarrow> ?g r)"
        by (rule concat_pick [OF dsort]) (rule z)
      moreover have "concat (map ?g ?rs) = (case List.find (\<lambda>r. res_name r = res_name r0) ?rs of
          None \<Rightarrow> [] | Some r \<Rightarrow> ?g r)"
        by (rule concat_pick [OF assms]) (rule z)
      ultimately show ?thesis by (simp only: find_sorted [OF assms])
    qed
    show ?thesis unfolding filter_concat map_map comp_def raw using a by (simp only: comp_def)
  qed
  then show "filter (\<lambda>y. ?k x = ?k y) (concat (map (part d) (sort_key res_name ?rs)))
      = filter (\<lambda>y. ?k x = ?k y) (concat (map ?raw ?rs))"
    unfolding P .
qed

text \<open>The grouping loop over the rows of one resource, and over all of them.\<close>

lemma update_fst_none: "i \<notin> fst ` set acc \<Longrightarrow> update_where (\<lambda>e. fst e = i) f acc = acc"
  by (rule update_where_none) auto

lemma update_where_append: "update_where p f (a @ b) = update_where p f a @ update_where p f b"
  by (simp add: update_where_def)

lemma add_row_new:
  "i \<notin> fst ` set acc \<Longrightarrow> add_row i base tg acc = acc @ [(i, base\<lparr>r_Targets := r_Targets base @ [tg]\<rparr>)]"
  by (simp add: add_row_def update_where_append update_fst_none)

lemma add_row_last:
  "i \<notin> fst ` set acc \<Longrightarrow> add_row i base tg (acc @ [(i, x)]) = acc @ [(i, x\<lparr>r_Targets := r_Targets x @ [tg]\<rparr>)]"
  by (simp add: add_row_def update_where_append update_fst_none)

definition row_of :: "db \<Rightarrow> ResourceRow \<Rightarrow> TargetRow \<Rightarrow> join_row" where
  "row_of d r t = (r, t, join_node d t)"

lemma scan_rows_same:
  assumes "res_id r \<notin> fst ` set acc" "\<And>t. t \<in> set ts \<Longrightarrow> join_address t (join_node d t) \<noteq> None"
  shows "scan_rows (map (row_of d r) ts @ rows) (acc @ [(res_id r, x)])
    = scan_rows rows (acc @ [(res_id r, x\<lparr>r_Targets := r_Targets x @ map (resolve d) ts\<rparr>)])"
  using assms(2)
proof (induction ts arbitrary: x)
  case (Cons t ts)
  then obtain addr where a: "join_address t (join_node d t) = Some addr" by force
  then show ?case
    using Cons.IH [of "x\<lparr>r_Targets := r_Targets x @ [resolve d t]\<rparr>"] Cons.prems assms(1)
    by (simp add: row_of_def add_row_last resolve_def)
qed simp

lemma scan_rows_group:
  assumes "res_id r \<notin> fst ` set acc" "ts \<noteq> []"
    and "\<And>t. t \<in> set ts \<Longrightarrow> join_address t (join_node d t) \<noteq> None"
  shows "scan_rows (map (row_of d r) ts @ rows) acc
    = scan_rows rows (acc @ [(res_id r, (scan_resource r)\<lparr>r_Targets := map (resolve d) ts\<rparr>)])"
proof -
  obtain t ts' where ts: "ts = t # ts'" using assms(2) by (cases ts) auto
  then obtain addr where a: "join_address t (join_node d t) = Some addr" using assms(3) by force
  have "r_Targets (scan_resource r) = []" by (simp add: scan_resource_def)
  then show ?thesis
    using scan_rows_same [of r acc ts' d rows "(scan_resource r)\<lparr>r_Targets := [resolve d t]\<rparr>"] a assms(1,3)
    by (simp add: ts row_of_def add_row_new resolve_def)
qed

lemma part_row_of: "part d r = map (row_of d r) (sort_key tgt_role (targets_of d r))"
  by (simp add: part_def row_of_def)

lemma scan_rows_parts:
  assumes "distinct (map res_id rs)" "res_id ` set rs \<inter> fst ` set acc = {}"
    and "\<And>t. t \<in> set (resource_targets d) \<Longrightarrow> join_address t (join_node d t) \<noteq> None"
  shows "scan_rows (concat (map (part d) rs)) acc
    = Inr (acc @ map (\<lambda>r. (res_id r, listing d r)) (filter (\<lambda>r. targets_of d r \<noteq> []) rs))"
  using assms(1,2)
proof (induction rs arbitrary: acc)
  case (Cons r rs)
  show ?case
  proof (cases "targets_of d r = []")
    case True
    then show ?thesis using Cons by (simp add: part_def)
  next
    case False
    let ?e = "(res_id r, listing d r)"
    have ne: "sort_key tgt_role (targets_of d r) \<noteq> []"
      using False by (metis set_empty set_sort)
    have "scan_rows (concat (map (part d) (r # rs))) acc = scan_rows (concat (map (part d) rs)) (acc @ [?e])"
      using scan_rows_group [of r acc "sort_key tgt_role (targets_of d r)" d "concat (map (part d) rs)"]
        Cons.prems ne assms(3) by (simp add: part_row_of listing_def targets_of_def)
    also have "\<dots> = Inr ((acc @ [?e]) @ map (\<lambda>r. (res_id r, listing d r)) (filter (\<lambda>r. targets_of d r \<noteq> []) rs))"
      using Cons.prems by (intro Cons.IH) auto
    finally show ?thesis using False by simp
  qed
qed simp

lemma join_address_ok:
  assumes "resources_ok d" "nodes_ok d" "t \<in> set (resource_targets d)"
  shows "join_address t (join_node d t) \<noteq> None"
proof (cases "tgt_node_id t")
  case None
  then show ?thesis using assms by (auto simp: resources_ok_def target_row_ok_def join_node_def join_address_def)
next
  case (Some i)
  then have "i \<in> node_ids d" using assms by (auto simp: resources_ok_def)
  then obtain n where "List.find (\<lambda>n. node_ID n = i) (nodes d) = Some n"
    by (cases "List.find (\<lambda>n. node_ID n = i) (nodes d)") (auto simp: find_None_iff node_ids_def)
  then show ?thesis using Some by (simp add: join_node_def node_by_id_def join_address_def)
qed

lemma scan_list_query:
  assumes "db_ok d"
  shows "\<exists>acc. scan_rows (list_query d) [] = Inr acc \<and> map snd acc = listed d"
proof -
  have ids: "distinct (map res_id (sort_key res_name (resources d)))"
    using assms by (metis db_ok_def resources_ok_def distinct_map distinct_sort set_sort)
  have "distinct (map res_name (resources d))" using assms by (simp add: db_ok_def resources_ok_def)
  note list_query_parts [OF this]
  moreover have "\<And>t. t \<in> set (resource_targets d) \<Longrightarrow> join_address t (join_node d t) \<noteq> None"
    using assms join_address_ok by (auto simp: db_ok_def)
  ultimately show ?thesis
    using scan_rows_parts [OF ids, of "[]" d] by (simp add: listed_def comp_def)
qed

lemma list_served:
  assumes "db_ok d" "statement d = (True, d1)"
  shows "ListResourcesWithTargets d = (Inr (listed d), d1)"
proof -
  have "db_ok d1" using assms by (simp add: statement_ok)
  moreover have "listed d1 = listed d"
  proof -
    have nb: "node_by_id d1 = node_by_id d" and tg: "targets_of d1 = targets_of d"
      using statement_tables [OF assms(2)] by (simp_all add: fun_eq_iff node_by_id_def targets_of_def)
    have "join_node d1 = join_node d" unfolding join_node_def [abs_def] nb ..
    then have "listing d1 = listing d"
      by (simp add: listing_def [abs_def] resolve_def [abs_def] tg)
    then show ?thesis using tg statement_tables [OF assms(2)] by (simp add: listed_def)
  qed
  ultimately show ?thesis
    using scan_list_query [of d1] assms(2) by (auto simp: ListResourcesWithTargets_def run_statement_def)
qed

lemma list_unserved:
  "statement d = (False, d1) \<Longrightarrow> ListResourcesWithTargets d = (Inl (ListFailed Unserved), d1)"
  by (simp add: ListResourcesWithTargets_def run_statement_def)

lemma listed_names: "distinct (map res_name (resources d)) \<Longrightarrow> distinct (map r_Name (listed d))"
proof -
  assume "distinct (map res_name (resources d))"
  then have "distinct (map res_name (sort_key res_name (resources d)))"
    by (metis distinct_map distinct_sort set_sort)
  moreover have "r_Name (listing d r) = res_name r" for r by (simp add: listing_def scan_resource_def)
  ultimately show ?thesis by (simp add: listed_def comp_def distinct_map_filter)
qed

end
