(* ===== verification/TraefikConfig.thy ===== *)
theory TraefikConfig
  imports ResourcesDb "HOL-Library.Multiset"
begin

text \<open>
  internal/controlplane/traefikconfig: Traefik's dynamic configuration generated from the
  resources. The struct types are the Go ones; Go maps are HOL maps and a nil pointer is
  None (a nil map of \<open>serversTransports\<close> is the empty map: both are left out of the JSON).
  \<open>now\<close> is the wall clock that \<open>time.Since\<close> reads, in nanoseconds.

  The lemmas: what every resource contributes, that the result does not depend on the order
  of resources with different names, that every reference in the configuration resolves,
  that TLS verification is switched off only where a resource asks for it, and that
  different domains get different rules.
\<close>

section \<open>The configuration\<close>

record serversTransport =
  InsecureSkipVerify :: bool

record tlsDomain =
  Main :: string

record routerTLS =
  CertResolver :: string
  Domains :: "tlsDomain list"

record router =
  Rule :: string
  rt_Service :: string
  EntryPoints :: "string list"
  TLS :: "routerTLS option"

record cookie =
  cookie_Name :: string

record sticky =
  Cookie :: cookie

record healthCheck =
  Path :: string
  Interval :: string
  Timeout :: string

record server =
  URL :: string
  Address :: string

record loadBalancer =
  Servers :: "server list"
  Sticky :: "sticky option"
  HealthCheck :: "healthCheck option"
  ServersTransport :: string

record service =
  LoadBalancer :: loadBalancer

record protocolConfig =
  Routers :: "string \<rightharpoonup> router"
  Services :: "string \<rightharpoonup> service"
  ServersTransports :: "string \<rightharpoonup> serversTransport"

record udpRouter =
  ur_Service :: string
  ur_EntryPoints :: "string list"

record udpProtocolConfig =
  udp_Routers :: "string \<rightharpoonup> udpRouter"
  udp_Services :: "string \<rightharpoonup> service"

record Config =
  HTTP :: "protocolConfig option"
  TCP :: "protocolConfig option"
  UDP :: "udpProtocolConfig option"

section \<open>Rules and target selection\<close>

text \<open>Nanoseconds, as in Go's \<open>time.Duration\<close>.\<close>

definition primaryFreshness :: int where
  "primaryFreshness = 45 * 10 ^ 9"

definition hostRule :: "string \<Rightarrow> string" where
  "hostRule domain = (case CutPrefix domain ''*.'' of
     Some suffix \<Rightarrow> ''HostRegexp(`^[^.]+'' @ [CHR 0x5C] @ ''.'' @ ReplaceAll suffix (CHR ''.'') [CHR 0x5C, CHR ''.''] @ ''$`)''
   | None \<Rightarrow> ''Host(`'' @ domain @ ''`)'')"

definition zero_target :: Target where
  "zero_target = \<lparr>t_Address = [], t_Port = 0, t_Role = [], t_External = False, t_LastSeen = None, t_NodeName = None\<rparr>"

text \<open>The loop that remembers the last primary and the last backup.\<close>

fun pick_roles :: "Target list \<Rightarrow> Target \<Rightarrow> Target \<Rightarrow> Target \<times> Target" where
  "pick_roles [] primary backup = (primary, backup)"
| "pick_roles (t # ts) primary backup =
     (if t_Role t = ''primary'' then pick_roles ts t backup
      else if t_Role t = ''backup'' then pick_roles ts primary t
      else pick_roles ts primary backup)"

definition selectMasterBackupTarget :: "int \<Rightarrow> Target list \<Rightarrow> Target" where
  "selectMasterBackupTarget now targets = (case targets of
     [t] \<Rightarrow> t
   | _ \<Rightarrow> (let (primary, backup) = pick_roles targets zero_target zero_target in
       if t_External primary then primary
       else (case t_LastSeen primary of
           Some seen \<Rightarrow> if now - seen \<le> primaryFreshness then primary else backup
         | None \<Rightarrow> backup)))"

section \<open>Generate\<close>

definition empty_protocol :: protocolConfig where
  "empty_protocol = \<lparr>Routers = (\<lambda>_. None), Services = (\<lambda>_. None), ServersTransports = (\<lambda>_. None)\<rparr>"

definition empty_udp :: udpProtocolConfig where
  "empty_udp = \<lparr>udp_Routers = (\<lambda>_. None), udp_Services = (\<lambda>_. None)\<rparr>"

definition empty_config :: Config where
  "empty_config = \<lparr>HTTP = None, TCP = None, UDP = None\<rparr>"

text \<open>The router of an http resource.\<close>

definition http_tls :: "ResourceWithTargets \<Rightarrow> routerTLS option" where
  "http_tls r = (case r_CertResolver r of
     None \<Rightarrow> None
   | Some c \<Rightarrow> if c = [] then None
       else Some \<lparr>CertResolver = c, Domains = (case r_Domain r of
           None \<Rightarrow> []
         | Some domain \<Rightarrow> if HasPrefix domain ''*.'' then [\<lparr>Main = domain\<rparr>] else [])\<rparr>)"

definition http_router :: "ResourceWithTargets \<Rightarrow> router" where
  "http_router r = \<lparr>Rule = (case r_Domain r of
        None \<Rightarrow> ''PathPrefix(`/`)''
      | Some domain \<Rightarrow> if domain \<noteq> [] then hostRule domain else ''PathPrefix(`/`)''),
     rt_Service = r_Name r, EntryPoints = [r_EntryPoint r], TLS = http_tls r\<rparr>"

definition http_scheme :: "ResourceWithTargets \<Rightarrow> string" where
  "http_scheme r = (if r_TargetScheme r = [] then ''http'' else r_TargetScheme r)"

definition insecure :: "ResourceWithTargets \<Rightarrow> bool" where
  "insecure r \<longleftrightarrow> http_scheme r = ''https'' \<and> r_TargetSkipVerify r"

definition transport_name :: "ResourceWithTargets \<Rightarrow> string" where
  "transport_name r = r_Name r @ ''-insecure''"

text \<open>Its service: one server per target, the transport, and the sticky cookie with the health check.\<close>

definition http_service :: "ResourceWithTargets \<Rightarrow> service" where
  "http_service r = \<lparr>LoadBalancer = \<lparr>
     Servers = map (\<lambda>t. \<lparr>URL = http_scheme r @ ''://'' @ t_Address t @ '':'' @ Itoa (t_Port t), Address = []\<rparr>) (r_Targets r),
     Sticky = (if r_Sticky r then Some \<lparr>Cookie = \<lparr>cookie_Name = ''rvtx_lb_'' @ r_Name r\<rparr>\<rparr> else None),
     HealthCheck = (if r_Sticky r then Some \<lparr>Path = ''/'', Interval = ''10s'', Timeout = ''3s''\<rparr> else None),
     ServersTransport = (if insecure r then transport_name r else [])\<rparr>\<rparr>"

definition put_http :: "ResourceWithTargets \<Rightarrow> protocolConfig \<Rightarrow> protocolConfig" where
  "put_http r c = \<lparr>Routers = (Routers c)(r_Name r \<mapsto> http_router r),
     Services = (Services c)(r_Name r \<mapsto> http_service r),
     ServersTransports = (if insecure r then (ServersTransports c)(transport_name r \<mapsto> \<lparr>InsecureSkipVerify = True\<rparr>)
       else ServersTransports c)\<rparr>"

definition tcp_router :: "ResourceWithTargets \<Rightarrow> router" where
  "tcp_router r = \<lparr>Rule = (case r_Domain r of
        None \<Rightarrow> ''HostSNI(`*`)''
      | Some domain \<Rightarrow> if domain \<noteq> [] then ''HostSNI(`'' @ domain @ ''`)'' else ''HostSNI(`*`)''),
     rt_Service = r_Name r, EntryPoints = [r_EntryPoint r], TLS = None\<rparr>"

text \<open>The service of a tcp or udp resource: the one selected target.\<close>

definition l4_service :: "int \<Rightarrow> ResourceWithTargets \<Rightarrow> service" where
  "l4_service now r = (let target = selectMasterBackupTarget now (r_Targets r) in
     \<lparr>LoadBalancer = \<lparr>Servers = [\<lparr>URL = [], Address = t_Address target @ '':'' @ Itoa (t_Port target)\<rparr>],
        Sticky = None, HealthCheck = None, ServersTransport = []\<rparr>\<rparr>)"

definition put_tcp :: "int \<Rightarrow> ResourceWithTargets \<Rightarrow> protocolConfig \<Rightarrow> protocolConfig" where
  "put_tcp now r c = c\<lparr>Routers := (Routers c)(r_Name r \<mapsto> tcp_router r),
     Services := (Services c)(r_Name r \<mapsto> l4_service now r)\<rparr>"

definition udp_router :: "ResourceWithTargets \<Rightarrow> udpRouter" where
  "udp_router r = \<lparr>ur_Service = r_Name r, ur_EntryPoints = [r_EntryPoint r]\<rparr>"

definition put_udp :: "int \<Rightarrow> ResourceWithTargets \<Rightarrow> udpProtocolConfig \<Rightarrow> udpProtocolConfig" where
  "put_udp now r c = c\<lparr>udp_Routers := (udp_Routers c)(r_Name r \<mapsto> udp_router r),
     udp_Services := (udp_Services c)(r_Name r \<mapsto> l4_service now r)\<rparr>"

text \<open>One round of the loop: the switch on the protocol, any other protocol being skipped.\<close>

definition generate_one :: "int \<Rightarrow> Config \<Rightarrow> ResourceWithTargets \<Rightarrow> Config" where
  "generate_one now cfg r =
     (if r_Protocol r = ''http'' then cfg\<lparr>HTTP := Some (put_http r (deref empty_protocol (HTTP cfg)))\<rparr>
      else if r_Protocol r = ''tcp'' then cfg\<lparr>TCP := Some (put_tcp now r (deref empty_protocol (TCP cfg)))\<rparr>
      else if r_Protocol r = ''udp'' then cfg\<lparr>UDP := Some (put_udp now r (deref empty_udp (UDP cfg)))\<rparr>
      else cfg)"

definition Generate :: "int \<Rightarrow> ResourceWithTargets list \<Rightarrow> Config" where
  "Generate now rs = foldl (generate_one now) empty_config rs"

section \<open>Sections of the configuration\<close>

text \<open>
  Each of the six tables of routers and services is filled the same way: every resource of
  the protocol puts its value under its name. What follows from that law is stated once.
\<close>

locale keyed_section =
  fixes put :: "ResourceWithTargets \<Rightarrow> 'c \<Rightarrow> 'c"
    and look :: "'c \<Rightarrow> string \<rightharpoonup> 'v"
    and val :: "ResourceWithTargets \<Rightarrow> 'v"
  assumes look_put: "look (put r c) = (look c)(r_Name r \<mapsto> val r)"
begin

lemma look_all:
  "look (foldl (\<lambda>c r. put r c) c rs) n = (case List.find (\<lambda>r. r_Name r = n) (rev rs) of
     None \<Rightarrow> look c n | Some r \<Rightarrow> Some (val r))"
  by (induction rs rule: rev_induct) (auto simp: look_put)

lemma look_all_SomeD:
  assumes "look (foldl (\<lambda>c r. put r c) c rs) n = Some v" "look c n = None"
  shows "\<exists>r \<in> set rs. r_Name r = n \<and> v = val r"
  using assms by (fastforce simp: look_all split: option.splits dest: find_SomeD)

lemma look_all_mem: "r \<in> set rs \<Longrightarrow> look (foldl (\<lambda>c r. put r c) c rs) (r_Name r) \<noteq> None"
  by (auto simp: look_all find_None_iff split: option.splits)

lemma look_all_distinct:
  assumes "distinct (map r_Name rs)" "r \<in> set rs"
  shows "look (foldl (\<lambda>c r. put r c) c rs) (r_Name r) = Some (val r)"
proof -
  have "distinct (map r_Name (rev rs))" using assms(1) by (simp flip: rev_map)
  then have "List.find (\<lambda>s. r_Name s = r_Name r) (rev rs) = Some r"
    using assms(2) by (simp add: distinct_map_find)
  then show ?thesis by (simp add: look_all)
qed

lemma look_all_finite: "finite (dom (look c)) \<Longrightarrow> finite (dom (look (foldl (\<lambda>c r. put r c) c rs)))"
  by (induction rs rule: rev_induct) (simp_all add: look_put)

lemma look_all_perm:
  assumes "mset rs = mset rs'" "distinct (map r_Name rs)"
  shows "look (foldl (\<lambda>c r. put r c) c rs) = look (foldl (\<lambda>c r. put r c) c rs')"
proof
  fix n
  have d': "distinct (map r_Name rs')"
    using assms by (metis mset_eq_imp_distinct_iff mset_map)
  have s: "set rs' = set rs" using assms(1) by (metis mset_eq_setD)
  show "look (foldl (\<lambda>c r. put r c) c rs) n = look (foldl (\<lambda>c r. put r c) c rs') n"
  proof (cases "\<exists>r \<in> set rs. r_Name r = n")
    case True
    then show ?thesis using assms(2) d' s by (auto simp: look_all_distinct)
  next
    case False
    then have "List.find (\<lambda>r. r_Name r = n) (rev rs) = None" "List.find (\<lambda>r. r_Name r = n) (rev rs') = None"
      using s by (auto simp: find_None_iff)
    then show ?thesis by (simp add: look_all)
  qed
qed

end

interpretation http_routers: keyed_section put_http Routers http_router
  by unfold_locales (simp add: put_http_def)

interpretation http_services: keyed_section put_http Services http_service
  by unfold_locales (simp add: put_http_def)

interpretation tcp_routers: keyed_section "put_tcp now" Routers tcp_router
  by unfold_locales (simp add: put_tcp_def)

interpretation tcp_services: keyed_section "put_tcp now" Services "l4_service now"
  by unfold_locales (simp add: put_tcp_def)

interpretation udp_routers: keyed_section "put_udp now" udp_Routers udp_router
  by unfold_locales (simp add: put_udp_def)

interpretation udp_services: keyed_section "put_udp now" udp_Services "l4_service now"
  by unfold_locales (simp add: put_udp_def)

text \<open>The three protocols do not interfere: each section depends on its own resources only.\<close>

definition of_protocol :: "string \<Rightarrow> ResourceWithTargets list \<Rightarrow> ResourceWithTargets list" where
  "of_protocol p rs = filter (\<lambda>r. r_Protocol r = p) rs"

definition section_of :: "('r \<Rightarrow> 'c \<Rightarrow> 'c) \<Rightarrow> 'c \<Rightarrow> 'r list \<Rightarrow> 'c option" where
  "section_of put c rs = (if rs = [] then None else Some (foldl (\<lambda>c r. put r c) c rs))"

lemma of_protocol_snoc:
  "of_protocol p (rs @ [r]) = (if r_Protocol r = p then of_protocol p rs @ [r] else of_protocol p rs)"
  by (simp add: of_protocol_def)

lemma set_of_protocol: "r \<in> set (of_protocol p rs) \<longleftrightarrow> r \<in> set rs \<and> r_Protocol r = p"
  by (auto simp: of_protocol_def)

lemma distinct_of_protocol: "distinct (map r_Name rs) \<Longrightarrow> distinct (map r_Name (of_protocol p rs))"
  by (simp add: of_protocol_def distinct_map_filter)

lemma section_of_snoc: "section_of put c (rs @ [r]) = Some (put r (deref c (section_of put c rs)))"
  by (simp add: section_of_def)

lemma Generate_sections:
  "HTTP (Generate now rs) = section_of put_http empty_protocol (of_protocol ''http'' rs)"
  "TCP (Generate now rs) = section_of (put_tcp now) empty_protocol (of_protocol ''tcp'' rs)"
  "UDP (Generate now rs) = section_of (put_udp now) empty_udp (of_protocol ''udp'' rs)"
proof (induction rs rule: rev_induct)
  case Nil
  { case 1 show ?case by (simp add: Generate_def empty_config_def section_of_def of_protocol_def) }
  { case 2 show ?case by (simp add: Generate_def empty_config_def section_of_def of_protocol_def) }
  { case 3 show ?case by (simp add: Generate_def empty_config_def section_of_def of_protocol_def) }
next
  case (snoc r rs)
  { case 1 show ?case using snoc(1) by (simp add: Generate_def generate_one_def of_protocol_snoc section_of_snoc) }
  { case 2 show ?case using snoc(2) by (simp add: Generate_def generate_one_def of_protocol_snoc section_of_snoc) }
  { case 3 show ?case using snoc(3) by (simp add: Generate_def generate_one_def of_protocol_snoc section_of_snoc) }
qed

lemma foldl_put_transports:
  "ServersTransports (foldl (\<lambda>c r. put_http r c) c rs) m =
     (if \<exists>r \<in> set rs. insecure r \<and> transport_name r = m then Some \<lparr>InsecureSkipVerify = True\<rparr>
      else ServersTransports c m)"
  by (induction rs rule: rev_induct) (auto simp: put_http_def)

lemma section_of_mset:
  assumes "mset rs = mset rs'"
    and "foldl (\<lambda>c r. put r c) c rs = foldl (\<lambda>c r. put r c) c rs'"
  shows "section_of put c rs = section_of put c rs'"
  using assms by (auto simp: section_of_def)

lemma put_http_perm:
  assumes "mset rs = mset rs'" "distinct (map r_Name rs)"
  shows "foldl (\<lambda>c r. put_http r c) empty_protocol rs = foldl (\<lambda>c r. put_http r c) empty_protocol rs'"
proof (rule protocolConfig.equality)
  show "Routers (foldl (\<lambda>c r. put_http r c) empty_protocol rs) = Routers (foldl (\<lambda>c r. put_http r c) empty_protocol rs')"
    by (rule http_routers.look_all_perm) fact+
  show "Services (foldl (\<lambda>c r. put_http r c) empty_protocol rs) = Services (foldl (\<lambda>c r. put_http r c) empty_protocol rs')"
    by (rule http_services.look_all_perm) fact+
  show "ServersTransports (foldl (\<lambda>c r. put_http r c) empty_protocol rs)
      = ServersTransports (foldl (\<lambda>c r. put_http r c) empty_protocol rs')"
    using mset_eq_setD [OF assms(1)] by (auto simp: fun_eq_iff foldl_put_transports)
qed simp

lemma put_tcp_transports: "ServersTransports (foldl (\<lambda>c r. put_tcp now r c) c rs) = ServersTransports c"
  by (induction rs rule: rev_induct) (simp_all add: put_tcp_def)

lemma put_tcp_perm:
  assumes "mset rs = mset rs'" "distinct (map r_Name rs)"
  shows "foldl (\<lambda>c r. put_tcp now r c) empty_protocol rs = foldl (\<lambda>c r. put_tcp now r c) empty_protocol rs'"
proof (rule protocolConfig.equality)
  show "Routers (foldl (\<lambda>c r. put_tcp now r c) empty_protocol rs) = Routers (foldl (\<lambda>c r. put_tcp now r c) empty_protocol rs')"
    by (rule tcp_routers.look_all_perm) fact+
  show "Services (foldl (\<lambda>c r. put_tcp now r c) empty_protocol rs) = Services (foldl (\<lambda>c r. put_tcp now r c) empty_protocol rs')"
    by (rule tcp_services.look_all_perm) fact+
qed (simp_all add: put_tcp_transports)

lemma put_udp_perm:
  assumes "mset rs = mset rs'" "distinct (map r_Name rs)"
  shows "foldl (\<lambda>c r. put_udp now r c) empty_udp rs = foldl (\<lambda>c r. put_udp now r c) empty_udp rs'"
proof (rule udpProtocolConfig.equality)
  show "udp_Routers (foldl (\<lambda>c r. put_udp now r c) empty_udp rs) = udp_Routers (foldl (\<lambda>c r. put_udp now r c) empty_udp rs')"
    by (rule udp_routers.look_all_perm) fact+
  show "udp_Services (foldl (\<lambda>c r. put_udp now r c) empty_udp rs) = udp_Services (foldl (\<lambda>c r. put_udp now r c) empty_udp rs')"
    by (rule udp_services.look_all_perm) fact+
qed simp

lemma Generate_mset:
  assumes "mset rs = mset rs'" "distinct (map r_Name rs)"
  shows "Generate now rs = Generate now rs'"
proof (rule Config.equality)
  have m: "mset (of_protocol p rs) = mset (of_protocol p rs')" for p
    using assms(1) by (simp add: of_protocol_def)
  have d: "distinct (map r_Name (of_protocol p rs))" for p
    using assms(2) by (rule distinct_of_protocol)
  show "HTTP (Generate now rs) = HTTP (Generate now rs')" unfolding Generate_sections
    by (rule section_of_mset [OF m put_http_perm [OF m d]])
  show "TCP (Generate now rs) = TCP (Generate now rs')" unfolding Generate_sections
    by (rule section_of_mset [OF m put_tcp_perm [OF m d]])
  show "UDP (Generate now rs) = UDP (Generate now rs')" unfolding Generate_sections
    by (rule section_of_mset [OF m put_udp_perm [OF m d]])
qed simp

section \<open>References resolve\<close>

definition protocol_closed :: "protocolConfig \<Rightarrow> bool" where
  "protocol_closed c \<longleftrightarrow> (\<forall>n ro. Routers c n = Some ro \<longrightarrow> Services c (rt_Service ro) \<noteq> None)
     \<and> (\<forall>n sv. Services c n = Some sv \<longrightarrow> ServersTransport (LoadBalancer sv) = []
          \<or> ServersTransports c (ServersTransport (LoadBalancer sv)) \<noteq> None)"

definition udp_closed :: "udpProtocolConfig \<Rightarrow> bool" where
  "udp_closed c \<longleftrightarrow> (\<forall>n ro. udp_Routers c n = Some ro \<longrightarrow> udp_Services c (ur_Service ro) \<noteq> None)"

definition config_closed :: "Config \<Rightarrow> bool" where
  "config_closed cfg \<longleftrightarrow> pred_option protocol_closed (HTTP cfg) \<and> pred_option protocol_closed (TCP cfg)
     \<and> pred_option udp_closed (UDP cfg)"

lemma empty_protocol_sel [simp]:
  "Routers empty_protocol n = None" "Services empty_protocol n = None" "ServersTransports empty_protocol n = None"
  "udp_Routers empty_udp n = None" "udp_Services empty_udp n = None"
  by (simp_all add: empty_protocol_def empty_udp_def)

lemma http_closed: "protocol_closed (foldl (\<lambda>c r. put_http r c) empty_protocol rs)"
  unfolding protocol_closed_def
proof (intro conjI allI impI)
  fix n ro assume "Routers (foldl (\<lambda>c r. put_http r c) empty_protocol rs) n = Some ro"
  then obtain r where "r \<in> set rs" "ro = http_router r" by (auto dest: http_routers.look_all_SomeD)
  then show "Services (foldl (\<lambda>c r. put_http r c) empty_protocol rs) (rt_Service ro) \<noteq> None"
    using http_services.look_all_mem [of r rs] by (simp add: http_router_def)
next
  fix n sv assume "Services (foldl (\<lambda>c r. put_http r c) empty_protocol rs) n = Some sv"
  then obtain r where "r \<in> set rs" "sv = http_service r" by (auto dest: http_services.look_all_SomeD)
  then show "ServersTransport (LoadBalancer sv) = []
      \<or> ServersTransports (foldl (\<lambda>c r. put_http r c) empty_protocol rs) (ServersTransport (LoadBalancer sv)) \<noteq> None"
    by (auto simp: http_service_def foldl_put_transports)
qed

lemma tcp_closed: "protocol_closed (foldl (\<lambda>c r. put_tcp now r c) empty_protocol rs)"
  unfolding protocol_closed_def
proof (intro conjI allI impI)
  fix n ro assume "Routers (foldl (\<lambda>c r. put_tcp now r c) empty_protocol rs) n = Some ro"
  then obtain r where "r \<in> set rs" "ro = tcp_router r" by (auto dest: tcp_routers.look_all_SomeD)
  then show "Services (foldl (\<lambda>c r. put_tcp now r c) empty_protocol rs) (rt_Service ro) \<noteq> None"
    using tcp_services.look_all_mem [of r rs] by (simp add: tcp_router_def)
next
  fix n sv assume "Services (foldl (\<lambda>c r. put_tcp now r c) empty_protocol rs) n = Some sv"
  then obtain r where "sv = l4_service now r" by (auto dest: tcp_services.look_all_SomeD)
  then show "ServersTransport (LoadBalancer sv) = []
      \<or> ServersTransports (foldl (\<lambda>c r. put_tcp now r c) empty_protocol rs) (ServersTransport (LoadBalancer sv)) \<noteq> None"
    by (simp add: l4_service_def Let_def)
qed

lemma udp_section_closed: "udp_closed (foldl (\<lambda>c r. put_udp now r c) empty_udp rs)"
  unfolding udp_closed_def
proof (intro allI impI)
  fix n ro assume "udp_Routers (foldl (\<lambda>c r. put_udp now r c) empty_udp rs) n = Some ro"
  then obtain r where "r \<in> set rs" "ro = udp_router r" by (auto dest: udp_routers.look_all_SomeD)
  then show "udp_Services (foldl (\<lambda>c r. put_udp now r c) empty_udp rs) (ur_Service ro) \<noteq> None"
    using udp_services.look_all_mem [of r rs] by (simp add: udp_router_def)
qed

lemma Generate_closed: "config_closed (Generate now rs)"
  by (auto simp: config_closed_def Generate_sections section_of_def http_closed tcp_closed udp_section_closed)

section \<open>Rules\<close>

lemma hostRule_injective: "hostRule a = hostRule b \<Longrightarrow> a = b"
  by (auto simp: hostRule_def CutPrefix_Some_iff split: option.splits dest!: ReplaceAll_escape_inj [rotated])

section \<open>Target selection\<close>

definition fresh_at :: "int \<Rightarrow> Target \<Rightarrow> bool" where
  "fresh_at now t \<longleftrightarrow> t_External t \<or> (\<exists>seen. t_LastSeen t = Some seen \<and> now - seen \<le> primaryFreshness)"

lemma select_pair:
  assumes "t_Role p = ''primary''" "t_Role b = ''backup''" "ts = [p, b] \<or> ts = [b, p]"
  shows "selectMasterBackupTarget now ts = (if fresh_at now p then p else b)"
  using assms by (auto simp: selectMasterBackupTarget_def fresh_at_def Let_def split: option.splits)

lemma select_single: "selectMasterBackupTarget now [t] = t"
  by (simp add: selectMasterBackupTarget_def)

end
