(* ===== verification/UsersDb.thy ===== *)
theory UsersDb
  imports Database
begin

text \<open>
  internal/controlplane/db/users.go: invites, password resets and the admin's statements on
  the users table. \<open>go_now\<close> is \<open>time.Now()\<close> in the process, \<open>pg_now\<close> is \<open>now()\<close>
  in the statement: the two clocks are different machines' and independent here. A statement
  that finds an error or no row where the code only reports "not found" gives \<open>None\<close>.

  The lemmas: each statement keeps the schema's constraints; the two token flows have one
  contract, the locale \<open>token_redeem\<close>, which says that a token is redeemed at most
  once whatever else happens in between.
\<close>

definition inviteTTL :: int where
  "inviteTTL = 7 * 24 * 3600 * 10 ^ 9"

definition resetTTL :: int where
  "resetTTL = 3600 * 10 ^ 9"

text \<open>A timestamptz keeps microseconds: the driver drops the rest of a \<open>time.Time\<close>.\<close>

definition timestamptz :: "int \<Rightarrow> int" where
  "timestamptz t = t - t mod 1000"

record User =
  u_ID :: nat
  u_Email :: string
  u_Role :: string
  u_HasSetPassword :: bool
  u_CreatedAt :: int

datatype user_error =
    CreateInviteFailed string db_error
  | AcceptInviteFailed db_error
  | InviteTokenInvalid
  | ListUsersFailed db_error
  | DeleteUserFailed string db_error
  | UserNotFound string
  | SetRoleFailed string db_error
  | CreateResetFailed string db_error
  | ResetFailed db_error
  | ResetTokenInvalid
  | CountFailed db_error
  | BootstrapFailed string db_error

definition to_User :: "UserRow \<Rightarrow> User" where
  "to_User r = \<lparr>u_ID = user_id r, u_Email = user_email r, u_Role = user_role r,
     u_HasSetPassword = (user_password_hash r \<noteq> None), u_CreatedAt = user_created_at r\<rparr>"

text \<open>\<open>expires > now()\<close>, false for NULL.\<close>

definition unexpired :: "int \<Rightarrow> int option \<Rightarrow> bool" where
  "unexpired pg_now e = (case e of None \<Rightarrow> False | Some t \<Rightarrow> pg_now < t)"

definition invite_matches :: "int \<Rightarrow> string \<Rightarrow> UserRow \<Rightarrow> bool" where
  "invite_matches pg_now token u \<longleftrightarrow> user_invite_token u = Some token \<and> unexpired pg_now (user_invite_expires u)"

definition reset_matches :: "int \<Rightarrow> string \<Rightarrow> UserRow \<Rightarrow> bool" where
  "reset_matches pg_now token u \<longleftrightarrow> user_reset_token u = Some token \<and> unexpired pg_now (user_reset_expires u)"

section \<open>The statements\<close>

definition create_invite_body ::
  "int \<Rightarrow> string \<Rightarrow> string \<Rightarrow> string \<Rightarrow> int \<Rightarrow> db \<Rightarrow> (db_error + unit) \<times> db" where
  "create_invite_body pg_now email role token expires d =
     (if list_ex (\<lambda>u. user_email u = email \<or> user_invite_token u = Some token) (users d)
      then (Inl UniqueViolation, d)
      else (Inr (), d\<lparr>users := users d @ [\<lparr>user_id = next_id d, user_email = email, user_password_hash = None,
              user_role = role, user_invite_token = Some token, user_invite_expires = Some (timestamptz expires),
              user_reset_token = None, user_reset_expires = None, user_created_at = pg_now\<rparr>],
            next_id := Suc (next_id d)\<rparr>))"

definition CreateInvite ::
  "int \<Rightarrow> int \<Rightarrow> string \<Rightarrow> string \<Rightarrow> string \<Rightarrow> db \<Rightarrow> (user_error + unit) \<times> db" where
  "CreateInvite go_now pg_now email role token d =
     (case run_statement (create_invite_body pg_now email role token (go_now + inviteTTL)) d of
        (Inl e, d1) \<Rightarrow> (Inl (CreateInviteFailed email e), d1)
      | (Inr _, d1) \<Rightarrow> (Inr (), d1))"

definition UserByInviteToken :: "int \<Rightarrow> string \<Rightarrow> db \<Rightarrow> User option \<times> db" where
  "UserByInviteToken pg_now token d =
     (case run_statement (\<lambda>d. (case List.find (invite_matches pg_now token) (users d) of
          None \<Rightarrow> (Inl NoRows, d) | Some u \<Rightarrow> (Inr (to_User u), d))) d of
        (Inl _, d1) \<Rightarrow> (None, d1)
      | (Inr u, d1) \<Rightarrow> (Some u, d1))"

definition accept_invite_body :: "int \<Rightarrow> string \<Rightarrow> string \<Rightarrow> db \<Rightarrow> (db_error + nat) \<times> db" where
  "accept_invite_body pg_now token passwordHash d =
     (Inr (length (filter (invite_matches pg_now token) (users d))),
      d\<lparr>users := update_where (invite_matches pg_now token)
          (\<lambda>u. u\<lparr>user_password_hash := Some passwordHash, user_invite_token := None,
                 user_invite_expires := None\<rparr>) (users d)\<rparr>)"

definition AcceptInvite :: "int \<Rightarrow> string \<Rightarrow> string \<Rightarrow> db \<Rightarrow> (user_error + unit) \<times> db" where
  "AcceptInvite pg_now token passwordHash d =
     (case run_statement (accept_invite_body pg_now token passwordHash) d of
        (Inl e, d1) \<Rightarrow> (Inl (AcceptInviteFailed e), d1)
      | (Inr n, d1) \<Rightarrow> if n = 0 then (Inl InviteTokenInvalid, d1) else (Inr (), d1))"

text \<open>The user, the stored hash (empty when there is none).\<close>

definition UserByEmail :: "string \<Rightarrow> db \<Rightarrow> (User \<times> string) option \<times> db" where
  "UserByEmail email d =
     (case run_statement (\<lambda>d. (case List.find (\<lambda>u. user_email u = email) (users d) of
          None \<Rightarrow> (Inl NoRows, d) | Some u \<Rightarrow> (Inr u, d))) d of
        (Inl _, d1) \<Rightarrow> (None, d1)
      | (Inr u, d1) \<Rightarrow> (Some (to_User u, deref [] (user_password_hash u)), d1))"

definition ListUsers :: "db \<Rightarrow> (user_error + User list) \<times> db" where
  "ListUsers d =
     (case run_statement (\<lambda>d. (Inr (map to_User (sort_key (\<lambda>u. - user_created_at u) (users d))), d)) d of
        (Inl e, d1) \<Rightarrow> (Inl (ListUsersFailed e), d1)
      | (Inr us, d1) \<Rightarrow> (Inr us, d1))"

definition delete_user_body :: "string \<Rightarrow> db \<Rightarrow> (db_error + nat) \<times> db" where
  "delete_user_body email d = (Inr (length (filter (\<lambda>u. user_email u = email) (users d))),
     d\<lparr>users := filter (\<lambda>u. user_email u \<noteq> email) (users d)\<rparr>)"

definition DeleteUser :: "string \<Rightarrow> db \<Rightarrow> (user_error + unit) \<times> db" where
  "DeleteUser email d = (case run_statement (delete_user_body email) d of
        (Inl e, d1) \<Rightarrow> (Inl (DeleteUserFailed email e), d1)
      | (Inr n, d1) \<Rightarrow> if n = 0 then (Inl (UserNotFound email), d1) else (Inr (), d1))"

definition set_role_body :: "string \<Rightarrow> string \<Rightarrow> db \<Rightarrow> (db_error + nat) \<times> db" where
  "set_role_body email role d = (Inr (length (filter (\<lambda>u. user_email u = email) (users d))),
     d\<lparr>users := update_where (\<lambda>u. user_email u = email) (\<lambda>u. u\<lparr>user_role := role\<rparr>) (users d)\<rparr>)"

definition SetUserRole :: "string \<Rightarrow> string \<Rightarrow> db \<Rightarrow> (user_error + unit) \<times> db" where
  "SetUserRole email role d = (case run_statement (set_role_body email role) d of
        (Inl e, d1) \<Rightarrow> (Inl (SetRoleFailed email e), d1)
      | (Inr n, d1) \<Rightarrow> if n = 0 then (Inl (UserNotFound email), d1) else (Inr (), d1))"

definition create_reset_body :: "string \<Rightarrow> string \<Rightarrow> int \<Rightarrow> db \<Rightarrow> (db_error + nat) \<times> db" where
  "create_reset_body email token expires d =
     (if list_ex (\<lambda>u. user_email u = email) (users d)
          \<and> list_ex (\<lambda>u. user_email u \<noteq> email \<and> user_reset_token u = Some token) (users d)
      then (Inl UniqueViolation, d)
      else (Inr (length (filter (\<lambda>u. user_email u = email) (users d))),
        d\<lparr>users := update_where (\<lambda>u. user_email u = email)
            (\<lambda>u. u\<lparr>user_reset_token := Some token, user_reset_expires := Some (timestamptz expires)\<rparr>) (users d)\<rparr>))"

definition CreateResetToken :: "int \<Rightarrow> string \<Rightarrow> string \<Rightarrow> db \<Rightarrow> (user_error + bool) \<times> db" where
  "CreateResetToken go_now email token d =
     (case run_statement (create_reset_body email token (go_now + resetTTL)) d of
        (Inl e, d1) \<Rightarrow> (Inl (CreateResetFailed email e), d1)
      | (Inr n, d1) \<Rightarrow> (Inr (n > 0), d1))"

definition reset_password_body :: "int \<Rightarrow> string \<Rightarrow> string \<Rightarrow> db \<Rightarrow> (db_error + nat) \<times> db" where
  "reset_password_body pg_now token passwordHash d =
     (Inr (length (filter (reset_matches pg_now token) (users d))),
      d\<lparr>users := update_where (reset_matches pg_now token)
          (\<lambda>u. u\<lparr>user_password_hash := Some passwordHash, user_reset_token := None,
                 user_reset_expires := None\<rparr>) (users d)\<rparr>)"

definition ResetPassword :: "int \<Rightarrow> string \<Rightarrow> string \<Rightarrow> db \<Rightarrow> (user_error + unit) \<times> db" where
  "ResetPassword pg_now token passwordHash d =
     (case run_statement (reset_password_body pg_now token passwordHash) d of
        (Inl e, d1) \<Rightarrow> (Inl (ResetFailed e), d1)
      | (Inr n, d1) \<Rightarrow> if n = 0 then (Inl ResetTokenInvalid, d1) else (Inr (), d1))"

definition CountUsers :: "db \<Rightarrow> (user_error + nat) \<times> db" where
  "CountUsers d = (case run_statement (\<lambda>d. (Inr (length (users d)), d)) d of
        (Inl e, d1) \<Rightarrow> (Inl (CountFailed e), d1)
      | (Inr n, d1) \<Rightarrow> (Inr n, d1))"

definition create_admin_body :: "int \<Rightarrow> string \<Rightarrow> string \<Rightarrow> db \<Rightarrow> (db_error + unit) \<times> db" where
  "create_admin_body pg_now email passwordHash d =
     (if list_ex (\<lambda>u. user_email u = email) (users d) then (Inl UniqueViolation, d)
      else (Inr (), d\<lparr>users := users d @ [\<lparr>user_id = next_id d, user_email = email,
              user_password_hash = Some passwordHash, user_role = ''admin'', user_invite_token = None,
              user_invite_expires = None, user_reset_token = None, user_reset_expires = None,
              user_created_at = pg_now\<rparr>], next_id := Suc (next_id d)\<rparr>))"

definition CreateAdminWithPassword :: "int \<Rightarrow> string \<Rightarrow> string \<Rightarrow> db \<Rightarrow> (user_error + unit) \<times> db" where
  "CreateAdminWithPassword pg_now email passwordHash d =
     (case run_statement (create_admin_body pg_now email passwordHash) d of
        (Inl e, d1) \<Rightarrow> (Inl (BootstrapFailed email e), d1)
      | (Inr _, d1) \<Rightarrow> (Inr (), d1))"

section \<open>The constraints are kept\<close>

lemma db_ok_users:
  "db_ok d \<Longrightarrow> users_ok (d\<lparr>users := us\<rparr>) \<Longrightarrow> db_ok (d\<lparr>users := us\<rparr>)"
  by (simp add: db_ok_def nodes_ok_def resources_ok_def node_ids_def)

lemma db_ok_users_uniqueD:
  assumes "db_ok d"
  shows "unique_on user_invite_token (users d)" "unique_on user_reset_token (users d)"
    "distinct (map user_email (users d))" "distinct (users d)"
  using assms by (auto simp: db_ok_def users_ok_def distinct_map)

lemma db_ok_update_users:
  assumes ok: "db_ok d"
    and same: "\<And>u. user_id (f u) = user_id u" "\<And>u. user_email (f u) = user_email u"
    and keys: "unique_on user_invite_token (update_where p f (users d))"
      "unique_on user_reset_token (update_where p f (users d))"
  shows "db_ok (d\<lparr>users := update_where p f (users d)\<rparr>)"
  using ok keys
  by (intro db_ok_users) (auto simp: db_ok_def users_ok_def map_update_where_same same set_update_where)

lemma users_ok_append:
  assumes "db_ok d" "user_id u = next_id d" "user_email u \<notin> user_email ` set (users d)"
    and "\<And>v k. v \<in> set (users d) \<Longrightarrow> user_invite_token v = Some k \<Longrightarrow> user_invite_token u \<noteq> Some k"
    and "\<And>v k. v \<in> set (users d) \<Longrightarrow> user_reset_token v = Some k \<Longrightarrow> user_reset_token u \<noteq> Some k"
  shows "db_ok (d\<lparr>users := users d @ [u], next_id := Suc (next_id d)\<rparr>)"
proof -
  have "users_ok (d\<lparr>users := users d @ [u], next_id := Suc (next_id d)\<rparr>)"
    using assms by (fastforce simp: db_ok_def users_ok_def)
  then show ?thesis
    using assms(1) by (auto simp: db_ok_def nodes_ok_def resources_ok_def node_ids_def less_SucI)
qed

lemma create_invite_ok: "db_ok d \<Longrightarrow> create_invite_body now em ro tok ex d = (r, d') \<Longrightarrow> db_ok d'"
  by (fastforce simp: create_invite_body_def list_ex_iff split: if_splits intro!: users_ok_append)

lemma create_admin_ok: "db_ok d \<Longrightarrow> create_admin_body now em h d = (r, d') \<Longrightarrow> db_ok d'"
  by (fastforce simp: create_admin_body_def list_ex_iff split: if_splits intro!: users_ok_append)

lemma accept_invite_ok: "db_ok d \<Longrightarrow> accept_invite_body now tok h d = (r, d') \<Longrightarrow> db_ok d'"
  by (auto simp: accept_invite_body_def unique_on_update_same db_ok_users_uniqueD
      intro!: db_ok_update_users unique_on_update_clear [of user_invite_token])

lemma reset_password_ok: "db_ok d \<Longrightarrow> reset_password_body now tok h d = (r, d') \<Longrightarrow> db_ok d'"
  by (auto simp: reset_password_body_def unique_on_update_same db_ok_users_uniqueD
      intro!: db_ok_update_users unique_on_update_clear [of user_reset_token])

lemma set_role_ok: "db_ok d \<Longrightarrow> set_role_body em ro d = (r, d') \<Longrightarrow> db_ok d'"
  by (auto simp: set_role_body_def unique_on_update_same db_ok_users_uniqueD intro!: db_ok_update_users)

lemma delete_user_ok: "db_ok d \<Longrightarrow> delete_user_body em d = (r, d') \<Longrightarrow> db_ok d'"
  by (auto simp: delete_user_body_def db_ok_def users_ok_def distinct_map_filter unique_on_filter
      intro!: db_ok_users [unfolded db_ok_def users_ok_def])

lemma create_reset_ok:
  assumes ok: "db_ok d" and run: "create_reset_body em tok ex d = (r, d')"
  shows "db_ok d'"
proof (cases "list_ex (\<lambda>u. user_email u = em) (users d)
    \<and> list_ex (\<lambda>u. user_email u \<noteq> em \<and> user_reset_token u = Some tok) (users d)")
  case True
  then show ?thesis using run ok by (simp add: create_reset_body_def)
next
  case False
  let ?f = "\<lambda>u. u\<lparr>user_reset_token := Some tok, user_reset_expires := Some (timestamptz ex)\<rparr>"
  have d': "d' = d\<lparr>users := update_where (\<lambda>u. user_email u = em) ?f (users d)\<rparr>"
    using run False unfolding create_reset_body_def by (simp only: if_False prod.inject)
  have "unique_on user_reset_token (update_where (\<lambda>u. user_email u = em) ?f (users d))"
  proof (cases "\<exists>u \<in> set (users d). user_email u = em")
    case True
    then show ?thesis
      using False db_ok_users_uniqueD [OF ok] distinct_map_key [of user_email "users d"]
      by (intro unique_on_update_one [where k = tok]) (auto simp: list_ex_iff)
  next
    case none: False
    then show ?thesis using db_ok_users_uniqueD [OF ok] by (auto simp: update_where_none)
  qed
  then show ?thesis
    unfolding d' using ok db_ok_users_uniqueD [OF ok]
    by (intro db_ok_update_users) (auto simp: unique_on_update_same)
qed

interpretation create_invite: db_operation "create_invite_body now email role token expires"
  by unfold_locales (rule create_invite_ok, assumption+, auto simp: create_invite_body_def split: if_splits)

interpretation accept_invite: db_operation "accept_invite_body now token h"
  by unfold_locales (rule accept_invite_ok, assumption+, simp add: accept_invite_body_def)

interpretation delete_user: db_operation "delete_user_body email"
  by unfold_locales (rule delete_user_ok, assumption+, simp add: delete_user_body_def)

interpretation set_role: db_operation "set_role_body email role"
  by unfold_locales (rule set_role_ok, assumption+, simp add: set_role_body_def)

interpretation create_reset: db_operation "create_reset_body email token expires"
  by unfold_locales (rule create_reset_ok, assumption+, auto simp: create_reset_body_def split: if_splits)

interpretation reset_password: db_operation "reset_password_body now token h"
  by unfold_locales (rule reset_password_ok, assumption+, simp add: reset_password_body_def)

interpretation create_admin: db_operation "create_admin_body now email h"
  by unfold_locales (rule create_admin_ok, assumption+, auto simp: create_admin_body_def split: if_splits)

lemmas user_op_defs = CreateInvite_def AcceptInvite_def DeleteUser_def SetUserRole_def CreateResetToken_def
  ResetPassword_def CreateAdminWithPassword_def

lemma CreateInvite_ok: "db_ok d \<Longrightarrow> CreateInvite t now em ro tok d = (r, d') \<Longrightarrow> db_ok d'"
  by (auto simp: CreateInvite_def split: prod.splits sum.splits dest: create_invite.run_ok)

lemma AcceptInvite_ok: "db_ok d \<Longrightarrow> AcceptInvite now tok h d = (r, d') \<Longrightarrow> db_ok d'"
  by (auto simp: AcceptInvite_def split: prod.splits sum.splits if_splits dest: accept_invite.run_ok)

lemma DeleteUser_ok: "db_ok d \<Longrightarrow> DeleteUser em d = (r, d') \<Longrightarrow> db_ok d'"
  by (auto simp: DeleteUser_def split: prod.splits sum.splits if_splits dest: delete_user.run_ok)

lemma SetUserRole_ok: "db_ok d \<Longrightarrow> SetUserRole em ro d = (r, d') \<Longrightarrow> db_ok d'"
  by (auto simp: SetUserRole_def split: prod.splits sum.splits if_splits dest: set_role.run_ok)

lemma CreateResetToken_ok: "db_ok d \<Longrightarrow> CreateResetToken t em tok d = (r, d') \<Longrightarrow> db_ok d'"
  by (auto simp: CreateResetToken_def split: prod.splits sum.splits dest: create_reset.run_ok)

lemma ResetPassword_ok: "db_ok d \<Longrightarrow> ResetPassword now tok h d = (r, d') \<Longrightarrow> db_ok d'"
  by (auto simp: ResetPassword_def split: prod.splits sum.splits if_splits dest: reset_password.run_ok)

lemma CreateAdmin_ok: "db_ok d \<Longrightarrow> CreateAdminWithPassword now em h d = (r, d') \<Longrightarrow> db_ok d'"
  by (auto simp: CreateAdminWithPassword_def split: prod.splits sum.splits dest: create_admin.run_ok)

section \<open>A token is redeemed once\<close>

text \<open>
  The contract the two token flows share: a redeemed token was held by a row, and no row
  holds it afterwards. Whatever operations follow, as long as none of them issues the token
  again, it is never redeemed again.
\<close>

definition holds_token :: "(UserRow \<Rightarrow> string option) \<Rightarrow> string \<Rightarrow> db \<Rightarrow> bool" where
  "holds_token key tok d \<longleftrightarrow> list_ex (\<lambda>u. key u = Some tok) (users d)"

locale token_redeem =
  fixes redeem :: "int \<Rightarrow> string \<Rightarrow> string \<Rightarrow> db \<Rightarrow> (user_error + unit) \<times> db"
    and key :: "UserRow \<Rightarrow> string option"
  assumes redeem_holder: "redeem now tok h d = (Inr (), d') \<Longrightarrow> holds_token key tok d"
    and redeem_spends: "db_ok d \<Longrightarrow> redeem now tok h d = (Inr (), d') \<Longrightarrow> \<not> holds_token key tok d'"
begin

lemma spent_stays_spent:
  assumes "\<And>f d. f \<in> set fs \<Longrightarrow> \<not> holds_token key tok d \<Longrightarrow> \<not> holds_token key tok (f d)"
    and "\<not> holds_token key tok d"
  shows "\<not> holds_token key tok (fold (\<lambda>f. f) fs d)"
  using assms by (induction fs arbitrary: d) auto

lemma single_use:
  assumes "db_ok d" "redeem now tok h d = (Inr (), d1)"
    and "\<And>f d. f \<in> set fs \<Longrightarrow> \<not> holds_token key tok d \<Longrightarrow> \<not> holds_token key tok (f d)"
  shows "fst (redeem now' tok h' (fold (\<lambda>f. f) fs d1)) \<noteq> Inr ()"
proof
  assume "fst (redeem now' tok h' (fold (\<lambda>f. f) fs d1)) = Inr ()"
  then have "redeem now' tok h' (fold (\<lambda>f. f) fs d1)
      = (Inr (), snd (redeem now' tok h' (fold (\<lambda>f. f) fs d1)))" by (metis prod.collapse)
  then have "holds_token key tok (fold (\<lambda>f. f) fs d1)" by (rule redeem_holder)
  moreover have "\<not> holds_token key tok (fold (\<lambda>f. f) fs d1)"
    using assms(3) redeem_spends [OF assms(1,2)] by (rule spent_stays_spent)
  ultimately show False by simp
qed

end

lemma run_statement_users:
  assumes "run_statement body d = (r, d')"
  shows "(r = Inl Unserved \<and> users d' = users d)
    \<or> (\<exists>d1. users d1 = users d \<and> next_id d1 = next_id d \<and> (db_ok d1 = db_ok d) \<and> body d1 = (r, d'))"
  using assms by (rule run_statement_cases) (metis statement_tables(4,5) statement_ok)+

lemma AcceptInvite_success:
  assumes "AcceptInvite now tok h d = (Inr (), d')"
  shows "\<exists>u \<in> set (users d). invite_matches now tok u"
    and "users d' = update_where (invite_matches now tok)
      (\<lambda>u. u\<lparr>user_password_hash := Some h, user_invite_token := None, user_invite_expires := None\<rparr>) (users d)"
  using assms
  by (auto simp: AcceptInvite_def accept_invite_body_def filter_empty_conv
      split: prod.splits sum.splits if_splits dest!: run_statement_users)

lemma ResetPassword_success:
  assumes "ResetPassword now tok h d = (Inr (), d')"
  shows "\<exists>u \<in> set (users d). reset_matches now tok u"
    and "users d' = update_where (reset_matches now tok)
      (\<lambda>u. u\<lparr>user_password_hash := Some h, user_reset_token := None, user_reset_expires := None\<rparr>) (users d)"
  using assms
  by (auto simp: ResetPassword_def reset_password_body_def filter_empty_conv
      split: prod.splits sum.splits if_splits dest!: run_statement_users)

interpretation invite_flow: token_redeem AcceptInvite user_invite_token
proof
  fix now tok h d d' assume run: "AcceptInvite now tok h d = (Inr (), d')"
  note ok = AcceptInvite_success [OF run]
  show "holds_token user_invite_token tok d"
    using ok(1) by (auto simp: holds_token_def list_ex_iff invite_matches_def)
  assume "db_ok d"
  then have uniq: "unique_on user_invite_token (users d)" by (rule db_ok_users_uniqueD)
  have "u = v" if "u \<in> set (users d)" "v \<in> set (users d)" "user_invite_token u = Some tok" "user_invite_token v = Some tok" for u v
    using uniq that by (rule unique_onD)
  then show "\<not> holds_token user_invite_token tok d'"
    using ok(1) unfolding holds_token_def list_ex_iff ok(2) set_update_where invite_matches_def by fastforce
qed

interpretation reset_flow: token_redeem ResetPassword user_reset_token
proof
  fix now tok h d d' assume run: "ResetPassword now tok h d = (Inr (), d')"
  note ok = ResetPassword_success [OF run]
  show "holds_token user_reset_token tok d"
    using ok(1) by (auto simp: holds_token_def list_ex_iff reset_matches_def)
  assume "db_ok d"
  then have uniq: "unique_on user_reset_token (users d)" by (rule db_ok_users_uniqueD)
  have "u = v" if "u \<in> set (users d)" "v \<in> set (users d)" "user_reset_token u = Some tok" "user_reset_token v = Some tok" for u v
    using uniq that by (rule unique_onD)
  then show "\<not> holds_token user_reset_token tok d'"
    using ok(1) unfolding holds_token_def list_ex_iff ok(2) set_update_where reset_matches_def by fastforce
qed

text \<open>The package's operations on users as one alphabet.\<close>

datatype user_op =
    Invite int int string string string
  | Accept int string string
  | Remove string
  | ChangeRole string string
  | Forgot int string string
  | Reset int string string
  | Bootstrap int string string

fun user_step :: "user_op \<Rightarrow> db \<Rightarrow> db" where
  "user_step (Invite t now em ro tok) d = snd (CreateInvite t now em ro tok d)"
| "user_step (Accept now tok h) d = snd (AcceptInvite now tok h d)"
| "user_step (Remove em) d = snd (DeleteUser em d)"
| "user_step (ChangeRole em ro) d = snd (SetUserRole em ro d)"
| "user_step (Forgot t em tok) d = snd (CreateResetToken t em tok d)"
| "user_step (Reset now tok h) d = snd (ResetPassword now tok h d)"
| "user_step (Bootstrap now em h) d = snd (CreateAdminWithPassword now em h d)"

definition run_user_ops :: "user_op list \<Rightarrow> db \<Rightarrow> db" where
  "run_user_ops ops d = fold user_step ops d"

fun issues_invite :: "string \<Rightarrow> user_op \<Rightarrow> bool" where
  "issues_invite tok (Invite t now em ro tok') = (tok' = tok)"
| "issues_invite tok _ = False"

fun issues_reset :: "string \<Rightarrow> user_op \<Rightarrow> bool" where
  "issues_reset tok (Forgot t em tok') = (tok' = tok)"
| "issues_reset tok _ = False"

lemmas user_body_defs = create_invite_body_def accept_invite_body_def delete_user_body_def set_role_body_def
  create_reset_body_def reset_password_body_def create_admin_body_def

lemma user_step_db_ok: "db_ok d \<Longrightarrow> db_ok (user_step op d)"
  by (cases op) (auto intro: CreateInvite_ok AcceptInvite_ok DeleteUser_ok SetUserRole_ok
      CreateResetToken_ok ResetPassword_ok CreateAdmin_ok [OF _ prod.collapse [symmetric]] prod.collapse [symmetric])

text \<open>What an operation leaves behind is what its statement leaves behind.\<close>

lemma user_op_snd:
  "snd (CreateInvite t now em ro tok d) = snd (run_statement (create_invite_body now em ro tok (t + inviteTTL)) d)"
  "snd (AcceptInvite now tok h d) = snd (run_statement (accept_invite_body now tok h) d)"
  "snd (DeleteUser em d) = snd (run_statement (delete_user_body em) d)"
  "snd (SetUserRole em ro d) = snd (run_statement (set_role_body em ro) d)"
  "snd (CreateResetToken t em tok d) = snd (run_statement (create_reset_body em tok (t + resetTTL)) d)"
  "snd (ResetPassword now tok h d) = snd (run_statement (reset_password_body now tok h) d)"
  "snd (CreateAdminWithPassword now em h d) = snd (run_statement (create_admin_body now em h) d)"
  by (simp_all add: user_op_defs split: prod.split sum.split)

lemma run_statement_keeps:
  assumes "P (users d)" "\<And>d1. users d1 = users d \<Longrightarrow> P (users (snd (body d1)))"
  shows "P (users (snd (run_statement body d)))"
  using assms by (cases "statement d") (auto simp: run_statement_def statement_tables)

lemma ball_update_where:
  "(\<forall>x \<in> set (update_where p f xs). q x) \<longleftrightarrow> (\<forall>x \<in> set xs. q (if p x then f x else x))"
  by (induction xs) auto

lemma user_step_invite:
  assumes "\<not> issues_invite tok op" "\<not> holds_token user_invite_token tok d"
  shows "\<not> holds_token user_invite_token tok (user_step op d)"
  using assms unfolding holds_token_def list_ex_iff
  by (cases op; simp add: user_op_snd; intro run_statement_keeps [where P = "\<lambda>us. \<forall>u \<in> set us. user_invite_token u \<noteq> Some tok"])
     (simp_all add: user_body_defs ball_update_where)

lemma user_step_reset:
  assumes "\<not> issues_reset tok op" "\<not> holds_token user_reset_token tok d"
  shows "\<not> holds_token user_reset_token tok (user_step op d)"
  using assms unfolding holds_token_def list_ex_iff
  by (cases op; simp add: user_op_snd; intro run_statement_keeps [where P = "\<lambda>us. \<forall>u \<in> set us. user_reset_token u \<noteq> Some tok"])
     (simp_all add: user_body_defs ball_update_where)

lemma run_user_ops_conv: "run_user_ops ops d = fold (\<lambda>f. f) (map user_step ops) d"
  by (simp add: run_user_ops_def fold_map comp_def)

lemma invite_single_use:
  assumes "db_ok d" "AcceptInvite now tok h d = (Inr (), d1)" "\<And>op. op \<in> set ops \<Longrightarrow> \<not> issues_invite tok op"
  shows "fst (AcceptInvite now' tok h' (run_user_ops ops d1)) \<noteq> Inr ()"
  unfolding run_user_ops_conv using assms by (intro invite_flow.single_use) (auto simp: user_step_invite)

lemma reset_single_use:
  assumes "db_ok d" "ResetPassword now tok h d = (Inr (), d1)" "\<And>op. op \<in> set ops \<Longrightarrow> \<not> issues_reset tok op"
  shows "fst (ResetPassword now' tok h' (run_user_ops ops d1)) \<noteq> Inr ()"
  unfolding run_user_ops_conv using assms by (intro reset_flow.single_use) (auto simp: user_step_reset)

section \<open>Lookups\<close>

text \<open>A reset request for an unknown address changes nothing; a known address is found.\<close>

lemma forgot_unknown:
  assumes "faults d = []" "em \<notin> user_email ` set (users d)"
  shows "CreateResetToken t em tok d = (Inr False, d)"
proof -
  have "\<not> (\<exists>u \<in> set (users d). user_email u = em)" using assms(2) by auto
  then have "\<not> list_ex (\<lambda>u. user_email u = em) (users d)" "filter (\<lambda>u. user_email u = em) (users d) = []"
    "update_where (\<lambda>u. user_email u = em) f (users d) = users d" for f
    by (auto simp: list_ex_iff filter_empty_conv update_where_none)
  then show ?thesis
    by (simp add: CreateResetToken_def run_statement_served [OF assms(1)] create_reset_body_def)
qed

lemma UserByEmail_found:
  assumes "db_ok d" "faults d = []" "u \<in> set (users d)"
  shows "UserByEmail (user_email u) d = (Some (to_User u, deref [] (user_password_hash u)), d)"
  using distinct_map_find [OF db_ok_users_uniqueD(3) [OF assms(1)], of "user_email u" u] assms(2,3)
  by (simp add: UserByEmail_def run_statement_served)

text \<open>
  An invite outlives a password reset: \<open>AcceptInvite\<close> does not ask whether the user is still
  pending, so whoever holds the invite can replace a password that was set in the meantime.
\<close>

lemma accept_ignores_password:
  assumes "u \<in> set (users d)" "invite_matches now tok u" "faults d = []"
  shows "fst (AcceptInvite now tok h d) = Inr ()"
  using assms by (auto simp: AcceptInvite_def run_statement_served accept_invite_body_def filter_empty_conv)

end
