(* ===== verification/JsonText.thy ===== *)
theory JsonText
  imports Json
begin

text \<open>
  JSON texts: what \<open>json.Marshal\<close> writes (compact, with the HTML-safe escapes) and what
  \<open>json.Unmarshal\<close> reads. Texts are byte strings; bytes from 0x80 up pass through as they
  are, so the texts are taken to be valid UTF-8 without U+2028 and U+2029. The parser has
  fuel for its nesting; \<open>parse_json\<close> gives it the length of the text, and
  \<open>value_of_enough\<close> shows that more fuel makes no difference for any text. What is printed
  is read back (\<open>parse_print\<close>).
\<close>

section \<open>Printing\<close>

definition hex_digit :: "nat \<Rightarrow> char" where
  "hex_digit n = char_of (if n < 10 then 48 + n else 87 + n)"

definition escape_char :: "char \<Rightarrow> string" where
  "escape_char c =
     (if c = CHR 0x22 \<or> c = CHR 0x5C then [CHR 0x5C, c]
      else if c = CHR 0x08 then [CHR 0x5C, CHR ''b'']
      else if c = CHR 0x0C then [CHR 0x5C, CHR ''f'']
      else if c = CHR 0x0A then [CHR 0x5C, CHR ''n'']
      else if c = CHR 0x0D then [CHR 0x5C, CHR ''r'']
      else if c = CHR 0x09 then [CHR 0x5C, CHR ''t'']
      else if of_char c < (32 :: nat) \<or> c = CHR ''<'' \<or> c = CHR ''>'' \<or> c = CHR ''&''
        then [CHR 0x5C, CHR ''u'', CHR ''0'', CHR ''0'', hex_digit (of_char c div 16), hex_digit (of_char c mod 16)]
      else [c])"

definition quote :: "string \<Rightarrow> string" where
  "quote s = CHR 0x22 # concat (map escape_char s) @ [CHR 0x22]"

text \<open>No number that is not an integer is ever printed by the program.\<close>

fun print_json :: "json \<Rightarrow> string" where
  "print_json JNull = ''null''"
| "print_json (JBool b) = (if b then ''true'' else ''false'')"
| "print_json (JInt i) = Itoa i"
| "print_json JNum = []"
| "print_json (JStr s) = quote s"
| "print_json (JArr xs) = CHR ''['' # Join (map print_json xs) '','' @ '']''"
| "print_json (JObj kvs) = CHR ''{'' # Join (map (\<lambda>(k, v). quote k @ CHR '':'' # print_json v) kvs) '','' @ ''}''"

fun printable :: "json \<Rightarrow> bool" where
  "printable JNum = False"
| "printable (JArr xs) = list_all printable xs"
| "printable (JObj kvs) = list_all (\<lambda>(k, v). printable v) kvs"
| "printable _ = True"

section \<open>Parsing\<close>

definition json_space :: "char \<Rightarrow> bool" where
  "json_space c \<longleftrightarrow> c = CHR '' '' \<or> c = CHR 0x09 \<or> c = CHR 0x0A \<or> c = CHR 0x0D"

definition skip :: "string \<Rightarrow> string" where
  "skip s = dropWhile json_space s"

definition hex_val :: "char \<Rightarrow> nat option" where
  "hex_val c = (let n = of_char c in
     if 48 \<le> n \<and> n \<le> 57 then Some (n - 48) else if 97 \<le> n \<and> n \<le> 102 then Some (n - 87)
     else if 65 \<le> n \<and> n \<le> 70 then Some (n - 55) else None)"

definition hex4 :: "char \<Rightarrow> char \<Rightarrow> char \<Rightarrow> char \<Rightarrow> nat option" where
  "hex4 a b c d = (case (hex_val a, hex_val b, hex_val c, hex_val d) of
     (Some w, Some x, Some y, Some z) \<Rightarrow> Some (((w * 16 + x) * 16 + y) * 16 + z) | _ \<Rightarrow> None)"

definition utf8 :: "nat \<Rightarrow> string" where
  "utf8 n = map char_of
     (if n < 0x80 then [n]
      else if n < 0x800 then [0xC0 + n div 64, 0x80 + n mod 64]
      else if n < 0x10000 then [0xE0 + n div 4096, 0x80 + n div 64 mod 64, 0x80 + n mod 64]
      else [0xF0 + n div 262144, 0x80 + n div 4096 mod 64, 0x80 + n div 64 mod 64, 0x80 + n mod 64])"

definition unescape :: "char \<Rightarrow> char option" where
  "unescape c = (if c = CHR 0x22 \<or> c = CHR 0x5C \<or> c = CHR ''/'' then Some c
     else if c = CHR ''b'' then Some (CHR 0x08) else if c = CHR ''f'' then Some (CHR 0x0C)
     else if c = CHR ''n'' then Some (CHR 0x0A) else if c = CHR ''r'' then Some (CHR 0x0D)
     else if c = CHR ''t'' then Some (CHR 0x09) else None)"

text \<open>A surrogate pair is one code point; a lone surrogate becomes U+FFFD.\<close>

definition low_surrogate :: "string \<Rightarrow> (nat \<times> string) option" where
  "low_surrogate s = (case s of
       b # u # a1 # a2 # a3 # a4 # r \<Rightarrow> if b = CHR 0x5C \<and> u = CHR ''u'' then
         (case hex4 a1 a2 a3 a4 of Some m \<Rightarrow> if 0xDC00 \<le> m \<and> m < 0xE000 then Some (m, r) else None | None \<Rightarrow> None)
         else None
     | _ \<Rightarrow> None)"

lemma low_surrogate_shorter: "low_surrogate s = Some (m, r) \<Longrightarrow> length r < length s"
  by (auto simp: low_surrogate_def split: list.splits if_splits option.splits)

function parse_str :: "string \<Rightarrow> (string \<times> string) option" where
  "parse_str [] = None"
| "parse_str (c # cs) =
     (if c = CHR 0x22 then Some ([], cs)
      else if c = CHR 0x5C then
        (case cs of [] \<Rightarrow> None
         | e # es \<Rightarrow>
           if e = CHR ''u'' then
             (case es of a1 # a2 # a3 # a4 # r \<Rightarrow>
                (case hex4 a1 a2 a3 a4 of None \<Rightarrow> None
                 | Some n \<Rightarrow>
                   if 0xD800 \<le> n \<and> n < 0xE000 then
                     (case (if n < 0xDC00 then low_surrogate r else None) of
                        Some (m, r') \<Rightarrow> map_option (apfst ((@) (utf8 (0x10000 + (n - 0xD800) * 0x400 + (m - 0xDC00))))) (parse_str r')
                      | None \<Rightarrow> map_option (apfst ((@) (utf8 0xFFFD))) (parse_str r))
                   else map_option (apfst ((@) (utf8 n))) (parse_str r))
              | _ \<Rightarrow> None)
           else (case unescape e of None \<Rightarrow> None
                 | Some c' \<Rightarrow> map_option (apfst ((#) c')) (parse_str es)))
      else if of_char c < (32 :: nat) then None
      else map_option (apfst ((#) c)) (parse_str cs))"
  by pat_completeness auto

termination
  by (relation "measure length") (auto split: if_splits dest!: low_surrogate_shorter)

definition parse_number :: "string \<Rightarrow> (json \<times> string) option" where
  "parse_number s =
     (let (neg, s1) = (case s of c # t \<Rightarrow> if c = CHR ''-'' then (True, t) else (False, s) | [] \<Rightarrow> (False, s));
          ds = takeWhile is_digit s1; s2 = dropWhile is_digit s1;
          n = foldl (\<lambda>n c. 10 * n + digit_val c) 0 ds
      in if ds = [] \<or> (hd ds = CHR ''0'' \<and> tl ds \<noteq> []) then None
         else
           (let (fok, frac, s3) = (case s2 of c # t \<Rightarrow> if c = CHR ''.''
                  then (takeWhile is_digit t \<noteq> [], True, dropWhile is_digit t) else (True, False, s2)
                | [] \<Rightarrow> (True, False, s2));
                (eok, ex, s4) = (case s3 of c # t \<Rightarrow> if c = CHR ''e'' \<or> c = CHR ''E''
                  then (let t' = (case t of x # y \<Rightarrow> if x = CHR ''+'' \<or> x = CHR ''-'' then y else t | [] \<Rightarrow> t)
                        in (takeWhile is_digit t' \<noteq> [], True, dropWhile is_digit t')) else (True, False, s3)
                | [] \<Rightarrow> (True, False, s3))
            in if \<not> fok \<or> \<not> eok then None
               else Some (if frac \<or> ex then JNum else JInt (if neg then - int n else int n), s4)))"

fun value_of :: "nat \<Rightarrow> string \<Rightarrow> (json \<times> string) option"
  and elems_of :: "nat \<Rightarrow> string \<Rightarrow> (json list \<times> string) option"
  and members_of :: "nat \<Rightarrow> string \<Rightarrow> ((string \<times> json) list \<times> string) option" where
  "value_of 0 s = None"
| "value_of (Suc n) s = (case skip s of
       [] \<Rightarrow> None
     | c # cs \<Rightarrow>
       if c = CHR 0x22 then map_option (apfst JStr) (parse_str cs)
       else if c = CHR ''['' then (case skip cs of
           [] \<Rightarrow> None
         | c' # cs' \<Rightarrow> if c' = CHR '']'' then Some (JArr [], cs') else map_option (apfst JArr) (elems_of n cs))
       else if c = CHR ''{'' then (case skip cs of
           [] \<Rightarrow> None
         | c' # cs' \<Rightarrow> if c' = CHR ''}'' then Some (JObj [], cs') else map_option (apfst JObj) (members_of n cs))
       else if c = CHR ''n'' then map_option (Pair JNull) (CutPrefix cs ''ull'')
       else if c = CHR ''t'' then map_option (Pair (JBool True)) (CutPrefix cs ''rue'')
       else if c = CHR ''f'' then map_option (Pair (JBool False)) (CutPrefix cs ''alse'')
       else parse_number (c # cs))"
| "elems_of 0 s = None"
| "elems_of (Suc n) s = (case value_of n s of
       None \<Rightarrow> None
     | Some (v, r) \<Rightarrow> (case skip r of
         [] \<Rightarrow> None
       | c # cs \<Rightarrow> if c = CHR '']'' then Some ([v], cs)
           else if c = CHR '','' then map_option (apfst ((#) v)) (elems_of n cs)
           else None))"
| "members_of 0 s = None"
| "members_of (Suc n) s = (case skip s of
       [] \<Rightarrow> None
     | q # qs \<Rightarrow> if q \<noteq> CHR 0x22 then None else (case parse_str qs of
         None \<Rightarrow> None
       | Some (k, r) \<Rightarrow> (case skip r of
           [] \<Rightarrow> None
         | c # cs \<Rightarrow> if c \<noteq> CHR '':'' then None else (case value_of n cs of
             None \<Rightarrow> None
           | Some (v, r') \<Rightarrow> (case skip r' of
               [] \<Rightarrow> None
             | c' # cs' \<Rightarrow> if c' = CHR ''}'' then Some ([(k, v)], cs')
                 else if c' = CHR '','' then map_option (apfst ((#) (k, v))) (members_of n cs')
                 else None)))))"

definition parse_json :: "string \<Rightarrow> json option" where
  "parse_json s = (case value_of (Suc (length s)) s of
     Some (v, r) \<Rightarrow> if skip r = [] then Some v else None | None \<Rightarrow> None)"

declare parse_str.simps(2) [simp del]

section \<open>What is printed is read back\<close>

lemma hex_val_hex_digit [simp]: "d < 16 \<Longrightarrow> hex_val (hex_digit d) = Some d"
  by (auto simp: hex_val_def hex_digit_def Let_def)

lemma hex4_byte: "n < 256 \<Longrightarrow> hex4 (CHR ''0'') (CHR ''0'') (hex_digit (n div 16)) (hex_digit (n mod 16)) = Some n"
proof -
  assume "n < 256"
  then have "n div 16 < 16" by simp
  moreover have "hex_val (CHR ''0'') = Some 0" by (simp add: hex_val_def Let_def)
  ultimately show ?thesis by (simp add: hex4_def)
qed

lemma utf8_ascii: "n < 128 \<Longrightarrow> utf8 n = [char_of n]"
  by (simp add: utf8_def)

lemma parse_str_escape:
  "parse_str (escape_char c @ t) = map_option (apfst ((#) c)) (parse_str t)"
proof (cases "of_char c < (32 :: nat) \<or> c = CHR ''<'' \<or> c = CHR ''>'' \<or> c = CHR ''&''")
  case True
  then have n: "of_char c < (128 :: nat)" by auto
  have h: "hex4 (CHR ''0'') (CHR ''0'') (hex_digit (of_char c div 16)) (hex_digit (of_char c mod 16)) = Some (of_char c)"
    using n by (intro hex4_byte) simp
  show ?thesis
  proof (cases "c = CHR 0x22 \<or> c = CHR 0x5C \<or> c = CHR 0x08 \<or> c = CHR 0x0C \<or> c = CHR 0x0A \<or> c = CHR 0x0D \<or> c = CHR 0x09")
    case True
    then show ?thesis by (elim disjE) (simp_all add: escape_char_def parse_str.simps(2) unescape_def)
  next
    case False
    have "utf8 (of_char c) = [c]" using n by (simp add: utf8_ascii)
    moreover have "\<not> 0xD800 \<le> (of_char c :: nat)" using n by simp
    moreover have "(@) [c] = (#) c" by (simp add: fun_eq_iff)
    ultimately show ?thesis
      using True False h by (simp add: escape_char_def parse_str.simps(2))
  qed
next
  case False
  then show ?thesis by (auto simp: escape_char_def parse_str.simps(2) unescape_def)
qed

lemma parse_str_quoted: "parse_str (concat (map escape_char s) @ CHR 0x22 # r) = Some (s, r)"
  by (induction s) (simp_all add: parse_str_escape parse_str.simps(2))

text \<open>A number ends where its text cannot go on.\<close>

definition number_ends :: "string \<Rightarrow> bool" where
  "number_ends r \<longleftrightarrow> (case r of [] \<Rightarrow> True | c # _ \<Rightarrow> \<not> is_digit c \<and> c \<noteq> CHR ''.'' \<and> c \<noteq> CHR ''e'' \<and> c \<noteq> CHR ''E'')"

lemma number_ends_simps [simp]:
  "number_ends []" "number_ends (CHR '','' # r)" "number_ends (CHR '']'' # r)" "number_ends (CHR ''}'' # r)"
  by (simp_all add: number_ends_def is_digit_def)

lemma FormatNat_zero_head: "hd (FormatNat n) = CHR ''0'' \<Longrightarrow> tl (FormatNat n) = []"
proof (induction n rule: FormatNat.induct)
  case (1 n)
  show ?case
  proof (cases "n < 10")
    case False
    have "hd (FormatNat (n div 10)) \<noteq> CHR ''0''"
    proof
      assume z: "hd (FormatNat (n div 10)) = CHR ''0''"
      then have "tl (FormatNat (n div 10)) = []" using 1 False by simp
      then have "FormatNat (n div 10) = [CHR ''0'']" using z by (cases "FormatNat (n div 10)") auto
      also have "\<dots> = FormatNat 0"
        using char_of_char [of "CHR ''0''", where 'a = nat] by (simp add: FormatNat.simps [of 0] digit_char_def)
      finally show False using False by simp
    qed
    then show ?thesis using 1(2) False by (simp add: FormatNat.simps [of n])
  qed (simp add: FormatNat.simps [of n])
qed

lemma takeWhile_digits:
  "number_ends r \<Longrightarrow> takeWhile is_digit (FormatNat n @ r) = FormatNat n \<and> dropWhile is_digit (FormatNat n @ r) = r"
  using FormatNat_digits [of n]
  by (cases r) (auto simp: number_ends_def list_all_iff takeWhile_append dropWhile_append)

lemma parse_number_Itoa:
  assumes "number_ends r"
  shows "parse_number (Itoa i @ r) = Some (JInt i, r)"
proof -
  have tail: "(case r of [] \<Rightarrow> (True, False, r) | c # t \<Rightarrow> if c = CHR ''.'' then f c t else (True, False, r)) = (True, False, r)"
    "(case r of [] \<Rightarrow> (True, False, r) | c # t \<Rightarrow> if c = CHR ''e'' \<or> c = CHR ''E'' then f c t else (True, False, r)) = (True, False, r)" for f
    using assms by (auto simp: number_ends_def split: list.splits)
  have td: "takeWhile is_digit (FormatNat n @ r) = FormatNat n" "dropWhile is_digit (FormatNat n @ r) = r" for n
    using takeWhile_digits [OF assms] by simp_all
  have lz: "\<not> (hd (FormatNat n) = CHR ''0'' \<and> tl (FormatNat n) \<noteq> [])" for n
    using FormatNat_zero_head by blast
  obtain c t where ct: "FormatNat (nat i) = c # t" by (cases "FormatNat (nat i)") auto
  then have "c \<noteq> CHR ''-''" using FormatNat_sign(1) [of "nat i" t] by auto
  then have sign: "(case FormatNat (nat i) @ r of [] \<Rightarrow> (False, FormatNat (nat i) @ r)
      | c # t \<Rightarrow> if c = CHR ''-'' then (True, t) else (False, FormatNat (nat i) @ r)) = (False, FormatNat (nat i) @ r)"
    by (simp add: ct)
  show ?thesis
    by (cases "i < 0") (simp_all only: Itoa_def if_True if_False append_Cons list.case sign parse_number_def Let_def
        prod.case td FormatNat_not_Nil lz foldl_FormatNat tail HOL.simp_thms, simp_all)
qed

lemma skip_simps [simp]: "skip [] = []" "skip (c # t) = (if json_space c then skip t else c # t)"
  by (simp_all add: skip_def)

lemma not_json_space [simp]:
  "\<not> json_space (CHR 0x22)" "\<not> json_space (CHR ''['')" "\<not> json_space (CHR '']'')" "\<not> json_space (CHR ''{'')"
  "\<not> json_space (CHR ''}'')" "\<not> json_space (CHR '','')" "\<not> json_space (CHR '':'')" "\<not> json_space (CHR ''n'')"
  "\<not> json_space (CHR ''t'')" "\<not> json_space (CHR ''f'')"
  by (simp_all add: json_space_def)

lemma Itoa_head: "\<exists>c t. Itoa i = c # t \<and> (is_digit c \<or> c = CHR ''-'')"
  using FormatNat_hd [of "nat i"] by (cases "FormatNat (nat i)") (auto simp: Itoa_def)

lemma digit_head: "is_digit c \<or> c = CHR ''-'' \<Longrightarrow> \<not> json_space c \<and> c \<notin> {CHR 0x22, CHR ''['', CHR '']'', CHR ''{'',
    CHR ''}'', CHR ''n'', CHR ''t'', CHR ''f''}"
  by (auto simp: is_digit_def json_space_def)

lemma print_head: "printable v \<Longrightarrow> \<exists>c t. print_json v = c # t \<and> \<not> json_space c \<and> c \<noteq> CHR '']''"
  using Itoa_head digit_head by (cases v) (auto simp: quote_def, metis)

lemma print_length: "printable v \<Longrightarrow> 0 < length (print_json v)"
  using print_head [of v] by auto

lemma Join_Cons: "Join (x # xs) sep = x @ (if xs = [] then [] else sep @ Join xs sep)"
  by (cases xs) auto

lemma value_of_Itoa: "number_ends r \<Longrightarrow> value_of (Suc n) (Itoa i @ r) = Some (JInt i, r)"
proof -
  assume r: "number_ends r"
  obtain c t where ct: "Itoa i = c # t" "is_digit c \<or> c = CHR ''-''" using Itoa_head by blast
  then show ?thesis using digit_head [OF ct(2)] parse_number_Itoa [OF r, of i] by simp
qed

lemma parse_fuel:
  shows "printable v \<Longrightarrow> length (print_json v) < n \<Longrightarrow> number_ends r \<Longrightarrow>
      value_of n (print_json v @ r) = Some (v, r)"
    and "xs \<noteq> [] \<Longrightarrow> list_all printable xs \<Longrightarrow> length (Join (map print_json xs) '','') + 1 < n \<Longrightarrow>
      elems_of n (Join (map print_json xs) '','' @ CHR '']'' # r) = Some (xs, r)"
    and "kvs \<noteq> [] \<Longrightarrow> list_all (\<lambda>(k, v). printable v) kvs \<Longrightarrow>
      length (Join (map (\<lambda>(k, v). quote k @ CHR '':'' # print_json v) kvs) '','') + 1 < n \<Longrightarrow>
      members_of n (Join (map (\<lambda>(k, v). quote k @ CHR '':'' # print_json v) kvs) '','' @ CHR ''}'' # r) = Some (kvs, r)"
proof (induction n arbitrary: v xs kvs r)
  case (Suc n)
  note val = Suc.IH(1) and els = Suc.IH(2) and mems = Suc.IH(3)
  {
    case 1
    show ?case
    proof (cases v)
      case (JInt i)
      then show ?thesis using 1(3) by (simp only: print_json.simps value_of_Itoa)
    next
      case (JStr s)
      then show ?thesis by (simp add: quote_def parse_str_quoted)
    next
      case (JArr xs)
      show ?thesis
      proof (cases "xs = []")
        case False
        then obtain x ys where xs: "xs = x # ys" by (cases xs) auto
        obtain c t where ct: "print_json x = c # t" "\<not> json_space c" "c \<noteq> CHR '']''"
          using print_head [of x] 1(1) JArr xs by auto
        have "elems_of n (Join (map print_json xs) '','' @ CHR '']'' # r) = Some (xs, r)"
          using 1(1,2) JArr False by (intro els) auto
        moreover have "\<exists>u. Join (map print_json xs) '','' = c # u" by (simp add: xs Join_Cons ct)
        ultimately show ?thesis using ct by (auto simp: JArr)
      qed (simp add: JArr)
    next
      case (JObj kvs)
      show ?thesis
      proof (cases "kvs = []")
        case False
        then obtain k w ys where kvs: "kvs = (k, w) # ys" by (cases kvs) auto
        have "members_of n (Join (map (\<lambda>(k, v). quote k @ CHR '':'' # print_json v) kvs) '','' @ CHR ''}'' # r) = Some (kvs, r)"
          using 1(1,2) JObj False by (intro mems) auto
        moreover have "\<exists>u. Join (map (\<lambda>(k, v). quote k @ CHR '':'' # print_json v) kvs) '','' = CHR 0x22 # u"
          by (simp add: kvs Join_Cons quote_def)
        ultimately show ?thesis by (auto simp: JObj)
      qed (simp add: JObj)
    qed (use 1(1) in auto)
  next
    case 2
    obtain x ys where xs: "xs = x # ys" using 2(1) by (cases xs) auto
    have px: "printable x" and len: "length (print_json x) < n" using 2(2,3) xs by (auto simp: Join_Cons)
    show ?case
    proof (cases "ys = []")
      case True
      then show ?thesis using val [OF px len, of "CHR '']'' # r"] by (simp add: xs)
    next
      case False
      have "elems_of n (Join (map print_json ys) '','' @ CHR '']'' # r) = Some (ys, r)"
        using 2(2,3) xs False print_length [OF px] by (intro els) (auto simp: Join_Cons)
      then show ?thesis
        using False val [OF px len, of "CHR '','' # Join (map print_json ys) '','' @ CHR '']'' # r"] by (simp add: xs Join_Cons)
    qed
  next
    case 3
    let ?p = "\<lambda>(k, v). quote k @ CHR '':'' # print_json v"
    obtain k x ys where kvs: "kvs = (k, x) # ys" using 3(1) by (cases kvs) auto
    have px: "printable x" and len: "length (print_json x) < n" using 3(2,3) kvs by (auto simp: Join_Cons)
    have str: "parse_str (concat (map escape_char k) @ CHR 0x22 # u) = Some (k, u)" for u
      by (rule parse_str_quoted)
    show ?case
    proof (cases "ys = []")
      case True
      then show ?thesis using val [OF px len, of "CHR ''}'' # r"] by (simp add: kvs quote_def str)
    next
      case False
      have "members_of n (Join (map ?p ys) '','' @ CHR ''}'' # r) = Some (ys, r)"
        using 3(2,3) kvs False print_length [OF px] by (intro mems) (auto simp: Join_Cons)
      then show ?thesis
        using False val [OF px len, of "CHR '','' # Join (map ?p ys) '','' @ CHR ''}'' # r"]
        by (simp add: kvs Join_Cons quote_def str)
    qed
  }
qed simp_all

lemma parse_print: "printable v \<Longrightarrow> parse_json (print_json v) = Some v"
  using parse_fuel(1) [of v "Suc (length (print_json v))" "[]"] by (simp add: parse_json_def)

section \<open>The fuel\<close>

lemma skip_shorter: "length (skip s) \<le> length s"
  by (simp add: skip_def length_dropWhile_le)

lemma parse_str_shorter: "parse_str s = Some (v, r) \<Longrightarrow> length r < length s"
proof (induction "length s" arbitrary: s v rule: less_induct)
  case less
  have step: "length r < length s" if "map_option (apfst f) (parse_str t) = Some (v, r)" "length t < length s" for f t
    using less.hyps [OF that(2)] that by (auto simp: apfst_def map_prod_def)
  show ?case
  proof (cases s)
    case Nil
    then show ?thesis using less.prems by simp
  next
    case (Cons c cs)
    show ?thesis
    proof (cases "c = CHR 0x5C")
      case False
      then show ?thesis using less.prems step by (auto simp: Cons parse_str.simps(2) split: if_splits)
    next
      case esc: True
      obtain e es where cs: "cs = e # es" using less.prems esc by (cases cs) (auto simp: Cons parse_str.simps(2))
      show ?thesis
      proof (cases "e = CHR ''u''")
        case False
        then show ?thesis using less.prems step esc
          by (auto simp: Cons cs parse_str.simps(2) split: if_splits option.splits)
      next
        case True
        obtain a1 a2 a3 a4 t where es: "es = a1 # a2 # a3 # a4 # t"
          using less.prems esc True by (auto simp: Cons cs parse_str.simps(2) split: if_splits list.splits)
        obtain n where n: "hex4 a1 a2 a3 a4 = Some n"
          using less.prems esc True by (auto simp: Cons cs es parse_str.simps(2) split: option.splits)
        have eq: "(if 0xD800 \<le> n \<and> n < 0xE000 then
            (case (if n < 0xDC00 then low_surrogate t else None) of
               Some (m, r') \<Rightarrow> map_option (apfst ((@) (utf8 (0x10000 + (n - 0xD800) * 0x400 + (m - 0xDC00))))) (parse_str r')
             | None \<Rightarrow> map_option (apfst ((@) (utf8 0xFFFD))) (parse_str t))
          else map_option (apfst ((@) (utf8 n))) (parse_str t)) = Some (v, r)"
          using less.prems esc True n by (simp add: Cons cs es parse_str.simps(2))
        have shorter: "length t < length s" by (simp add: Cons cs es)
        show ?thesis
        proof (cases "if 0xD800 \<le> n \<and> n < 0xDC00 then low_surrogate t else None")
          case None
          then show ?thesis using eq step [OF _ shorter] by (auto split: if_splits)
        next
          case (Some mr)
          then obtain m t' where mr: "mr = (m, t')" "length t' < length s"
            using low_surrogate_shorter shorter by (cases mr) (force split: if_splits)
          then show ?thesis using eq step [OF _ mr(2)] Some by (auto split: if_splits)
        qed
      qed
    qed
  qed
qed


lemma parse_number_shorter:
  assumes "parse_number s = Some (v, r)"
  shows "length r < length s"
proof -
  have drop: "length (dropWhile is_digit x) \<le> length x" for x by (rule length_dropWhile_le)
  obtain neg s1 where 1: "(case s of c # t \<Rightarrow> if c = CHR ''-'' then (True, t) else (False, s) | [] \<Rightarrow> (False, s)) = (neg, s1)"
    by fastforce
  obtain fok frac s3 where 3: "(case dropWhile is_digit s1 of c # t \<Rightarrow> if c = CHR ''.''
      then (takeWhile is_digit t \<noteq> [], True, dropWhile is_digit t) else (True, False, dropWhile is_digit s1)
    | [] \<Rightarrow> (True, False, dropWhile is_digit s1)) = (fok, frac, s3)" by (rule prod_cases3)
  obtain eok ex s4 where 4: "(case s3 of c # t \<Rightarrow> if c = CHR ''e'' \<or> c = CHR ''E''
      then (takeWhile is_digit (case t of x # y \<Rightarrow> if x = CHR ''+'' \<or> x = CHR ''-'' then y else t | [] \<Rightarrow> t) \<noteq> [],
            True, dropWhile is_digit (case t of x # y \<Rightarrow> if x = CHR ''+'' \<or> x = CHR ''-'' then y else t | [] \<Rightarrow> t))
      else (True, False, s3)
    | [] \<Rightarrow> (True, False, s3)) = (eok, ex, s4)" by (rule prod_cases3)
  have "takeWhile is_digit s1 \<noteq> [] \<and> r = s4"
    using assms unfolding parse_number_def 1 Let_def prod.case 3 4 by (simp split: if_splits)
  moreover from this have "length (dropWhile is_digit s1) < length s1"
    by (cases s1) (auto simp: le_imp_less_Suc drop split: if_splits)
  moreover have "length s1 \<le> length s" using 1 by (cases s) (auto split: if_splits)
  moreover have "length s3 \<le> length (dropWhile is_digit s1)"
  proof (cases "dropWhile is_digit s1")
    case Nil
    then show ?thesis using 3 unfolding Nil by simp
  next
    case (Cons c t)
    then show ?thesis using 3 drop [of t] unfolding Cons by (auto split: if_splits)
  qed
  moreover have "length s4 \<le> length s3"
  proof (cases s3)
    case Nil
    then show ?thesis using 4 by simp
  next
    case (Cons c t)
    let ?t = "case t of x # y \<Rightarrow> if x = CHR ''+'' \<or> x = CHR ''-'' then y else t | [] \<Rightarrow> t"
    have "length ?t \<le> length t" by (cases t) auto
    then have "length (dropWhile is_digit ?t) \<le> length t" using drop [of ?t] by (rule order_trans [rotated])
    then show ?thesis using 4 unfolding Cons list.case Let_def by (cases "c = CHR ''e'' \<or> c = CHR ''E''") auto
  qed
  ultimately show ?thesis by simp
qed

lemma skip_Cons: "skip s = c # cs \<Longrightarrow> length cs < length s"
  using skip_shorter [of s] by simp

text \<open>Each parser consumes something, and needs no more fuel than what it consumes.\<close>

lemma parser_shorter:
  "value_of n s = Some (v, r) \<Longrightarrow> length r < length s"
  "elems_of n s = Some (vs, r) \<Longrightarrow> length r < length s"
  "members_of n s = Some (kvs, r) \<Longrightarrow> length r < length s"
proof (induction n arbitrary: s v r vs kvs)
  case (Suc n)
  {
    case 1
    then obtain c cs where c: "skip s = c # cs" by (cases "skip s") auto
    have "length r < length (c # cs)"
      using 1 Suc.IH(2,3) [of cs] parse_str_shorter [of cs] parse_number_shorter [of "c # cs" v r] skip_Cons [of cs]
      by (auto simp: c CutPrefix_Some_iff less_Suc_eq split: if_splits list.splits)
    then show ?case using skip_shorter [of s] c by simp
  next
    case 2
    then obtain w t where w: "value_of n s = Some (w, t)" by (cases "value_of n s") auto
    then obtain c cs where c: "skip t = c # cs" using 2 by (cases "skip t") auto
    have "length r \<le> length cs" using 2 w c Suc.IH(2) [of cs] by (auto simp: less_imp_le split: if_splits)
    then show ?case using Suc.IH(1) [OF w] skip_Cons [OF c] by simp
  next
    case 3
    then obtain qs where q: "skip s = CHR 0x22 # qs" by (cases "skip s") (auto split: if_splits)
    then obtain k t where k: "parse_str qs = Some (k, t)" using 3 by (cases "parse_str qs") auto
    then obtain cs where c: "skip t = CHR '':'' # cs" using 3 q by (cases "skip t") (auto split: if_splits)
    then obtain w t' where w: "value_of n cs = Some (w, t')" using 3 q k by (cases "value_of n cs") auto
    then obtain d ds where d: "skip t' = d # ds" using 3 q k c by (cases "skip t'") auto
    have "length r \<le> length ds" using 3 q k c w d Suc.IH(3) [of ds] by (auto simp: less_imp_le split: if_splits)
    then show ?case using skip_Cons [OF q] parse_str_shorter [OF k] skip_Cons [OF c] Suc.IH(1) [OF w] skip_Cons [OF d] by simp
  }
qed simp_all

lemma parser_enough:
  "value_of m s = Some (v, r) \<Longrightarrow> length s \<le> n + length r \<Longrightarrow> value_of n s = Some (v, r)"
  "elems_of m s = Some (vs, r) \<Longrightarrow> length s \<le> n + length r \<Longrightarrow> elems_of n s = Some (vs, r)"
  "members_of m s = Some (kvs, r) \<Longrightarrow> length s \<le> n + length r \<Longrightarrow> members_of n s = Some (kvs, r)"
proof (induction m arbitrary: n s v r vs kvs)
  case (Suc m)
  {
    case 1
    then obtain k where n: "n = Suc k" using parser_shorter(1) [of "Suc m" s v r] by (cases n) auto
    obtain c cs where c: "skip s = c # cs" using 1 by (cases "skip s") auto
    have len: "length cs \<le> k + length r" using 1 skip_Cons [OF c] n by simp
    show ?case using 1(1) Suc.IH(2,3) [of cs _ r k] len by (auto simp: n c split: if_splits list.splits)
  next
    case 2
    then obtain k where n: "n = Suc k" using parser_shorter(2) [of "Suc m" s vs r] by (cases n) auto
    obtain w t where w: "value_of m s = Some (w, t)" using 2 by (cases "value_of m s") auto
    obtain c cs where c: "skip t = c # cs" using 2 w by (cases "skip t") auto
    have eq: "(if c = CHR '']'' then Some ([w], cs) else if c = CHR '','' then map_option (apfst ((#) w)) (elems_of m cs) else None)
        = Some (vs, r)" using 2(1) w c by simp
    have r: "length r \<le> length cs" using eq by (auto dest: parser_shorter(2) split: if_splits)
    have "value_of k s = Some (w, t)" using 2(2) skip_Cons [OF c] r by (intro Suc.IH(1) [OF w]) (simp add: n)
    moreover have "length cs \<le> k + length r" using 2(2) parser_shorter(1) [OF w] skip_Cons [OF c] by (simp add: n)
    ultimately show ?case using eq c Suc.IH(2) [of cs _ r k] by (auto simp: n split: if_splits)
  next
    case 3
    then obtain k where n: "n = Suc k" using parser_shorter(3) [of "Suc m" s kvs r] by (cases n) auto
    obtain qs where q: "skip s = CHR 0x22 # qs" using 3 by (cases "skip s") (auto split: if_splits)
    obtain u t where u: "parse_str qs = Some (u, t)" using 3 q by (cases "parse_str qs") auto
    obtain cs where c: "skip t = CHR '':'' # cs" using 3 q u by (cases "skip t") (auto split: if_splits)
    obtain w t' where w: "value_of m cs = Some (w, t')" using 3 q u c by (cases "value_of m cs") auto
    obtain d ds where d: "skip t' = d # ds" using 3 q u c w by (cases "skip t'") auto
    have eq: "(if d = CHR ''}'' then Some ([(u, w)], ds)
        else if d = CHR '','' then map_option (apfst ((#) (u, w))) (members_of m ds) else None) = Some (kvs, r)"
      using 3(1) q u c w d by simp
    have r: "length r \<le> length ds" using eq by (auto dest: parser_shorter(3) split: if_splits)
    note shorter = skip_Cons [OF q] parse_str_shorter [OF u] skip_Cons [OF c] skip_Cons [OF d]
    have "value_of k cs = Some (w, t')" using 3(2) shorter r by (intro Suc.IH(1) [OF w]) (simp add: n)
    moreover have "length ds \<le> k + length r" using 3(2) parser_shorter(1) [OF w] shorter by (simp add: n)
    ultimately show ?case using eq q u c d Suc.IH(3) [of ds _ r k] by (auto simp: n split: if_splits)
  }
qed simp_all

text \<open>So the length of the text is fuel enough for every text, not only for printed ones.\<close>

lemma value_of_enough:
  assumes "length s \<le> n"
  shows "value_of n s = value_of (Suc (length s)) s"
proof (cases "value_of n s")
  case (Some x)
  then show ?thesis using parser_enough(1) [of n s "fst x" "snd x" "Suc (length s)"] by simp
next
  case None
  show ?thesis
  proof (cases "value_of (Suc (length s)) s")
    case (Some x)
    then show ?thesis using parser_enough(1) [of "Suc (length s)" s "fst x" "snd x" n] assms None by simp
  qed (simp add: None)
qed

end
