(* ===== verification/Base64.thy ===== *)
theory Base64
  imports GoStrings
begin

text \<open>
  \<open>base64.RawURLEncoding\<close> on byte strings: the encoder, and the decoder with what Go's one
  does on input the encoder never makes (line breaks are skipped, the unused low bits of the
  last digit are ignored, a single left-over digit or a foreign byte is an error). The lemmas
  are the round trip and the alphabet, which has no dot.
\<close>

definition b64_char :: "nat \<Rightarrow> char" where
  "b64_char n = char_of (if n < 26 then 65 + n else if n < 52 then 71 + n else if n < 62 then n - 4
     else if n = 62 then 45 else 95)"

definition b64_val :: "char \<Rightarrow> nat option" where
  "b64_val c = (let n = of_char c in
     if 65 \<le> n \<and> n \<le> 90 then Some (n - 65) else if 97 \<le> n \<and> n \<le> 122 then Some (n - 71)
     else if 48 \<le> n \<and> n \<le> 57 then Some (n + 4) else if n = 45 then Some 62 else if n = 95 then Some 63 else None)"

fun b64_digits :: "nat list \<Rightarrow> nat list" where
  "b64_digits (a # b # c # r) = [a div 4, a mod 4 * 16 + b div 16, b mod 16 * 4 + c div 64, c mod 64] @ b64_digits r"
| "b64_digits [a, b] = [a div 4, a mod 4 * 16 + b div 16, b mod 16 * 4]"
| "b64_digits [a] = [a div 4, a mod 4 * 16]"
| "b64_digits [] = []"

fun b64_bytes :: "nat list \<Rightarrow> nat list option" where
  "b64_bytes (w # x # y # z # r) = map_option
     ((@) [w * 4 + x div 16, x mod 16 * 16 + y div 4, y mod 4 * 64 + z]) (b64_bytes r)"
| "b64_bytes [w, x, y] = Some [w * 4 + x div 16, x mod 16 * 16 + y div 4]"
| "b64_bytes [w, x] = Some [w * 4 + x div 16]"
| "b64_bytes [w] = None"
| "b64_bytes [] = Some []"

definition EncodeToString :: "string \<Rightarrow> string" where
  "EncodeToString s = map b64_char (b64_digits (map of_char s))"

fun b64_vals :: "string \<Rightarrow> nat list option" where
  "b64_vals [] = Some []"
| "b64_vals (c # s) = (case b64_val c of None \<Rightarrow> None | Some v \<Rightarrow> map_option ((#) v) (b64_vals s))"

definition DecodeString :: "string \<Rightarrow> string option" where
  "DecodeString s = Option.bind (b64_vals (filter (\<lambda>c. c \<noteq> CHR 0x0A \<and> c \<noteq> CHR 0x0D) s))
     (\<lambda>vs. map_option (map char_of) (b64_bytes vs))"

lemma b64_val_char [simp]: "n < 64 \<Longrightarrow> b64_val (b64_char n) = Some n"
  by (auto simp: b64_val_def b64_char_def Let_def)

lemma b64_val_None [simp]: "b64_val (CHR ''.'') = None" "b64_val (CHR 0x0A) = None" "b64_val (CHR 0x0D) = None"
  by (simp_all add: b64_val_def Let_def)

lemma digit_bounds:
  fixes a b :: nat
  assumes "a < 256" "b < 256"
  shows "a div 4 < 64" "a mod 4 * 16 + b div 16 < 64" "a mod 16 * 4 + b div 64 < 64" "a mod 4 * 16 < 64" "a mod 16 * 4 < 64"
proof -
  have "a mod 4 < 4" "a mod 16 < 16" "b div 16 < 16" "b div 64 < 4" using assms by auto
  then show "a div 4 < 64" "a mod 4 * 16 + b div 16 < 64" "a mod 16 * 4 + b div 64 < 64" "a mod 4 * 16 < 64" "a mod 16 * 4 < 64"
    using assms by linarith+
qed

lemma b64_digits_less: "\<forall>b \<in> set bs. b < 256 \<Longrightarrow> d \<in> set (b64_digits bs) \<Longrightarrow> d < 64"
  by (induction bs rule: b64_digits.induct) (auto simp: digit_bounds)

lemma byte_parts:
  fixes b :: nat
  assumes "b < 256"
  shows "b div 16 div 16 = 0" "b div 16 mod 16 * 16 + b mod 16 = b"
    "b div 64 mod 4 * 64 + b mod 64 = b" "b div 64 div 4 = 0"
proof -
  have "b div 16 < 16" "b div 64 < 4" using assms by auto
  then show "b div 16 div 16 = 0" "b div 16 mod 16 * 16 + b mod 16 = b"
    "b div 64 mod 4 * 64 + b mod 64 = b" "b div 64 div 4 = 0" by simp_all
qed

lemma b64_bytes_digits: "\<forall>b \<in> set bs. b < 256 \<Longrightarrow> b64_bytes (b64_digits bs) = Some bs"
  by (induction bs rule: b64_digits.induct) (simp_all add: byte_parts)

lemma b64_vals_chars: "\<forall>d \<in> set ds. d < 64 \<Longrightarrow> b64_vals (map b64_char ds) = Some ds"
  by (induction ds) auto

lemma of_char_byte: "(of_char c :: nat) < 256"
  by simp

lemma EncodeToString_alphabet:
  assumes "c \<in> set (EncodeToString s)"
  shows "b64_val c \<noteq> None"
proof -
  obtain d where "d \<in> set (b64_digits (map of_char s))" "c = b64_char d"
    using assms by (auto simp: EncodeToString_def)
  moreover have "d < 64" using calculation by (intro b64_digits_less [of "map of_char s"]) auto
  ultimately show ?thesis by simp
qed

lemma EncodeToString_no_dot: "CHR ''.'' \<notin> set (EncodeToString s)"
  using EncodeToString_alphabet [of "CHR ''.''" s] by auto

lemma DecodeString_EncodeToString: "DecodeString (EncodeToString s) = Some s"
proof -
  have "filter (\<lambda>c. c \<noteq> CHR 0x0A \<and> c \<noteq> CHR 0x0D) (EncodeToString s) = EncodeToString s"
    using EncodeToString_alphabet [of "CHR 0x0A" s] EncodeToString_alphabet [of "CHR 0x0D" s]
    by (auto simp: filter_id_conv)
  moreover have "b64_vals (EncodeToString s) = Some (b64_digits (map of_char s))"
    unfolding EncodeToString_def
    by (rule b64_vals_chars) (rule ballI, rule b64_digits_less [of "map of_char s"], simp_all)
  moreover have "b64_bytes (b64_digits (map of_char s)) = Some (map of_char s)"
    by (rule b64_bytes_digits) auto
  ultimately show ?thesis by (simp add: DecodeString_def comp_def)
qed

end
