(* ===== verification/Auth.thy ===== *)
theory Auth
  imports JsonText Base64
begin

text \<open>
  internal/controlplane/auth/auth.go: passwords, tokens and the signed session cookie. The
  primitives are parameters: \<open>mac secret message\<close> is HMAC-SHA256, \<open>generate\<close> and
  \<open>compare\<close> are bcrypt's two functions (the salt is drawn inside \<open>generate\<close>, which
  refuses passwords of more than 72 bytes), and \<open>entropy\<close> is what \<open>rand.Read\<close> put into
  the buffer. Clocks are nanoseconds.

  The lemmas: a cookie that was signed is accepted with the session it was made for, until
  it expires and not after; a cookie is accepted only if it carries the MAC of its own
  payload, so whoever has seen only the MACs of issued sessions presents an issued session.
\<close>

definition CookieName :: string where "CookieName = ''rvtx_session''"
definition RoleAdmin :: string where "RoleAdmin = ''admin''"
definition RoleViewer :: string where "RoleViewer = ''viewer''"

definition sessionTTL :: int where
  "sessionTTL = 30 * 24 * 3600 * 10 ^ 9"

section \<open>Passwords and tokens\<close>

definition HashPassword :: "(string \<Rightarrow> string option) \<Rightarrow> string \<Rightarrow> string option" where
  "HashPassword generate plaintext = generate plaintext"

definition VerifyPassword :: "(string \<Rightarrow> string \<Rightarrow> bool) \<Rightarrow> string \<Rightarrow> string \<Rightarrow> bool" where
  "VerifyPassword compare hash plaintext = (if hash = [] then False else compare hash plaintext)"

text \<open>\<open>hex.EncodeToString\<close>, and the token: 32 bytes of entropy in hex.\<close>

definition hex_encode :: "string \<Rightarrow> string" where
  "hex_encode bs = concat (map (\<lambda>b. [hex_digit (of_char b div 16), hex_digit (of_char b mod 16)]) bs)"

definition RandomToken :: "string option \<Rightarrow> string option" where
  "RandomToken entropy = map_option hex_encode entropy"

section \<open>The session cookie\<close>

record Session =
  s_Email :: string
  s_Role :: string
  s_Exp :: int

definition IsAdmin :: "Session \<Rightarrow> bool" where
  "IsAdmin s \<longleftrightarrow> s_Role s = RoleAdmin"

definition enc_session :: "Session \<Rightarrow> json" where
  "enc_session s = JObj [(''email'', JStr (s_Email s)), (''role'', JStr (s_Role s)), (''exp'', JInt (s_Exp s))]"

definition session_fields :: "Session fields" where
  "session_fields =
    [(''email'', \<lambda>v s. map_option (\<lambda>x. s\<lparr>s_Email := x\<rparr>) (dec_string v (s_Email s))),
     (''role'', \<lambda>v s. map_option (\<lambda>x. s\<lparr>s_Role := x\<rparr>) (dec_string v (s_Role s))),
     (''exp'', \<lambda>v s. map_option (\<lambda>x. s\<lparr>s_Exp := x\<rparr>) (dec_int v (s_Exp s)))]"

definition zero_session :: Session where
  "zero_session = \<lparr>s_Email = [], s_Role = [], s_Exp = 0\<rparr>"

datatype same_site = SameSiteUnset | SameSiteLaxMode

record Cookie =
  c_Name :: string
  c_Value :: string
  c_Path :: string
  c_HttpOnly :: bool
  c_SameSite :: same_site
  c_Expires :: "int option"
  c_MaxAge :: int

definition sign :: "(string \<Rightarrow> string \<Rightarrow> string) \<Rightarrow> string \<Rightarrow> string \<Rightarrow> string" where
  "sign mac secret payload = mac secret payload"

definition session_payload :: "Session \<Rightarrow> string" where
  "session_payload sess = EncodeToString (print_json (enc_session sess))"

definition signValue :: "(string \<Rightarrow> string \<Rightarrow> string) \<Rightarrow> string \<Rightarrow> Session \<Rightarrow> string" where
  "signValue mac secret sess = (let payload = session_payload sess in
     payload @ ''.'' @ EncodeToString (sign mac secret payload))"

definition verifyValue :: "(string \<Rightarrow> string \<Rightarrow> string) \<Rightarrow> string \<Rightarrow> string \<Rightarrow> Session option" where
  "verifyValue mac secret value = (case Cut value (CHR ''.'') of
       None \<Rightarrow> None
     | Some (payloadB64, sigB64) \<Rightarrow> (case DecodeString sigB64 of
         None \<Rightarrow> None
       | Some sig \<Rightarrow> if sig \<noteq> sign mac secret payloadB64 then None
           else (case DecodeString payloadB64 of
               None \<Rightarrow> None
             | Some raw \<Rightarrow> (case parse_json raw of
                 None \<Rightarrow> None
               | Some v \<Rightarrow> dec_struct session_fields v zero_session))))"

definition unix :: "int \<Rightarrow> int" where
  "unix t = t div 10 ^ 9"

definition NewSessionCookie ::
  "(string \<Rightarrow> string \<Rightarrow> string) \<Rightarrow> int \<Rightarrow> string \<Rightarrow> string \<Rightarrow> string \<Rightarrow> Cookie" where
  "NewSessionCookie mac now secret email role = (let exp = unix (now + sessionTTL) in
     \<lparr>c_Name = CookieName,
      c_Value = signValue mac secret \<lparr>s_Email = email, s_Role = role, s_Exp = exp\<rparr>,
      c_Path = ''/'', c_HttpOnly = True, c_SameSite = SameSiteLaxMode,
      c_Expires = Some (exp * 10 ^ 9), c_MaxAge = 0\<rparr>)"

definition ExpiredCookie :: Cookie where
  "ExpiredCookie = \<lparr>c_Name = CookieName, c_Value = [], c_Path = ''/'', c_HttpOnly = True,
     c_SameSite = SameSiteLaxMode, c_Expires = None, c_MaxAge = -1\<rparr>"

text \<open>The request's cookies in order; \<open>r.Cookie\<close> takes the first with the name.\<close>

definition ValidSession ::
  "(string \<Rightarrow> string \<Rightarrow> string) \<Rightarrow> int \<Rightarrow> (string \<times> string) list \<Rightarrow> string \<Rightarrow> Session option" where
  "ValidSession mac now cookies secret = (case map_of cookies CookieName of
       None \<Rightarrow> None
     | Some v \<Rightarrow> (case verifyValue mac secret v of
         None \<Rightarrow> None
       | Some sess \<Rightarrow> if s_Exp sess \<le> unix now then None else Some sess))"

section \<open>Tokens\<close>

lemma hex_digit_inj: "m < 16 \<Longrightarrow> n < 16 \<Longrightarrow> hex_digit m = hex_digit n \<Longrightarrow> m = n"
  by (metis hex_val_hex_digit option.inject)

lemma length_hex_encode [simp]: "length (hex_encode bs) = 2 * length bs"
  by (induction bs) (auto simp: hex_encode_def)

lemma hex_encode_inj: "hex_encode a = hex_encode b \<Longrightarrow> a = b"
proof (induction a arbitrary: b)
  case Nil
  then show ?case by (cases b) (auto simp: hex_encode_def)
next
  case (Cons x a)
  then obtain y b' where b: "b = y # b'" by (cases b) (auto simp: hex_encode_def)
  have lt: "(of_char c :: nat) div 16 < 16" for c :: char
    using of_char_byte [of c] by linarith
  have "(of_char x :: nat) div 16 = of_char y div 16" "(of_char x :: nat) mod 16 = of_char y mod 16"
    using Cons.prems b by (auto simp: hex_encode_def intro: hex_digit_inj lt)
  then have "(of_char x :: nat) = of_char y" by (metis div_mult_mod_eq)
  moreover have "hex_encode a = hex_encode b'" using Cons.prems b by (simp add: hex_encode_def)
  ultimately show ?case using Cons.IH b by simp
qed

lemma RandomToken_ok:
  assumes "RandomToken (Some bs) = Some t" "length bs = 32"
  shows "length t = 64"
  using assms by (auto simp: RandomToken_def)

section \<open>Round trip and authenticity\<close>

lemma session_text: "in_int64 (s_Exp s) \<Longrightarrow>
    Option.bind (parse_json (print_json (enc_session s))) (\<lambda>v. dec_struct session_fields v zero_session) = Some s"
proof -
  assume e: "in_int64 (s_Exp s)"
  have "parse_json (print_json (enc_session s)) = Some (enc_session s)"
    by (rule parse_print) (simp add: enc_session_def)
  then show ?thesis
    using e by (cases s) (simp add: enc_session_def session_fields_def zero_session_def find_field_def)
qed

lemma Cut_signValue:
  "Cut (signValue mac secret s) (CHR ''.'') = Some (session_payload s, EncodeToString (mac secret (session_payload s)))"
  by (simp add: signValue_def sign_def Let_def session_payload_def EncodeToString_no_dot)

lemma verify_sign:
  assumes "in_int64 (s_Exp s)"
  shows "verifyValue mac secret (signValue mac secret s) = Some s"
proof -
  have "DecodeString (session_payload s) = Some (print_json (enc_session s))"
    by (simp add: session_payload_def DecodeString_EncodeToString)
  then show ?thesis
    using session_text [OF assms]
    by (cases "parse_json (print_json (enc_session s))")
       (simp_all add: verifyValue_def Cut_signValue DecodeString_EncodeToString sign_def)
qed

lemma verify_sound:
  assumes "verifyValue mac secret v = Some s"
  obtains payload sig where "Cut v (CHR ''.'') = Some (payload, sig)" "DecodeString sig = Some (mac secret payload)"
    "Option.bind (Option.bind (DecodeString payload) parse_json) (\<lambda>v. dec_struct session_fields v zero_session) = Some s"
  using assms by (auto simp: verifyValue_def sign_def split: option.splits prod.splits if_splits)

text \<open>
  Whoever knows only the MACs of issued sessions: the signature it presents decodes to one of
  them, and no collision means that the presented payload is then the issued one.
\<close>

lemma unforgeable:
  assumes acc: "verifyValue mac secret v = Some s"
    and seen: "\<And>payload sig. Cut v (CHR ''.'') = Some (payload, sig) \<Longrightarrow>
       \<exists>s' \<in> issued. DecodeString sig = Some (mac secret (session_payload s'))"
    and no_collision: "\<And>payload sig s'. Cut v (CHR ''.'') = Some (payload, sig) \<Longrightarrow> s' \<in> issued \<Longrightarrow>
       mac secret payload = mac secret (session_payload s') \<Longrightarrow> payload = session_payload s'"
    and range: "\<And>s'. s' \<in> issued \<Longrightarrow> in_int64 (s_Exp s')"
  shows "s \<in> issued"
proof -
  obtain payload sig where v: "Cut v (CHR ''.'') = Some (payload, sig)" and sig: "DecodeString sig = Some (mac secret payload)"
    and dec: "Option.bind (Option.bind (DecodeString payload) parse_json)
      (\<lambda>v. dec_struct session_fields v zero_session) = Some s"
    using acc by (rule verify_sound)
  obtain s' where s': "s' \<in> issued" "mac secret payload = mac secret (session_payload s')"
    using seen [OF v] sig by auto
  then have "payload = session_payload s'" by (rule no_collision [OF v])
  then have "Some s = Some s'"
    using dec session_text [OF range [OF s'(1)]] by (simp add: session_payload_def DecodeString_EncodeToString)
  then show ?thesis using s'(1) by simp
qed

lemma new_cookie_valid:
  assumes "in_int64 (unix (now + sessionTTL))"
    and "map_of cookies CookieName = Some (c_Value (NewSessionCookie mac now secret email role))"
  shows "ValidSession mac now' cookies secret =
    (if unix now' < unix (now + sessionTTL)
     then Some \<lparr>s_Email = email, s_Role = role, s_Exp = unix (now + sessionTTL)\<rparr> else None)"
  using assms verify_sign [of "\<lparr>s_Email = email, s_Role = role, s_Exp = unix (now + sessionTTL)\<rparr>" mac secret]
  by (auto simp: ValidSession_def NewSessionCookie_def Let_def)

lemma logged_out:
  assumes "map_of cookies CookieName = Some (c_Value ExpiredCookie)"
  shows "ValidSession mac now cookies secret = None"
  using assms by (simp add: ValidSession_def ExpiredCookie_def verifyValue_def)

lemma valid_unexpired: "ValidSession mac now cookies secret = Some s \<Longrightarrow> unix now < s_Exp s"
  by (auto simp: ValidSession_def split: option.splits if_splits)

lemma no_cookie: "CookieName \<notin> fst ` set cookies \<Longrightarrow> ValidSession mac now cookies secret = None"
  by (simp add: ValidSession_def map_of_eq_None_iff [THEN iffD2])

end
