(* ===== verification/Mail.thy ===== *)
theory Mail
  imports GoStrings
begin

text \<open>
  internal/controlplane/mail/mail.go. The SMTP relay is a parameter: given the commands so
  far, the last one included, it says whether that one succeeds. \<open>Send\<close> returns its result
  and the commands it issued, in order. The lemma \<open>nothing_in_clear\<close> shows that neither the
  credentials nor a message, which carries an invite or reset link, leaves before the
  connection is encrypted.
\<close>

record Config =
  cfg_Server :: string
  cfg_Port :: string
  cfg_User :: string
  cfg_Password :: string
  cfg_From :: string

definition Configured :: "Config \<Rightarrow> bool" where
  "Configured c \<longleftrightarrow> cfg_Server c \<noteq> []"

datatype smtp_cmd =
    Dial string
  | Greeting string
  | StartTLS string
  | AuthPlain string string string
  | MailFrom string
  | RcptTo string
  | DataCmd
  | Message string
  | EndMessage
  | Quit

datatype mail_error = NotConfigured | SmtpFailed smtp_cmd

definition crlf :: string where
  "crlf = [CHR 0x0D, CHR 0x0A]"

text \<open>Commands in order, up to and including the first that fails.\<close>

fun run_smtp :: "(smtp_cmd list \<Rightarrow> bool) \<Rightarrow> smtp_cmd list \<Rightarrow> smtp_cmd list \<Rightarrow> (mail_error + unit) \<times> smtp_cmd list" where
  "run_smtp relay [] issued = (Inr (), issued)"
| "run_smtp relay (c # cs) issued =
     (if relay (issued @ [c]) then run_smtp relay cs (issued @ [c]) else (Inl (SmtpFailed c), issued @ [c]))"

definition mail_from :: "Config \<Rightarrow> string" where
  "mail_from cfg = (if cfg_From cfg = [] then cfg_User cfg else cfg_From cfg)"

definition mail_text :: "string \<Rightarrow> string \<Rightarrow> string \<Rightarrow> string \<Rightarrow> string" where
  "mail_text sender recipient subject body = ''From: '' @ sender @ crlf @ ''To: '' @ recipient @ crlf
     @ ''Subject: '' @ subject @ crlf @ crlf @ body @ crlf"

definition Send :: "(smtp_cmd list \<Rightarrow> bool) \<Rightarrow> Config \<Rightarrow> string \<Rightarrow> string \<Rightarrow> string
    \<Rightarrow> (mail_error + unit) \<times> smtp_cmd list" where
  "Send relay cfg recipient subject body =
     (if \<not> Configured cfg then (Inl NotConfigured, [])
      else run_smtp relay
        ([Dial (JoinHostPort (cfg_Server cfg) (cfg_Port cfg)), Greeting (cfg_Server cfg), StartTLS (cfg_Server cfg)]
         @ (if cfg_User cfg \<noteq> [] then [AuthPlain (cfg_User cfg) (cfg_Password cfg) (cfg_Server cfg)] else [])
         @ [MailFrom (mail_from cfg), RcptTo recipient, DataCmd,
            Message (mail_text (mail_from cfg) recipient subject body), EndMessage, Quit]) [])"

lemma run_smtp_log: "run_smtp relay cs issued = (r, log) \<Longrightarrow> \<exists>k. log = issued @ take k cs"
proof (induction relay cs issued rule: run_smtp.induct)
  case (2 relay c cs issued)
  show ?case
  proof (cases "relay (issued @ [c])")
    case True
    then obtain k where "log = (issued @ [c]) @ take k cs" using 2 by auto
    then show ?thesis by (intro exI [of _ "Suc k"]) simp
  next
    case False
    then show ?thesis using 2(2) by (intro exI [of _ 1]) simp
  qed
qed simp

text \<open>Either a step succeeds and later commands follow, or nothing after it is issued.\<close>

lemma run_smtp_split:
  assumes "run_smtp relay (a @ x # b) issued = (r, log)"
  shows "(relay (issued @ a @ [x]) \<and> (\<exists>k. log = issued @ a @ x # take k b)) \<or> (\<exists>j. log = issued @ take j (a @ [x]))"
  using assms
proof (induction a arbitrary: issued)
  case Nil
  show ?case
  proof (cases "relay (issued @ [x])")
    case True
    then show ?thesis using Nil run_smtp_log [of relay b "issued @ [x]"] by auto
  next
    case False
    then show ?thesis using Nil by (intro disjI2 exI [of _ 1]) simp
  qed
next
  case (Cons y a)
  show ?case
  proof (cases "relay (issued @ [y])")
    case True
    then have "run_smtp relay (a @ x # b) (issued @ [y]) = (r, log)" using Cons.prems by simp
    from Cons.IH [OF this] show ?thesis
    proof
      assume "\<exists>j. log = (issued @ [y]) @ take j (a @ [x])"
      then obtain j where "log = (issued @ [y]) @ take j (a @ [x])" ..
      then show ?thesis by (intro disjI2 exI [of _ "Suc j"]) simp
    qed simp
  next
    case False
    then show ?thesis using Cons.prems by (intro disjI2 exI [of _ 1]) simp
  qed
qed

definition confidential :: "smtp_cmd \<Rightarrow> bool" where
  "confidential c \<longleftrightarrow> (case c of AuthPlain _ _ _ \<Rightarrow> True | MailFrom _ \<Rightarrow> True | RcptTo _ \<Rightarrow> True | Message _ \<Rightarrow> True | _ \<Rightarrow> False)"

lemma nothing_in_clear:
  assumes "Send relay cfg recipient subject body = (r, log)" "c \<in> set log" "confidential c"
  obtains a b where "log = a @ StartTLS (cfg_Server cfg) # b" "relay (a @ [StartTLS (cfg_Server cfg)])" "c \<in> set b"
proof -
  let ?a = "[Dial (JoinHostPort (cfg_Server cfg) (cfg_Port cfg)), Greeting (cfg_Server cfg)]"
  let ?x = "StartTLS (cfg_Server cfg)"
  obtain b where "run_smtp relay (?a @ ?x # b) [] = (r, log)"
    using assms(1,2) by (auto simp: Send_def simp del: run_smtp.simps split: if_splits)
  from run_smtp_split [OF this]
  show thesis
  proof
    assume "relay ([] @ ?a @ [?x]) \<and> (\<exists>k. log = [] @ ?a @ ?x # take k b)"
    then obtain k where "relay (?a @ [?x])" "log = ?a @ ?x # take k b" by auto
    then show thesis using assms(2,3) by (intro that [of ?a "take k b"]) (auto simp: confidential_def)
  next
    assume "\<exists>j. log = [] @ take j (?a @ [?x])"
    then have "c \<in> set (?a @ [?x])" using assms(2) by (auto dest: in_set_takeD)
    then show thesis using assms(3) by (auto simp: confidential_def)
  qed
qed

lemma not_configured: "cfg_Server cfg = [] \<Longrightarrow> Send relay cfg recipient subject body = (Inl NotConfigured, [])"
  by (simp add: Send_def Configured_def)

end
