(* ===== verification/HttpApi.thy ===== *)
theory HttpApi
  imports ResourcesList TraefikConfig UsersDb WsServer Auth Mail
begin

text \<open>
  cmd/controlplane/main.go: the routes of the control plane, the two guards, and every
  handler. A handler of the API is a function from the outside of one request (\<open>env\<close>: the clocks, the
  entropy, the primitives of bcrypt and HMAC, the mail relay), the request and the database
  to the response, the database after it and the mail commands issued. The agents' WebSocket
  runs \<open>HandleWS\<close> on the server and what its connection carries (\<open>socket\<close>).

  The lemmas: no request to the API without an admin's session changes nodes, resources or the
  accounts' identities and roles; the agents' WebSocket changes nodes only; the three open flows change at most the password and token
  columns; the login and the password-reset request answer the same way for unknown and
  known addresses.
\<close>

text \<open>An entry of the embedded files; \<open>e_dist\<close> says what a path names.\<close>

datatype dist_entry = DistFile | DistDir

record env =
  e_secret :: string
  e_mac :: "string \<Rightarrow> string \<Rightarrow> string"
  e_generate :: "string \<Rightarrow> string option"
  e_compare :: "string \<Rightarrow> string \<Rightarrow> bool"
  e_entropy :: "string option"
  e_now :: int
  e_pg_now :: int
  e_relay :: "smtp_cmd list \<Rightarrow> bool"
  e_smtp :: Mail.Config
  e_baseURL :: string
  e_dist :: "string \<Rightarrow> dist_entry option"

text \<open>
  A request: the method, the decoded segments of its clean path (\<open>/\<close> has none; a trailing
  slash gives an empty last segment), the \<open>token\<close> of the query, its cookies and its body.
\<close>

record request =
  rq_method :: string
  rq_path :: "string list"
  rq_token :: string
  rq_cookies :: "(string \<times> string) list"
  rq_body :: string

datatype message =
    Msg string
  | ResourceMsg resource_error
  | UserMsg user_error
  | MailMsg mail_error

datatype body =
    NoBody
  | ErrorBody message
  | OkText
  | ConfigBody "TraefikConfig.Config"
  | NodesBody "Node list"
  | ResourcesBody "ResourceWithTargets list"
  | UsersBody "User list"
  | IdentityBody string string
  | IndexPage
  | FileServed string
  | Redirect string
  | Upgrade

record response =
  rs_status :: nat
  rs_body :: body
  rs_cookie :: "Cookie option"

type_synonym reply = "response \<times> db \<times> smtp_cmd list"
type_synonym handler = "env \<Rightarrow> request \<Rightarrow> db \<Rightarrow> reply"
type_synonym session_handler = "env \<Rightarrow> request \<Rightarrow> Session \<Rightarrow> db \<Rightarrow> reply"

definition respond :: "nat \<Rightarrow> body \<Rightarrow> response" where
  "respond code b = \<lparr>rs_status = code, rs_body = b, rs_cookie = None\<rparr>"

definition http_Error :: "message \<Rightarrow> nat \<Rightarrow> response" where
  "http_Error m code = respond code (ErrorBody m)"

section \<open>Request bodies\<close>

text \<open>
  \<open>json.NewDecoder(r.Body).Decode\<close> reads the first value of the body and ignores what
  follows it; what cannot follow a bare literal is an error of the next call, which no
  handler makes.
\<close>

definition decode_body :: "'s fields \<Rightarrow> 's \<Rightarrow> string \<Rightarrow> 's option" where
  "decode_body fs zero b = (case value_of (Suc (length b)) b of
       None \<Rightarrow> None
     | Some (v, r) \<Rightarrow> dec_struct fs v zero)"

record loginRequest =
  lr_Email :: string
  lr_Password :: string

definition login_fields :: "loginRequest fields" where
  "login_fields =
    [(''email'', \<lambda>v s. map_option (\<lambda>x. s\<lparr>lr_Email := x\<rparr>) (dec_string v (lr_Email s))),
     (''password'', \<lambda>v s. map_option (\<lambda>x. s\<lparr>lr_Password := x\<rparr>) (dec_string v (lr_Password s)))]"

definition target_spec_fields :: "TargetSpec fields" where
  "target_spec_fields =
    [(''node_name'', \<lambda>v s. map_option (\<lambda>x. s\<lparr>spec_NodeName := x\<rparr>) (dec_string v (spec_NodeName s))),
     (''address'', \<lambda>v s. map_option (\<lambda>x. s\<lparr>spec_Address := x\<rparr>) (dec_string v (spec_Address s))),
     (''port'', \<lambda>v s. map_option (\<lambda>x. s\<lparr>spec_Port := x\<rparr>) (dec_int v (spec_Port s))),
     (''role'', \<lambda>v s. map_option (\<lambda>x. s\<lparr>spec_Role := x\<rparr>) (dec_string v (spec_Role s)))]"

record createResourceRequest =
  cr_Name :: string
  cr_Protocol :: string
  cr_Domain :: string
  cr_EntryPoint :: string
  cr_CertResolver :: string
  cr_TargetScheme :: string
  cr_TargetSkipVerify :: bool
  cr_Sticky :: bool
  cr_Targets :: "TargetSpec list"

definition zero_spec :: TargetSpec where
  "zero_spec = \<lparr>spec_NodeName = [], spec_Address = [], spec_Port = 0, spec_Role = []\<rparr>"

definition zero_create :: createResourceRequest where
  "zero_create = \<lparr>cr_Name = [], cr_Protocol = [], cr_Domain = [], cr_EntryPoint = [], cr_CertResolver = [],
     cr_TargetScheme = [], cr_TargetSkipVerify = False, cr_Sticky = False, cr_Targets = []\<rparr>"

definition create_fields :: "createResourceRequest fields" where
  "create_fields =
    [(''name'', \<lambda>v s. map_option (\<lambda>x. s\<lparr>cr_Name := x\<rparr>) (dec_string v (cr_Name s))),
     (''protocol'', \<lambda>v s. map_option (\<lambda>x. s\<lparr>cr_Protocol := x\<rparr>) (dec_string v (cr_Protocol s))),
     (''domain'', \<lambda>v s. map_option (\<lambda>x. s\<lparr>cr_Domain := x\<rparr>) (dec_string v (cr_Domain s))),
     (''entry_point'', \<lambda>v s. map_option (\<lambda>x. s\<lparr>cr_EntryPoint := x\<rparr>) (dec_string v (cr_EntryPoint s))),
     (''cert_resolver'', \<lambda>v s. map_option (\<lambda>x. s\<lparr>cr_CertResolver := x\<rparr>) (dec_string v (cr_CertResolver s))),
     (''target_scheme'', \<lambda>v s. map_option (\<lambda>x. s\<lparr>cr_TargetScheme := x\<rparr>) (dec_string v (cr_TargetScheme s))),
     (''target_skip_verify'', \<lambda>v s. map_option (\<lambda>x. s\<lparr>cr_TargetSkipVerify := x\<rparr>) (dec_bool v (cr_TargetSkipVerify s))),
     (''sticky'', \<lambda>v s. map_option (\<lambda>x. s\<lparr>cr_Sticky := x\<rparr>) (dec_bool v (cr_Sticky s))),
     (''targets'', \<lambda>v s. map_option (\<lambda>x. s\<lparr>cr_Targets := x\<rparr>)
        (dec_slice (dec_struct target_spec_fields) zero_spec v (cr_Targets s)))]"

definition decodeResourceRequest :: "request \<Rightarrow> (createResourceRequest \<times> TargetSpec list) option" where
  "decodeResourceRequest rq =
     map_option (\<lambda>r. (r, cr_Targets r)) (decode_body create_fields zero_create (rq_body rq))"

text \<open>The other bodies have one or two string members.\<close>

record emailRole =
  er_Email :: string
  er_Role :: string

definition email_role_fields :: "emailRole fields" where
  "email_role_fields =
    [(''email'', \<lambda>v s. map_option (\<lambda>x. s\<lparr>er_Email := x\<rparr>) (dec_string v (er_Email s))),
     (''role'', \<lambda>v s. map_option (\<lambda>x. s\<lparr>er_Role := x\<rparr>) (dec_string v (er_Role s)))]"

record tokenPassword =
  tp_Token :: string
  tp_Password :: string

definition token_password_fields :: "tokenPassword fields" where
  "token_password_fields =
    [(''token'', \<lambda>v s. map_option (\<lambda>x. s\<lparr>tp_Token := x\<rparr>) (dec_string v (tp_Token s))),
     (''password'', \<lambda>v s. map_option (\<lambda>x. s\<lparr>tp_Password := x\<rparr>) (dec_string v (tp_Password s)))]"

definition one_string :: "string \<Rightarrow> string fields" where
  "one_string k = [(k, \<lambda>v s. dec_string v s)]"

section \<open>Validation\<close>

definition re_space :: "char \<Rightarrow> bool" where
  "re_space c \<longleftrightarrow> c = CHR '' '' \<or> c = CHR 0x09 \<or> c = CHR 0x0A \<or> c = CHR 0x0C \<or> c = CHR 0x0D"

text \<open>\<open>emailRe\<close>: one \<open>@\<close>, no white space, and a dot inside the domain.\<close>

definition valid_email :: "string \<Rightarrow> bool" where
  "valid_email s = (case Cut s (CHR ''@'') of
       None \<Rightarrow> False
     | Some (a, b) \<Rightarrow> a \<noteq> [] \<and> CHR ''@'' \<notin> set b \<and> list_all (\<lambda>c. \<not> re_space c) s
         \<and> CHR ''.'' \<in> set (butlast (tl b)))"

definition validRole :: "string \<Rightarrow> bool" where
  "validRole role \<longleftrightarrow> role = RoleAdmin \<or> role = RoleViewer"

section \<open>The guards\<close>

definition requireAuth :: "session_handler \<Rightarrow> handler" where
  "requireAuth h e rq d = (case ValidSession (e_mac e) (e_now e) (rq_cookies rq) (e_secret e) of
       None \<Rightarrow> (http_Error (Msg ''unauthorized'') 401, d, [])
     | Some sess \<Rightarrow> h e rq sess d)"

definition requireAdmin :: "session_handler \<Rightarrow> handler" where
  "requireAdmin h = requireAuth (\<lambda>e rq sess d.
     if \<not> IsAdmin sess then (http_Error (Msg ''forbidden: admin role required'') 403, d, [])
     else h e rq sess d)"

section \<open>Login, logout and the read-only handlers\<close>

definition internal_error :: response where
  "internal_error = http_Error (Msg ''internal error'') 500"

text \<open>The resource handlers append the decoder's own message, which is not modelled.\<close>

definition bad_json :: response where
  "bad_json = http_Error (Msg ''invalid json body'') 400"

definition loginHandler :: handler where
  "loginHandler e rq d = (case decode_body login_fields \<lparr>lr_Email = [], lr_Password = []\<rparr> (rq_body rq) of
       None \<Rightarrow> (bad_json, d, [])
     | Some req \<Rightarrow> (case UserByEmail (lr_Email req) d of
         (None, d1) \<Rightarrow> (http_Error (Msg ''invalid email or password'') 401, d1, [])
       | (Some (user, hash), d1) \<Rightarrow>
           if \<not> VerifyPassword (e_compare e) hash (lr_Password req)
           then (http_Error (Msg ''invalid email or password'') 401, d1, [])
           else ((respond 200 NoBody)\<lparr>rs_cookie :=
                    Some (NewSessionCookie (e_mac e) (e_now e) (e_secret e) (u_Email user) (u_Role user))\<rparr>, d1, [])))"

definition logoutHandler :: handler where
  "logoutHandler e rq d = ((respond 200 NoBody)\<lparr>rs_cookie := Some ExpiredCookie\<rparr>, d, [])"

definition healthzHandler :: handler where
  "healthzHandler e rq d = (respond 200 OkText, d, [])"

definition traefikConfigHandler :: handler where
  "traefikConfigHandler e rq d = (case ListResourcesWithTargets d of
       (Inl _, d1) \<Rightarrow> (internal_error, d1, [])
     | (Inr rs, d1) \<Rightarrow> (respond 200 (ConfigBody (Generate (e_now e) rs)), d1, []))"

definition whoamiHandler :: session_handler where
  "whoamiHandler e rq sess d = (respond 200 (IdentityBody (s_Email sess) (s_Role sess)), d, [])"

definition listNodesHandler :: session_handler where
  "listNodesHandler e rq sess d = (case ListNodes d of
       (Inl _, d1) \<Rightarrow> (internal_error, d1, [])
     | (Inr ns, d1) \<Rightarrow> (respond 200 (NodesBody ns), d1, []))"

definition listResourcesHandler :: session_handler where
  "listResourcesHandler e rq sess d = (case ListResourcesWithTargets d of
       (Inl _, d1) \<Rightarrow> (internal_error, d1, [])
     | (Inr rs, d1) \<Rightarrow> (respond 200 (ResourcesBody rs), d1, []))"

definition listUsersHandler :: session_handler where
  "listUsersHandler e rq sess d = (case ListUsers d of
       (Inl _, d1) \<Rightarrow> (internal_error, d1, [])
     | (Inr us, d1) \<Rightarrow> (respond 200 (UsersBody us), d1, []))"

definition bad_role :: response where
  "bad_role = http_Error (Msg (''role must be '' @ [CHR 0x22] @ ''admin'' @ [CHR 0x22] @ '' or ''
     @ [CHR 0x22] @ ''viewer'' @ [CHR 0x22])) 400"

section \<open>Mutations of an administrator\<close>

definition optional :: "string \<Rightarrow> string option" where
  "optional s = (if s \<noteq> [] then Some s else None)"

definition resource_args :: "createResourceRequest \<Rightarrow> ResourceArgs" where
  "resource_args req = \<lparr>a_protocol = cr_Protocol req, a_domain = optional (cr_Domain req),
     a_entryPoint = cr_EntryPoint req, a_certResolver = optional (cr_CertResolver req),
     a_targetScheme = cr_TargetScheme req, a_targetSkipVerify = cr_TargetSkipVerify req, a_sticky = cr_Sticky req\<rparr>"

definition createResourceHandler :: session_handler where
  "createResourceHandler e rq sess d = (case decodeResourceRequest rq of
       None \<Rightarrow> (bad_json, d, [])
     | Some (req, targets) \<Rightarrow> (case CreateResource (cr_Name req) (resource_args req) targets d of
         (Inl err, d1) \<Rightarrow> (http_Error (ResourceMsg err) 400, d1, [])
       | (Inr _, d1) \<Rightarrow> (respond 201 NoBody, d1, [])))"

definition updateResourceHandler :: "string \<Rightarrow> session_handler" where
  "updateResourceHandler name e rq sess d = (case decodeResourceRequest rq of
       None \<Rightarrow> (bad_json, d, [])
     | Some (req, targets) \<Rightarrow> (case UpdateResource name (resource_args req) targets d of
         (Inl err, d1) \<Rightarrow> (http_Error (ResourceMsg err) 400, d1, [])
       | (Inr _, d1) \<Rightarrow> (respond 200 NoBody, d1, [])))"

definition deleteResourceHandler :: "string \<Rightarrow> session_handler" where
  "deleteResourceHandler name e rq sess d = (case DeleteResource name d of
       (Inl err, d1) \<Rightarrow> (http_Error (ResourceMsg err) 404, d1, [])
     | (Inr _, d1) \<Rightarrow> (respond 204 NoBody, d1, []))"

definition newline :: string where
  "newline = [CHR 0x0A]"

definition invite_mail :: "string \<Rightarrow> string \<Rightarrow> string \<Rightarrow> string" where
  "invite_mail baseURL role token =
     ''You''@ [CHR 0x27] @ ''ve been invited to the rv-tx dashboard as a '' @ role @ ''.'' @ newline @ newline
     @ ''Set your password here (link expires in 7 days):'' @ newline
     @ (baseURL @ ''/accept-invite?token='' @ token) @ newline"

definition inviteUserHandler :: session_handler where
  "inviteUserHandler e rq sess d =
     (case decode_body email_role_fields \<lparr>er_Email = [], er_Role = []\<rparr> (rq_body rq) of
        None \<Rightarrow> (bad_json, d, [])
      | Some req \<Rightarrow>
          if \<not> valid_email (er_Email req) then (http_Error (Msg ''invalid email address'') 400, d, [])
          else if \<not> validRole (er_Role req) then (bad_role, d, [])
          else (case RandomToken (e_entropy e) of
              None \<Rightarrow> (internal_error, d, [])
            | Some token \<Rightarrow>
              (case CreateInvite (e_now e) (e_pg_now e) (er_Email req) (er_Role req) token d of
                 (Inl err, d1) \<Rightarrow> (http_Error (UserMsg err) 400, d1, [])
               | (Inr _, d1) \<Rightarrow>
                   (case Send (e_relay e) (e_smtp e) (er_Email req) ''rv-tx dashboard invite''
                           (invite_mail (e_baseURL e) (er_Role req) token) of
                      (Inl err, sent) \<Rightarrow> (http_Error (MailMsg err) 502, d1, sent)
                    | (Inr _, sent) \<Rightarrow> (respond 201 NoBody, d1, sent)))))"

definition deleteUserHandler :: "string \<Rightarrow> session_handler" where
  "deleteUserHandler email e rq sess d =
     (if email = s_Email sess then (http_Error (Msg ''cannot delete your own account'') 400, d, [])
      else (case DeleteUser email d of
          (Inl err, d1) \<Rightarrow> (http_Error (UserMsg err) 404, d1, [])
        | (Inr _, d1) \<Rightarrow> (respond 204 NoBody, d1, [])))"

definition setUserRoleHandler :: "string \<Rightarrow> session_handler" where
  "setUserRoleHandler email e rq sess d =
     (if email = s_Email sess then (http_Error (Msg ''cannot change your own role'') 400, d, [])
      else (case decode_body (one_string ''role'') [] (rq_body rq) of
          None \<Rightarrow> (bad_json, d, [])
        | Some role \<Rightarrow>
            if \<not> validRole role then (bad_role, d, [])
            else (case SetUserRole email role d of
                (Inl err, d1) \<Rightarrow> (http_Error (UserMsg err) 404, d1, [])
              | (Inr _, d1) \<Rightarrow> (respond 200 NoBody, d1, []))))"

section \<open>The open account flows\<close>

definition inviteInfoHandler :: handler where
  "inviteInfoHandler e rq d = (case UserByInviteToken (e_pg_now e) (rq_token rq) d of
       (None, d1) \<Rightarrow> (http_Error (Msg ''invite link is invalid or expired'') 404, d1, [])
     | (Some user, d1) \<Rightarrow> (respond 200 (IdentityBody (u_Email user) (u_Role user)), d1, []))"

definition acceptInviteHandler :: handler where
  "acceptInviteHandler e rq d =
     (case decode_body token_password_fields \<lparr>tp_Token = [], tp_Password = []\<rparr> (rq_body rq) of
        None \<Rightarrow> (bad_json, d, [])
      | Some req \<Rightarrow>
          if length (tp_Password req) < 8 then (http_Error (Msg ''password must be at least 8 characters'') 400, d, [])
          else (case HashPassword (e_generate e) (tp_Password req) of
              None \<Rightarrow> (internal_error, d, [])
            | Some hash \<Rightarrow> (case AcceptInvite (e_pg_now e) (tp_Token req) hash d of
                (Inl _, d1) \<Rightarrow> (http_Error (Msg ''invite link is invalid or expired'') 400, d1, [])
              | (Inr _, d1) \<Rightarrow> (respond 200 NoBody, d1, []))))"

definition reset_mail :: "string \<Rightarrow> string \<Rightarrow> string" where
  "reset_mail baseURL token =
     ''A password reset was requested for your rv-tx dashboard account.'' @ newline @ newline
     @ ''Reset it here (link expires in 1 hour):'' @ newline
     @ (baseURL @ ''/reset-password?token='' @ token) @ newline @ newline
     @ ''If you didn'' @ [CHR 0x27] @ ''t request this, ignore this email.'' @ newline"

definition forgotPasswordHandler :: handler where
  "forgotPasswordHandler e rq d = (case decode_body (one_string ''email'') [] (rq_body rq) of
       None \<Rightarrow> (bad_json, d, [])
     | Some email \<Rightarrow> (case RandomToken (e_entropy e) of
         None \<Rightarrow> (internal_error, d, [])
       | Some token \<Rightarrow> (case CreateResetToken (e_now e) email token d of
           (Inl _, d1) \<Rightarrow> (internal_error, d1, [])
         | (Inr existed, d1) \<Rightarrow> (respond 200 NoBody, d1,
              if existed then snd (Send (e_relay e) (e_smtp e) email ''rv-tx dashboard password reset''
                  (reset_mail (e_baseURL e) token)) else []))))"

definition resetPasswordHandler :: handler where
  "resetPasswordHandler e rq d =
     (case decode_body token_password_fields \<lparr>tp_Token = [], tp_Password = []\<rparr> (rq_body rq) of
        None \<Rightarrow> (bad_json, d, [])
      | Some req \<Rightarrow>
          if length (tp_Password req) < 8 then (http_Error (Msg ''password must be at least 8 characters'') 400, d, [])
          else (case HashPassword (e_generate e) (tp_Password req) of
              None \<Rightarrow> (internal_error, d, [])
            | Some hash \<Rightarrow> (case ResetPassword (e_pg_now e) (tp_Token req) hash d of
                (Inl _, d1) \<Rightarrow> (http_Error (Msg ''reset link is invalid or expired'') 400, d1, [])
              | (Inr _, d1) \<Rightarrow> (respond 200 NoBody, d1, []))))"

section \<open>Files of the dashboard, and the routes\<close>

text \<open>\<open>fs.Stat\<close>, which takes no path with an empty element.\<close>

definition dist_stat :: "env \<Rightarrow> string \<Rightarrow> dist_entry option" where
  "dist_stat e path = (if [] \<in> set (Split path (CHR ''/'')) then None else e_dist e path)"

text \<open>
  What \<open>http.FileServer\<close> answers for a path that names an entry: index.html is only served
  as the root, and a directory is redirected to its name with a slash.
\<close>

definition FileServer :: "dist_entry \<Rightarrow> string \<Rightarrow> response" where
  "FileServer entry path =
     (if path = [] then respond 200 (FileServed ''index.html'')
      else let base = last (Split path (CHR ''/'')) in
        if base = ''index.html'' then respond 301 (Redirect ''./'')
        else case entry of DistFile \<Rightarrow> respond 200 (FileServed path) | DistDir \<Rightarrow> respond 301 (Redirect (base @ ''/'')))"

definition spaHandler :: handler where
  "spaHandler e rq d =
     (let path = Join (rq_path rq) ''/'' in
      case dist_stat e (if path = [] then ''index.html'' else path) of
        None \<Rightarrow> (respond 200 IndexPage, d, [])
      | Some entry \<Rightarrow> (FileServer entry path, d, []))"

datatype route =
    WsAgent | Healthz | TraefikRoute | Login | Logout | InviteInfo | AcceptRoute | ForgotRoute | ResetRoute
  | Whoami | GetNodes | GetResources | PostResource | PutResource string | DeleteResourceRoute string
  | GetUsers | PostUser | DeleteUserRoute string | PutRole string | Spa

text \<open>A GET pattern also matches HEAD; a wildcard matches one segment that is not empty.\<close>

definition is_get :: "string \<Rightarrow> bool" where
  "is_get m \<longleftrightarrow> m = ''GET'' \<or> m = ''HEAD''"

definition mux :: "string \<Rightarrow> string list \<Rightarrow> route" where
  "mux m p =
     (if p = [''ws'', ''agent''] then WsAgent
      else if p = [''healthz''] then Healthz
      else if p = [''traefik'', ''config''] then TraefikRoute
      else if m = ''POST'' \<and> p = [''api'', ''login''] then Login
      else if m = ''POST'' \<and> p = [''api'', ''logout''] then Logout
      else if is_get m \<and> p = [''api'', ''invite-info''] then InviteInfo
      else if m = ''POST'' \<and> p = [''api'', ''accept-invite''] then AcceptRoute
      else if m = ''POST'' \<and> p = [''api'', ''forgot-password''] then ForgotRoute
      else if m = ''POST'' \<and> p = [''api'', ''reset-password''] then ResetRoute
      else if is_get m \<and> p = [''api'', ''whoami''] then Whoami
      else if is_get m \<and> p = [''api'', ''nodes''] then GetNodes
      else if is_get m \<and> p = [''api'', ''resources''] then GetResources
      else if m = ''POST'' \<and> p = [''api'', ''resources''] then PostResource
      else if is_get m \<and> p = [''api'', ''users''] then GetUsers
      else if m = ''POST'' \<and> p = [''api'', ''users''] then PostUser
      else (case p of
          [a, b, x] \<Rightarrow> if a = ''api'' \<and> b = ''resources'' \<and> x \<noteq> [] \<and> m = ''PUT'' then PutResource x
            else if a = ''api'' \<and> b = ''resources'' \<and> x \<noteq> [] \<and> m = ''DELETE'' then DeleteResourceRoute x
            else if a = ''api'' \<and> b = ''users'' \<and> x \<noteq> [] \<and> m = ''DELETE'' then DeleteUserRoute x
            else Spa
        | [a, b, x, c] \<Rightarrow> if a = ''api'' \<and> b = ''users'' \<and> x \<noteq> [] \<and> c = ''role'' \<and> m = ''PUT'' then PutRole x
            else Spa
        | _ \<Rightarrow> Spa))"

text \<open>
  The handlers that work on the database alone: all but the agents' WebSocket, whose handler
  is \<open>HandleWS\<close> of the Server.
\<close>

fun api_handler :: "route \<Rightarrow> handler option" where
  "api_handler WsAgent = None"
| "api_handler Healthz = Some healthzHandler"
| "api_handler TraefikRoute = Some traefikConfigHandler"
| "api_handler Login = Some loginHandler"
| "api_handler Logout = Some logoutHandler"
| "api_handler InviteInfo = Some inviteInfoHandler"
| "api_handler AcceptRoute = Some acceptInviteHandler"
| "api_handler ForgotRoute = Some forgotPasswordHandler"
| "api_handler ResetRoute = Some resetPasswordHandler"
| "api_handler Whoami = Some (requireAuth whoamiHandler)"
| "api_handler GetNodes = Some (requireAuth listNodesHandler)"
| "api_handler GetResources = Some (requireAuth listResourcesHandler)"
| "api_handler PostResource = Some (requireAdmin createResourceHandler)"
| "api_handler (PutResource x) = Some (requireAdmin (updateResourceHandler x))"
| "api_handler (DeleteResourceRoute x) = Some (requireAdmin (deleteResourceHandler x))"
| "api_handler GetUsers = Some (requireAdmin listUsersHandler)"
| "api_handler PostUser = Some (requireAdmin inviteUserHandler)"
| "api_handler (DeleteUserRoute x) = Some (requireAdmin (deleteUserHandler x))"
| "api_handler (PutRole x) = Some (requireAdmin (setUserRoleHandler x))"
| "api_handler Spa = Some spaHandler"

definition api_serve :: "env \<Rightarrow> request \<Rightarrow> db \<Rightarrow> reply option" where
  "api_serve e rq d = map_option (\<lambda>h. h e rq d) (api_handler (mux (rq_method rq) (rq_path rq)))"

text \<open>
  The other side of a WebSocket: whether the upgrade works and as which connection, what the
  library answers when it does not, the peer's address, which connections can be written,
  and the messages that are read with the database's clock.
\<close>

record socket =
  so_upgraded :: "nat option"
  so_refusal :: response
  so_remote :: string
  so_alive :: "nat \<Rightarrow> bool"
  so_msgs :: "(int \<times> Envelope) list"

text \<open>A request is served on the state of the process, of which the database is a part.\<close>

definition dispatch ::
  "route \<Rightarrow> socket \<Rightarrow> env \<Rightarrow> request \<Rightarrow> Server \<Rightarrow> response \<times> Server \<times> smtp_cmd list" where
  "dispatch r so e rq s = (case api_handler r of
       Some h \<Rightarrow> (case h e rq (srv_db s) of (rs, d, sent) \<Rightarrow> (rs, with_db s d, sent))
     | None \<Rightarrow> (case so_upgraded so of None \<Rightarrow> so_refusal so | Some _ \<Rightarrow> respond 101 Upgrade,
         HandleWS (so_alive so) (so_upgraded so) (so_remote so) (so_msgs so) s, []))"

definition serve :: "socket \<Rightarrow> env \<Rightarrow> request \<Rightarrow> Server \<Rightarrow> response \<times> Server \<times> smtp_cmd list" where
  "serve so e rq s = dispatch (mux (rq_method rq) (rq_path rq)) so e rq s"

section \<open>What a request may change\<close>

lemma run_statement_read:
  assumes "run_statement body d = (r, d')" "\<And>a r b. body a = (r, b) \<Longrightarrow> b = a"
  shows "same_tables d d' \<and> db_ok d' = db_ok d"
  using assms(1)
proof (rule run_statement_cases)
  fix d1 assume "statement d = (True, d1)" "body d1 = (r, d')"
  moreover from this have "d' = d1" using assms(2) by blast
  ultimately show ?thesis by (auto intro: statement_same simp: statement_ok)
qed (auto intro: statement_same simp: statement_ok)

lemma UserByEmail_read: "UserByEmail em d = (r, d') \<Longrightarrow> same_tables d d' \<and> db_ok d' = db_ok d"
  by (auto simp: UserByEmail_def split: prod.splits sum.splits option.splits dest!: run_statement_read)

lemma UserByInviteToken_read: "UserByInviteToken now tok d = (r, d') \<Longrightarrow> same_tables d d' \<and> db_ok d' = db_ok d"
  by (auto simp: UserByInviteToken_def split: prod.splits sum.splits option.splits dest!: run_statement_read)

lemma ListUsers_read: "ListUsers d = (r, d') \<Longrightarrow> same_tables d d' \<and> db_ok d' = db_ok d"
  by (auto simp: ListUsers_def split: prod.splits sum.splits dest!: run_statement_read)

lemma ListNodes_read: "ListNodes d = (r, d') \<Longrightarrow> same_tables d d' \<and> db_ok d' = db_ok d"
  unfolding ListNodes_def by (erule run_statement_read) auto

lemma ListResources_read: "ListResourcesWithTargets d = (r, d') \<Longrightarrow> same_tables d d' \<and> db_ok d' = db_ok d"
  by (auto simp: ListResourcesWithTargets_def split: prod.splits sum.splits dest!: run_statement_read)

lemmas reads = UserByEmail_read UserByInviteToken_read ListUsers_read ListNodes_read ListResources_read

text \<open>What an account is to the rest of the system: everything but its password and tokens.\<close>

definition identity :: "UserRow \<Rightarrow> nat \<times> string \<times> string \<times> int" where
  "identity u = (user_id u, user_email u, user_role u, user_created_at u)"

definition same_but_credentials :: "db \<Rightarrow> db \<Rightarrow> bool" where
  "same_but_credentials a b \<longleftrightarrow> nodes a = nodes b \<and> resources a = resources b
     \<and> resource_targets a = resource_targets b \<and> map identity (users a) = map identity (users b)"

lemma same_but_credentials_refl [simp]: "same_but_credentials d d"
  by (simp add: same_but_credentials_def)

lemma same_tables_credentials: "same_tables a b \<Longrightarrow> same_but_credentials a b"
  by (simp add: same_tables_def same_but_credentials_def)

lemma same_but_credentials_trans:
  "same_but_credentials a b \<Longrightarrow> same_but_credentials b c \<Longrightarrow> same_but_credentials a c"
  by (simp add: same_but_credentials_def)

lemma same_but_credentials_update:
  assumes "\<And>u. identity (f u) = identity u"
  shows "same_but_credentials d (d\<lparr>users := update_where p f (users d)\<rparr>)"
  using assms by (simp add: same_but_credentials_def map_update_where_same)

lemma run_statement_credentials:
  assumes "run_statement body d = (r, d')" "\<And>a r b. body a = (r, b) \<Longrightarrow> same_but_credentials a b"
  shows "same_but_credentials d d'"
  using assms(1)
proof (rule run_statement_cases)
  fix d1 assume "statement d = (True, d1)" "body d1 = (r, d')"
  then have "same_but_credentials d d1" "same_but_credentials d1 d'"
    using assms(2) by (auto intro: same_tables_credentials statement_same)
  then show ?thesis by (rule same_but_credentials_trans)
qed (auto intro: same_tables_credentials statement_same)

lemma credential_bodies:
  "accept_invite_body now tok h a = (r, b) \<Longrightarrow> same_but_credentials a b"
  "reset_password_body now tok h a = (r, b) \<Longrightarrow> same_but_credentials a b"
  by (auto simp: accept_invite_body_def reset_password_body_def identity_def intro!: same_but_credentials_update)

lemma create_reset_credentials: "create_reset_body em tok t a = (r, b) \<Longrightarrow> same_but_credentials a b"
  by (auto simp: create_reset_body_def identity_def split: if_splits intro!: same_but_credentials_update)

lemma AcceptInvite_credentials: "AcceptInvite now tok h d = (r, d') \<Longrightarrow> same_but_credentials d d'"
  by (auto simp: AcceptInvite_def split: prod.splits sum.splits if_splits
      dest!: run_statement_credentials [OF _ credential_bodies(1)])

lemma ResetPassword_credentials: "ResetPassword now tok h d = (r, d') \<Longrightarrow> same_but_credentials d d'"
  by (auto simp: ResetPassword_def split: prod.splits sum.splits if_splits
      dest!: run_statement_credentials [OF _ credential_bodies(2)])

lemma CreateResetToken_credentials: "CreateResetToken t em tok d = (r, d') \<Longrightarrow> same_but_credentials d d'"
  by (auto simp: CreateResetToken_def split: prod.splits sum.splits
      dest!: run_statement_credentials [OF _ create_reset_credentials])

text \<open>The guards.\<close>

definition session_of :: "env \<Rightarrow> request \<Rightarrow> Session option" where
  "session_of e rq = ValidSession (e_mac e) (e_now e) (rq_cookies rq) (e_secret e)"

lemma requireAuth_cases:
  "requireAuth h e rq d = (case session_of e rq of
     None \<Rightarrow> (http_Error (Msg ''unauthorized'') 401, d, []) | Some sess \<Rightarrow> h e rq sess d)"
  by (simp add: requireAuth_def session_of_def)

lemma requireAdmin_cases:
  "requireAdmin h e rq d = (case session_of e rq of
     None \<Rightarrow> (http_Error (Msg ''unauthorized'') 401, d, [])
   | Some sess \<Rightarrow> if IsAdmin sess then h e rq sess d
       else (http_Error (Msg ''forbidden: admin role required'') 403, d, []))"
  by (auto simp: requireAdmin_def requireAuth_cases split: option.splits)

definition is_admin :: "env \<Rightarrow> request \<Rightarrow> bool" where
  "is_admin e rq = (case session_of e rq of None \<Rightarrow> False | Some s \<Rightarrow> IsAdmin s)"

lemma requireAdmin_denied: "\<not> is_admin e rq \<Longrightarrow> requireAdmin h e rq d = (rs, d', sent) \<Longrightarrow> d' = d \<and> sent = []"
  by (auto simp: requireAdmin_cases is_admin_def split: option.splits if_splits)

text \<open>Handler by handler: what each may change, and that it keeps the schema's constraints.\<close>

lemma loginHandler_read: "loginHandler e rq d = (rs, d', sent) \<Longrightarrow> same_tables d d' \<and> db_ok d' = db_ok d"
  by (auto simp: loginHandler_def split: option.splits prod.splits sum.splits if_splits dest: UserByEmail_read)

lemma inviteInfoHandler_read: "inviteInfoHandler e rq d = (rs, d', sent) \<Longrightarrow> same_tables d d' \<and> db_ok d' = db_ok d"
  by (auto simp: inviteInfoHandler_def split: option.splits prod.splits sum.splits if_splits dest: UserByInviteToken_read)

lemma traefikConfigHandler_read: "traefikConfigHandler e rq d = (rs, d', sent) \<Longrightarrow> same_tables d d' \<and> db_ok d' = db_ok d"
  by (auto simp: traefikConfigHandler_def split: option.splits prod.splits sum.splits if_splits dest: ListResources_read)

lemma listNodesHandler_read: "listNodesHandler e rq sess d = (rs, d', sent) \<Longrightarrow> same_tables d d' \<and> db_ok d' = db_ok d"
  by (auto simp: listNodesHandler_def split: prod.splits sum.splits dest: ListNodes_read)

lemma listResourcesHandler_read: "listResourcesHandler e rq sess d = (rs, d', sent) \<Longrightarrow> same_tables d d' \<and> db_ok d' = db_ok d"
  by (auto simp: listResourcesHandler_def split: prod.splits sum.splits dest: ListResources_read)

lemma listUsersHandler_read: "listUsersHandler e rq sess d = (rs, d', sent) \<Longrightarrow> same_tables d d' \<and> db_ok d' = db_ok d"
  by (auto simp: listUsersHandler_def split: prod.splits sum.splits dest: ListUsers_read)

lemma acceptInviteHandler_keeps:
  assumes "acceptInviteHandler e rq d = (rs, d', sent)"
  shows "same_but_credentials d d' \<and> (db_ok d \<longrightarrow> db_ok d')"
  using assms
  by (auto simp: acceptInviteHandler_def split: option.splits prod.splits sum.splits if_splits
      dest: AcceptInvite_credentials AcceptInvite_ok)

lemma resetPasswordHandler_keeps:
  assumes "resetPasswordHandler e rq d = (rs, d', sent)"
  shows "same_but_credentials d d' \<and> (db_ok d \<longrightarrow> db_ok d')"
  using assms
  by (auto simp: resetPasswordHandler_def split: option.splits prod.splits sum.splits if_splits
      dest: ResetPassword_credentials ResetPassword_ok)

lemma forgotPasswordHandler_keeps:
  assumes "forgotPasswordHandler e rq d = (rs, d', sent)"
  shows "same_but_credentials d d' \<and> (db_ok d \<longrightarrow> db_ok d')"
  using assms
  by (auto simp: forgotPasswordHandler_def split: option.splits prod.splits sum.splits if_splits
      dest: CreateResetToken_credentials CreateResetToken_ok)

text \<open>A guarded handler runs only with a session, so it inherits the laws of the bare one.\<close>

lemma requireAuth_keeps:
  assumes "requireAuth h e rq d = (rs, d', sent)" "P d"
    and "\<And>sess. h e rq sess d = (rs, d', sent) \<Longrightarrow> P d'"
  shows "P d'"
  using assms by (auto simp: requireAuth_cases split: option.splits)

lemma requireAdmin_keeps:
  assumes "requireAdmin h e rq d = (rs, d', sent)" "P d"
    and "\<And>sess. IsAdmin sess \<Longrightarrow> h e rq sess d = (rs, d', sent) \<Longrightarrow> P d'"
  shows "P d'"
  using assms by (auto simp: requireAdmin_cases split: option.splits if_splits)

lemma createResourceHandler_ok: "db_ok d \<Longrightarrow> createResourceHandler e rq sess d = (rs, d', sent) \<Longrightarrow> db_ok d'"
  by (auto simp: createResourceHandler_def split: option.splits prod.splits sum.splits dest: CreateResource_ok)

lemma updateResourceHandler_ok: "db_ok d \<Longrightarrow> updateResourceHandler x e rq sess d = (rs, d', sent) \<Longrightarrow> db_ok d'"
  by (auto simp: updateResourceHandler_def split: option.splits prod.splits sum.splits dest: UpdateResource_ok)

lemma deleteResourceHandler_ok: "db_ok d \<Longrightarrow> deleteResourceHandler x e rq sess d = (rs, d', sent) \<Longrightarrow> db_ok d'"
  by (auto simp: deleteResourceHandler_def split: prod.splits sum.splits dest: DeleteResource_ok)

lemma inviteUserHandler_ok: "db_ok d \<Longrightarrow> inviteUserHandler e rq sess d = (rs, d', sent) \<Longrightarrow> db_ok d'"
  by (auto simp: inviteUserHandler_def split: option.splits prod.splits sum.splits if_splits dest: CreateInvite_ok)

lemma deleteUserHandler_ok: "db_ok d \<Longrightarrow> deleteUserHandler x e rq sess d = (rs, d', sent) \<Longrightarrow> db_ok d'"
  by (auto simp: deleteUserHandler_def split: prod.splits sum.splits if_splits dest: DeleteUser_ok)

lemma setUserRoleHandler_ok: "db_ok d \<Longrightarrow> setUserRoleHandler x e rq sess d = (rs, d', sent) \<Longrightarrow> db_ok d'"
  by (auto simp: setUserRoleHandler_def split: option.splits prod.splits sum.splits if_splits dest: SetUserRole_ok)

lemmas quiet_handlers = healthzHandler_def logoutHandler_def spaHandler_def whoamiHandler_def

lemma serve_db_ok:
  assumes ok: "db_ok d" and run: "api_serve e rq d = Some (rs, d', sent)"
  shows "db_ok d'"
proof -
  note auth = requireAuth_keeps [where P = db_ok, OF _ ok]
  note admin = requireAdmin_keeps [where P = db_ok, OF _ ok]
  show ?thesis
  proof (cases "mux (rq_method rq) (rq_path rq)")
    case Spa
    then show ?thesis using ok run by (auto simp: api_serve_def quiet_handlers Let_def split: if_splits option.splits)
  qed (use run ok in \<open>simp_all only: api_serve_def api_handler.simps option.map option.inject option.distinct prod.inject quiet_handlers\<close>,
    auto simp: whoamiHandler_def dest: loginHandler_read inviteInfoHandler_read traefikConfigHandler_read
      acceptInviteHandler_keeps resetPasswordHandler_keeps forgotPasswordHandler_keeps
      elim!: auth admin dest!: listNodesHandler_read listResourcesHandler_read listUsersHandler_read
      intro: createResourceHandler_ok updateResourceHandler_ok deleteResourceHandler_ok inviteUserHandler_ok
        deleteUserHandler_ok setUserRoleHandler_ok)
qed

lemma no_admin_same:
  assumes denied: "\<not> is_admin e rq" and run: "api_serve e rq d = Some (rs, d', sent)"
  shows "same_but_credentials d d'"
proof -
  note auth = requireAuth_keeps [where P = "same_but_credentials d", OF _ same_but_credentials_refl]
  note same = same_tables_credentials [OF conjunct1]
  note admin = requireAdmin_denied [OF denied]
  show ?thesis
  proof (cases "mux (rq_method rq) (rq_path rq)")
    case Spa
    then show ?thesis using run by (auto simp: api_serve_def quiet_handlers Let_def split: if_splits option.splits)
  qed (use run in \<open>simp_all only: api_serve_def api_handler.simps option.map option.inject option.distinct prod.inject quiet_handlers\<close>,
    auto simp: whoamiHandler_def dest: admin same [OF loginHandler_read] same [OF inviteInfoHandler_read] same [OF traefikConfigHandler_read]
      acceptInviteHandler_keeps resetPasswordHandler_keeps forgotPasswordHandler_keeps
      same [OF listNodesHandler_read] same [OF listResourcesHandler_read] elim!: auth)
qed

section \<open>The guards of the routes\<close>

fun needs_admin :: "route \<Rightarrow> bool" where
  "needs_admin PostResource = True"
| "needs_admin (PutResource x) = True"
| "needs_admin (DeleteResourceRoute x) = True"
| "needs_admin GetUsers = True"
| "needs_admin PostUser = True"
| "needs_admin (DeleteUserRoute x) = True"
| "needs_admin (PutRole x) = True"
| "needs_admin _ = False"

definition needs_session :: "route \<Rightarrow> bool" where
  "needs_session r \<longleftrightarrow> needs_admin r \<or> r = Whoami \<or> r = GetNodes \<or> r = GetResources"

lemma guarded_without_session:
  assumes "needs_session (mux (rq_method rq) (rq_path rq))" "session_of e rq = None"
  shows "api_serve e rq d = Some (http_Error (Msg ''unauthorized'') 401, d, [])"
  using assms by (cases "mux (rq_method rq) (rq_path rq)")
    (simp_all add: needs_session_def api_serve_def requireAuth_cases requireAdmin_cases)

lemma guarded_without_role:
  assumes "needs_admin (mux (rq_method rq) (rq_path rq))" "session_of e rq = Some s" "\<not> IsAdmin s"
  shows "api_serve e rq d = Some (http_Error (Msg ''forbidden: admin role required'') 403, d, [])"
  using assms by (cases "mux (rq_method rq) (rq_path rq)") (simp_all add: api_serve_def requireAdmin_cases)

section \<open>Logging in\<close>

definition login_request :: "request \<Rightarrow> loginRequest option" where
  "login_request rq = decode_body login_fields \<lparr>lr_Email = [], lr_Password = []\<rparr> (rq_body rq)"

definition login_refused :: response where
  "login_refused = http_Error (Msg ''invalid email or password'') 401"

lemma UserByEmail_missing:
  assumes "faults d = []" "em \<notin> user_email ` set (users d)"
  shows "UserByEmail em d = (None, d)"
proof -
  have "List.find (\<lambda>u. user_email u = em) (users d) = None" using assms(2) by (auto simp: find_None_iff)
  then show ?thesis by (simp add: UserByEmail_def run_statement_served [OF assms(1)])
qed

lemma login_unknown:
  assumes "faults d = []" "login_request rq = Some req" "lr_Email req \<notin> user_email ` set (users d)"
  shows "loginHandler e rq d = (login_refused, d, [])"
  using assms UserByEmail_missing [OF assms(1,3)] by (simp add: loginHandler_def login_request_def login_refused_def)

lemma login_known:
  assumes "db_ok d" "faults d = []" "login_request rq = Some req" "u \<in> set (users d)" "user_email u = lr_Email req"
  shows "loginHandler e rq d =
    (if VerifyPassword (e_compare e) (deref [] (user_password_hash u)) (lr_Password req)
     then (respond 200 NoBody)\<lparr>rs_cookie := Some (NewSessionCookie (e_mac e) (e_now e) (e_secret e) (user_email u) (user_role u))\<rparr>
     else login_refused, d, [])"
  using assms(3,5) UserByEmail_found [OF assms(1,2,4)]
  by (simp add: loginHandler_def login_request_def login_refused_def to_User_def)

text \<open>The request that carries the cookie of a response.\<close>

definition presents :: "request \<Rightarrow> response \<Rightarrow> bool" where
  "presents rq rs \<longleftrightarrow> (\<exists>c. rs_cookie rs = Some c \<and> map_of (rq_cookies rq) CookieName = Some (c_Value c))"

lemma login_then_session:
  assumes "db_ok d" "faults d = []" "login_request rq = Some req" "u \<in> set (users d)" "user_email u = lr_Email req"
    and pw: "VerifyPassword (e_compare e) (deref [] (user_password_hash u)) (lr_Password req)"
    and shown: "presents rq' (fst (loginHandler e rq d))"
    and same: "e_mac e' = e_mac e" "e_secret e' = e_secret e"
    and time: "in_int64 (unix (e_now e + sessionTTL))"
  shows "session_of e' rq' = (if unix (e_now e') < unix (e_now e + sessionTTL)
    then Some \<lparr>s_Email = user_email u, s_Role = user_role u, s_Exp = unix (e_now e + sessionTTL)\<rparr> else None)"
proof -
  have "map_of (rq_cookies rq') CookieName
      = Some (c_Value (NewSessionCookie (e_mac e) (e_now e) (e_secret e) (user_email u) (user_role u)))"
    using shown pw login_known [OF assms(1-5), of e] by (auto simp: presents_def)
  then show ?thesis using new_cookie_valid [OF time] same by (simp add: session_of_def)
qed

section \<open>What a reset request tells\<close>

definition forgot_request :: "request \<Rightarrow> string option" where
  "forgot_request rq = decode_body (one_string ''email'') [] (rq_body rq)"

text \<open>
  The answer to a well-formed request does not depend on the address: 200 and no body, with
  a token that no other account holds.
\<close>

lemma forgot_answer:
  assumes "faults d = []" "forgot_request rq = Some em" "RandomToken (e_entropy e) = Some tok"
    and "\<not> holds_token user_reset_token tok d"
  shows "fst (forgotPasswordHandler e rq d) = respond 200 NoBody"
proof -
  have "\<not> list_ex (\<lambda>u. user_email u \<noteq> em \<and> user_reset_token u = Some tok) (users d)"
    using assms(4) by (auto simp: holds_token_def list_ex_iff)
  then have "\<exists>b d1. CreateResetToken (e_now e) em tok d = (Inr b, d1)"
    by (simp add: CreateResetToken_def run_statement_served [OF assms(1)] create_reset_body_def)
  then show ?thesis using assms(2,3) by (auto simp: forgotPasswordHandler_def forgot_request_def)
qed

text \<open>Mail goes out for a known address only, and the reset link only to that address.\<close>

lemma forgot_unknown_silent:
  assumes "faults d = []" "forgot_request rq = Some em" "em \<notin> user_email ` set (users d)"
  shows "snd (forgotPasswordHandler e rq d) = (d, [])"
  using assms(2) forgot_unknown [OF assms(1,3)]
  by (auto simp: forgotPasswordHandler_def forgot_request_def split: option.splits)

section \<open>An administrator's own account\<close>

lemma delete_keeps_others:
  "delete_user_body em a = (r, b) \<Longrightarrow> u \<in> set (users a) \<Longrightarrow> user_email u \<noteq> em \<Longrightarrow> u \<in> set (users b)"
  by (auto simp: delete_user_body_def)

lemma set_role_keeps_others:
  "set_role_body em ro a = (r, b) \<Longrightarrow> u \<in> set (users a) \<Longrightarrow> user_email u \<noteq> em \<Longrightarrow> u \<in> set (users b)"
  by (auto simp: set_role_body_def set_update_where)

lemma own_account_kept:
  assumes "u \<in> set (users d)" "user_email u = s_Email sess"
  shows "deleteUserHandler em e rq sess d = (rs, d', sent) \<Longrightarrow> u \<in> set (users d')"
    and "setUserRoleHandler em e rq sess d = (rs, d', sent) \<Longrightarrow> u \<in> set (users d')"
proof -
  have del: "DeleteUser em d = (r, d') \<Longrightarrow> em \<noteq> user_email u \<Longrightarrow> u \<in> set (users d')" for r d'
    using assms(1) by (auto simp: DeleteUser_def split: prod.splits sum.splits if_splits
        dest!: run_statement_users intro: delete_keeps_others)
  have role: "SetUserRole em ro d = (r, d') \<Longrightarrow> em \<noteq> user_email u \<Longrightarrow> u \<in> set (users d')" for ro r d'
    using assms(1) by (auto simp: SetUserRole_def split: prod.splits sum.splits if_splits
        dest!: run_statement_users intro: set_role_keeps_others)
  show "deleteUserHandler em e rq sess d = (rs, d', sent) \<Longrightarrow> u \<in> set (users d')"
    using assms del by (auto simp: deleteUserHandler_def split: prod.splits sum.splits if_splits)
  show "setUserRoleHandler em e rq sess d = (rs, d', sent) \<Longrightarrow> u \<in> set (users d')"
    using assms role by (auto simp: setUserRoleHandler_def split: option.splits prod.splits sum.splits if_splits)
qed

section \<open>Validation of addresses\<close>

lemma in_butlast_tl: "c \<in> set (butlast (tl b)) \<longleftrightarrow> (\<exists>x y. b = x @ c # y \<and> x \<noteq> [] \<and> y \<noteq> [])"
proof
  assume "c \<in> set (butlast (tl b))"
  then obtain u v where uv: "butlast (tl b) = u @ c # v" by (auto simp: in_set_conv_decomp)
  then have ne: "tl b \<noteq> []" "b \<noteq> []" by auto
  have "b = (hd b # u) @ c # (v @ [last (tl b)])"
    using append_butlast_last_id [OF ne(1)] uv ne by (metis append.assoc append_Cons list.collapse)
  then show "\<exists>x y. b = x @ c # y \<and> x \<noteq> [] \<and> y \<noteq> []" by blast
next
  assume "\<exists>x y. b = x @ c # y \<and> x \<noteq> [] \<and> y \<noteq> []"
  then obtain x y where "b = x @ c # y" "x \<noteq> []" "y \<noteq> []" by blast
  then show "c \<in> set (butlast (tl b))" by (cases x) (auto simp: butlast_append)
qed

lemma valid_email_iff:
  "valid_email s \<longleftrightarrow> (\<exists>a x y. s = a @ CHR ''@'' # x @ CHR ''.'' # y \<and> a \<noteq> [] \<and> x \<noteq> [] \<and> y \<noteq> []
     \<and> (\<forall>c \<in> set (a @ x @ y). c \<noteq> CHR ''@'' \<and> \<not> re_space c))"
proof -
  have dot: "\<not> re_space (CHR ''@'')" "\<not> re_space (CHR ''.'')" by (simp_all add: re_space_def)
  show ?thesis
  proof
    assume "valid_email s"
    then obtain a b where s: "s = a @ CHR ''@'' # b" "CHR ''@'' \<notin> set a" "a \<noteq> []" "CHR ''@'' \<notin> set b"
      "list_all (\<lambda>c. \<not> re_space c) s" "CHR ''.'' \<in> set (butlast (tl b))"
      by (auto simp: valid_email_def Cut_Some_iff split: option.splits)
    obtain x y where b: "b = x @ CHR ''.'' # y" "x \<noteq> []" "y \<noteq> []" using s(6) by (auto simp: in_butlast_tl)
    have sp: "\<forall>c \<in> set (a @ x @ y). \<not> re_space c" using s(5) unfolding s(1) b(1) by (auto simp: list_all_iff)
    have at: "\<forall>c \<in> set (a @ x @ y). c \<noteq> CHR ''@''" using s(2,4) unfolding b(1) by auto
    have "s = a @ CHR ''@'' # x @ CHR ''.'' # y \<and> a \<noteq> [] \<and> x \<noteq> [] \<and> y \<noteq> []
       \<and> (\<forall>c \<in> set (a @ x @ y). c \<noteq> CHR ''@'' \<and> \<not> re_space c)"
    proof (intro conjI ballI)
      show "s = a @ CHR ''@'' # x @ CHR ''.'' # y" unfolding s(1) b(1) ..
      show "a \<noteq> []" "x \<noteq> []" "y \<noteq> []" by fact+
      fix c assume "c \<in> set (a @ x @ y)"
      then show "c \<noteq> CHR ''@''" "\<not> re_space c" by (rule at [rule_format], rule sp [rule_format])
    qed
    then show "\<exists>a x y. s = a @ CHR ''@'' # x @ CHR ''.'' # y \<and> a \<noteq> [] \<and> x \<noteq> [] \<and> y \<noteq> []
       \<and> (\<forall>c \<in> set (a @ x @ y). c \<noteq> CHR ''@'' \<and> \<not> re_space c)"
      by (intro exI [of _ a] exI [of _ x] exI [of _ y])
  next
    assume "\<exists>a x y. s = a @ CHR ''@'' # x @ CHR ''.'' # y \<and> a \<noteq> [] \<and> x \<noteq> [] \<and> y \<noteq> []
       \<and> (\<forall>c \<in> set (a @ x @ y). c \<noteq> CHR ''@'' \<and> \<not> re_space c)"
    then show "valid_email s"
    proof (elim exE conjE)
      fix a x y assume s: "s = a @ CHR ''@'' # x @ CHR ''.'' # y" and ne: "a \<noteq> []" "x \<noteq> []" "y \<noteq> []"
        and ch: "\<forall>c \<in> set (a @ x @ y). c \<noteq> CHR ''@'' \<and> \<not> re_space c"
      have at: "CHR ''@'' \<notin> set a" "CHR ''@'' \<notin> set (x @ CHR ''.'' # y)" using ch by auto
      have "CHR ''.'' \<in> set (butlast (tl (x @ CHR ''.'' # y)))"
        unfolding in_butlast_tl by (intro exI [of _ x] exI [of _ y] conjI refl ne(2,3))
      moreover have "list_all (\<lambda>c. \<not> re_space c) s" using ch dot by (simp add: s list_all_iff)
      ultimately show ?thesis using at ne(1) by (simp add: valid_email_def s)
    qed
  qed
qed

section \<open>The agents' route\<close>

text \<open>
  \<open>HandleWS\<close> asks for no session. What it may do to the database, whoever connects and
  whatever is sent: nodes are added or updated under their name, none goes and none gets
  another address, and every other table stays.
\<close>

definition nodes_only :: "db \<Rightarrow> db \<Rightarrow> bool" where
  "nodes_only d d' \<longleftrightarrow> resources d' = resources d \<and> resource_targets d' = resource_targets d \<and> users d' = users d
     \<and> names_ips d \<subseteq> names_ips d'"

lemma nodes_only_refl [simp]: "nodes_only d d"
  by (simp add: nodes_only_def)

lemma nodes_only_trans: "nodes_only a b \<Longrightarrow> nodes_only b c \<Longrightarrow> nodes_only a c"
  by (auto simp: nodes_only_def)

lemma same_tables_nodes_only: "same_tables d d' \<Longrightarrow> nodes_only d d'"
  using names_ips_cong [of d' d] by (simp add: same_tables_def nodes_only_def)

lemma run_statement_nodes_only:
  assumes "run_statement body d = (r, d')" "\<And>a r b. body a = (r, b) \<Longrightarrow> nodes_only a b"
  shows "nodes_only d d'"
  using assms(1)
proof (rule run_statement_cases)
  fix d1 assume "statement d = (True, d1)" "body d1 = (r, d')"
  then show ?thesis using assms(2) nodes_only_trans same_tables_nodes_only [OF statement_same] by blast
qed (auto intro: same_tables_nodes_only statement_same)

lemma upsert_nodes_only: "upsert_body now name key ip ep subs a = (r, b) \<Longrightarrow> nodes_only a b"
proof (cases r)
  case (Inr got)
  assume run: "upsert_body now name key ip ep subs a = (r, b)"
  then have "names_ips a \<subseteq> names_ips b" using upsert_names_ips(1) Inr by blast
  then show ?thesis using run by (auto simp: nodes_only_def upsert_body_def split: option.splits if_splits)
qed (auto simp: upsert_body_def split: option.splits if_splits)

lemma touch_nodes_only: "touch_body now key a = (r, b) \<Longrightarrow> nodes_only a b"
  using touch_names_ips [of now key a r b] by (auto simp: nodes_only_def touch_body_def)

lemma node_statements_only:
  "UsedMeshIPs d = (r1, d') \<Longrightarrow> nodes_only d d'"
  "UpsertNode now name key ip ep subs d = (r2, d') \<Longrightarrow> nodes_only d d'"
  "ListNodes d = (r3, d') \<Longrightarrow> nodes_only d d'"
  "TouchLastSeen now key d = (r4, d') \<Longrightarrow> nodes_only d d'"
  unfolding UsedMeshIPs_def UpsertNode_def ListNodes_def TouchLastSeen_def
  by (erule run_statement_nodes_only, (auto intro: upsert_nodes_only touch_nodes_only) [])+

lemma handleHeartbeat_nodes_only: "handleHeartbeat alive now key s = (r, s') \<Longrightarrow> nodes_only (srv_db s) (srv_db s')"
  by (auto simp: handleHeartbeat_def split: prod.splits sum.splits
      dest!: node_statements_only(3,4) intro: nodes_only_trans)

lemma WriteJSON_db [simp]: "srv_db (snd (WriteJSON alive c e s)) = srv_db s"
  by (simp add: WriteJSON_def)

lemma handleRegister_nodes_only: "handleRegister alive now c h p s = (r, s') \<Longrightarrow> nodes_only (srv_db s) (srv_db s')"
proof -
  assume run: "handleRegister alive now c h p s = (r, s')"
  obtain u d1 where u: "UsedMeshIPs (srv_db s) = (u, d1)" by fastforce
  note only1 = node_statements_only(1) [OF u]
  show ?thesis
  proof (cases "\<exists>us cand. u = Inr us \<and> AllocateIP (srv_cidr s) us = Inr cand")
    case False
    then have "srv_db s' = d1" using run u by (cases u; auto simp: handleRegister_def split: sum.splits)
    then show ?thesis using only1 by simp
  next
    case True
    then obtain us cand where al: "u = Inr us" "AllocateIP (srv_cidr s) us = Inr cand" by blast
    obtain q d2 where q: "UpsertNode now (reg_Name p) (reg_PublicKey p) cand (endpoint_of h p) (reg_AdvertisedSubnets p) d1 = (q, d2)"
      by fastforce
    obtain l d3 where l: "ListNodes d2 = (l, d3)" by fastforce
    have "srv_db s' = d2 \<or> srv_db s' = d3"
      using run u al q l by (auto simp: handleRegister_def Let_def WriteJSON_def split: sum.splits prod.splits if_splits)
    then show ?thesis using only1 node_statements_only(2) [OF q] node_statements_only(3) [OF l]
      by (auto intro: nodes_only_trans)
  qed
qed

lemma handle_message_nodes_only:
  "nodes_only (srv_db s) (srv_db (snd (handle_message alive c h m (key, s))))"
  using handleRegister_nodes_only [OF prod.collapse [symmetric]] handleHeartbeat_nodes_only [OF prod.collapse [symmetric]]
  by (auto simp: handle_message_def split: prod.splits option.splits)

lemma HandleWS_nodes_only: "nodes_only (srv_db s) (srv_db (HandleWS alive upgraded remote msgs s))"
proof -
  have "nodes_only (srv_db (snd st)) (srv_db (snd (fold (handle_message alive c h) msgs st)))" for c h st
  proof (induction msgs arbitrary: st)
    case (Cons m msgs)
    have "nodes_only (srv_db (snd st)) (srv_db (snd (handle_message alive c h m st)))"
      using handle_message_nodes_only [of "snd st" alive c h m "fst st"] by simp
    from nodes_only_trans [OF this Cons.IH] show ?case by simp
  qed simp
  note run = this [where st = "([], s)"]
  show ?thesis
  proof (cases upgraded)
    case (Some c)
    obtain key s1 where f: "fold (handle_message alive c (remote_host remote)) msgs ([], s) = (key, s1)" by fastforce
    then show ?thesis using run [of c "remote_host remote"] by (simp add: HandleWS_def close_conn_def Some)
  qed (simp add: HandleWS_def)
qed

section \<open>A request on the process\<close>

lemma serve_cases:
  assumes "serve so e rq s = (rs, s', sent)"
  obtains "mux (rq_method rq) (rq_path rq) = WsAgent" "sent = []"
      "s' = HandleWS (so_alive so) (so_upgraded so) (so_remote so) (so_msgs so) s"
    | d' where "mux (rq_method rq) (rq_path rq) \<noteq> WsAgent" "api_serve e rq (srv_db s) = Some (rs, d', sent)" "s' = with_db s d'"
proof (cases "api_handler (mux (rq_method rq) (rq_path rq))")
  case None
  then have "mux (rq_method rq) (rq_path rq) = WsAgent" by (cases "mux (rq_method rq) (rq_path rq)") simp_all
  then show thesis using assms that(1) by (simp add: serve_def dispatch_def)
next
  case (Some h)
  then have "mux (rq_method rq) (rq_path rq) \<noteq> WsAgent" by auto
  then show thesis using assms that(2) Some by (auto simp: serve_def dispatch_def api_serve_def split: prod.splits)
qed

lemma serve_api:
  assumes "api_serve e rq (srv_db s) = Some (rs, d', sent)"
  shows "serve so e rq s = (rs, with_db s d', sent)"
  using assms by (auto simp: serve_def dispatch_def api_serve_def)

end
