(* ===== verification/ResourceStore.thy ===== *)
theory ResourceStore
  imports ResourcesList TraefikConfig
begin

text \<open>
  What the resource tables mean: a map from names to a resource's fields and its targets,
  each target a node's name or an address. The refinement: a successful create or update
  is the update of that map at one name, a delete is the removal, and a failed call leaves
  it unchanged. On the map, \<open>shape_ok\<close> is what \<open>validateTargets\<close> promises; as every
  entry was written by a create or an update it is an invariant, and with it the address in
  a generated tcp or udp service is always that of one of the resource's own targets.
\<close>

section \<open>The abstract store\<close>

text \<open>A target as it was asked for: node or address, port, role.\<close>

type_synonym abstract_target = "string option \<times> string option \<times> int \<times> string"
type_synonym abstract_resource = "ResourceArgs \<times> abstract_target list"
type_synonym store = "string \<rightharpoonup> abstract_resource"

definition row_args :: "ResourceRow \<Rightarrow> ResourceArgs" where
  "row_args r = \<lparr>a_protocol = res_protocol r, a_domain = res_domain r, a_entryPoint = res_entry_point r,
     a_certResolver = res_cert_resolver r, a_targetScheme = res_target_scheme r,
     a_targetSkipVerify = res_target_skip_verify r, a_sticky = res_sticky r\<rparr>"

definition view_target :: "Node list \<Rightarrow> TargetRow \<Rightarrow> abstract_target" where
  "view_target ns t = (case tgt_node_id t of
       None \<Rightarrow> None
     | Some i \<Rightarrow> map_option node_Name (List.find (\<lambda>n. node_ID n = i) ns), tgt_address t, tgt_port t, tgt_role t)"

definition view_row :: "db \<Rightarrow> ResourceRow \<Rightarrow> abstract_resource" where
  "view_row d r = (row_args r, map (view_target (nodes d)) (targets_of d r))"

definition store_view :: "db \<Rightarrow> store" where
  "store_view d name = map_option (view_row d) (List.find (\<lambda>r. res_name r = name) (resources d))"

definition spec_target :: "TargetSpec \<Rightarrow> abstract_target" where
  "spec_target t = (if spec_Address t \<noteq> [] then (None, Some (spec_Address t), spec_Port t, default_role (spec_Role t))
     else (Some (spec_NodeName t), None, spec_Port t, default_role (spec_Role t)))"

text \<open>The value a create or update writes: the scheme is normalised.\<close>

definition stored :: "ResourceArgs \<Rightarrow> TargetSpec list \<Rightarrow> abstract_resource" where
  "stored a ts = (a\<lparr>a_targetScheme := (if a_targetScheme a = [] then ''http'' else a_targetScheme a)\<rparr>, map spec_target ts)"

lemma store_view_cong: "same_tables d d' \<Longrightarrow> store_view d' = store_view d"
proof -
  assume same: "same_tables d d'"
  then have "targets_of d' r = targets_of d r" "nodes d' = nodes d" for r
    by (simp_all add: same_tables_def targets_of_def)
  then have v: "view_row d' = view_row d" by (simp add: fun_eq_iff view_row_def)
  have "resources d' = resources d" using same by (simp add: same_tables_def)
  then show ?thesis by (simp add: fun_eq_iff store_view_def v)
qed

lemma store_view_Some_iff:
  assumes "db_ok d"
  shows "store_view d name = Some v \<longleftrightarrow> (\<exists>r \<in> set (resources d). res_name r = name \<and> v = view_row d r)"
proof -
  have "distinct (map res_name (resources d))" using assms by (simp add: db_ok_def resources_ok_def)
  from distinct_map_find [OF this] show ?thesis by (auto simp: store_view_def)
qed

lemma store_view_None_iff: "store_view d name = None \<longleftrightarrow> name \<notin> res_name ` set (resources d)"
  by (auto simp: store_view_def find_None_iff)

section \<open>Inserting the targets\<close>

text \<open>What a successful run of the insertion loop leaves behind.\<close>

definition only_targets_added :: "nat \<Rightarrow> TargetSpec list \<Rightarrow> db \<Rightarrow> db \<Rightarrow> bool" where
  "only_targets_added rid ts d d' \<longleftrightarrow> nodes d' = nodes d \<and> resources d' = resources d \<and> users d' = users d
     \<and> (\<exists>new. resource_targets d' = resource_targets d @ new \<and> (\<forall>t \<in> set new. tgt_resource_id t = rid)
          \<and> map (view_target (nodes d)) new = map spec_target ts)"

lemma insert_target_success:
  assumes "run_statement (insert_target_body rid nid addr port role) d = (Inr u, d')"
  shows "nodes d' = nodes d \<and> resources d' = resources d \<and> users d' = users d
     \<and> resource_targets d' = resource_targets d @ [\<lparr>tgt_resource_id = rid, tgt_node_id = nid,
          tgt_address = addr, tgt_port = port, tgt_role = role\<rparr>]"
  using assms by (rule run_statement_cases)
    (auto simp: insert_target_body_def statement_tables split: if_splits)

lemma node_id_success:
  assumes "run_statement (node_id_body name) d = (Inr i, d')"
  shows "same_tables d d' \<and> (\<exists>n. List.find (\<lambda>n. node_Name n = name) (nodes d) = Some n \<and> node_ID n = i)"
  using assms by (rule run_statement_cases)
    (auto simp: node_id_body_def node_named_def statement_tables same_tables_def split: option.splits)

lemma find_by_id:
  assumes "nodes_ok d" "List.find (\<lambda>n. node_Name n = name) (nodes d) = Some n"
  shows "map_option node_Name (List.find (\<lambda>m. node_ID m = node_ID n) (nodes d)) = Some name"
proof -
  have "n \<in> set (nodes d)" "node_Name n = name" using find_SomeD [OF assms(2)] by auto
  moreover have "distinct (map node_ID (nodes d))" using assms(1) by (simp add: nodes_ok_def)
  ultimately show ?thesis using distinct_map_find [of node_ID "nodes d" "node_ID n" n] by simp
qed

lemma insert_one_success:
  assumes ok: "nodes_ok d" and run: "insert_one rid t d = (Inr u, d')"
  shows "only_targets_added rid [t] d d'"
proof (cases "spec_Address t = []")
  case False
  then have "\<exists>u. run_statement (insert_target_body rid None (Some (spec_Address t)) (spec_Port t) (default_role (spec_Role t))) d
      = (Inr u, d')"
    using run by (auto simp: insert_one_def Let_def split: prod.splits sum.splits)
  then show ?thesis using False insert_target_success
    by (fastforce simp: only_targets_added_def view_target_def spec_target_def)
next
  case True
  then obtain i d1 u' where i: "run_statement (node_id_body (spec_NodeName t)) d = (Inr i, d1)"
    and ins: "run_statement (insert_target_body rid (Some i) None (spec_Port t) (default_role (spec_Role t))) d1 = (Inr u', d')"
    using run by (auto simp: insert_one_def Let_def split: prod.splits sum.splits)
  obtain n where n: "List.find (\<lambda>n. node_Name n = spec_NodeName t) (nodes d) = Some n" "node_ID n = i"
    and same: "same_tables d d1" using node_id_success [OF i] by blast
  have "map_option node_Name (List.find (\<lambda>m. node_ID m = i) (nodes d)) = Some (spec_NodeName t)"
    using find_by_id [OF ok n(1)] n(2) by simp
  then show ?thesis using True same insert_target_success [OF ins]
    by (auto simp: only_targets_added_def view_target_def spec_target_def same_tables_def)
qed

lemma insertTargets_success:
  assumes "nodes_ok d" "insertTargets rid ts d = (Inr u, d')"
  shows "only_targets_added rid ts d d'"
  using assms(1,2)
proof (induction ts arbitrary: d)
  case Nil
  then show ?case by (simp add: only_targets_added_def)
next
  case (Cons t ts)
  obtain v d1 where one: "insert_one rid t d = (Inr v, d1)" and rest: "insertTargets rid ts d1 = (Inr u, d')"
    using Cons.prems(2) by (auto split: prod.splits sum.splits)
  have a: "only_targets_added rid [t] d d1" using Cons.prems(1) one by (rule insert_one_success)
  have "nodes_ok d1"
    using a Cons.prems(1) insert_one_next_id [OF one] by (auto simp: only_targets_added_def nodes_ok_def)
  from Cons.IH [OF this rest] a show ?case
    by (auto simp: only_targets_added_def)
qed

section \<open>Each operation is an operation on the store\<close>

lemma view_row_cong:
  "nodes d' = nodes d \<Longrightarrow> targets_of d' r = targets_of d r \<Longrightarrow> view_row d' r = view_row d r"
  by (simp add: view_row_def)

lemma targets_of_other:
  assumes "resource_targets d' = filter (\<lambda>t. tgt_resource_id t \<noteq> rid) (resource_targets d) @ new"
    and "\<forall>t \<in> set new. tgt_resource_id t = rid"
  shows "targets_of d' r = (if res_id r = rid then new else targets_of d r)"
proof (cases "res_id r = rid")
  case True
  then show ?thesis using assms by (simp add: targets_of_def filter_empty_conv)
next
  case False
  then have "filter (\<lambda>t. tgt_resource_id t = res_id r) new = []" using assms(2) by (auto simp: filter_empty_conv)
  moreover have "filter (\<lambda>t. tgt_resource_id t = res_id r) (filter (\<lambda>t. tgt_resource_id t \<noteq> rid) (resource_targets d))
      = filter (\<lambda>t. tgt_resource_id t = res_id r) (resource_targets d)"
    unfolding filter_filter using False by (intro filter_cong) auto
  ultimately show ?thesis using False by (simp add: targets_of_def assms(1))
qed

lemma insert_resource_success:
  assumes "run_statement (insert_resource_body name a) d = (Inr i, d')"
  shows "nodes d' = nodes d \<and> users d' = users d \<and> resource_targets d' = resource_targets d
    \<and> i = next_id d \<and> next_id d' = Suc (next_id d) \<and> name \<notin> res_name ` set (resources d)
    \<and> (\<exists>r. resources d' = resources d @ [r] \<and> res_id r = i \<and> res_name r = name \<and> row_args r = a)"
  using assms by (rule run_statement_cases)
    (auto simp: insert_resource_body_def statement_tables row_args_def split: if_splits)

lemma update_resource_success:
  assumes "run_statement (update_resource_body name a) d = (Inr i, d')"
  shows "nodes d' = nodes d \<and> users d' = users d \<and> resource_targets d' = resource_targets d
    \<and> resources d' = update_where (\<lambda>r. res_name r = name) (set_fields a) (resources d)
    \<and> next_id d' = next_id d \<and> (\<exists>r. List.find (\<lambda>r. res_name r = name) (resources d) = Some r \<and> res_id r = i)"
  using assms by (rule run_statement_cases)
    (auto simp: update_resource_body_def statement_tables split: option.splits if_splits)

lemma clear_targets_success:
  assumes "run_statement (clear_targets_body rid) d = (Inr u, d')"
  shows "nodes d' = nodes d \<and> users d' = users d \<and> resources d' = resources d \<and> next_id d' = next_id d
    \<and> resource_targets d' = filter (\<lambda>t. tgt_resource_id t \<noteq> rid) (resource_targets d)"
  using assms by (rule run_statement_cases) (auto simp: clear_targets_body_def statement_tables)

lemma find_append_new:
  "k \<notin> f ` set xs \<Longrightarrow> f x = k \<Longrightarrow>
    List.find (\<lambda>y. f y = n) (xs @ [x]) = (if n = k then Some x else List.find (\<lambda>y. f y = n) xs)"
  by (induction xs) auto

lemma find_update_where:
  "(\<And>x. f (g x) = f x) \<Longrightarrow> List.find (\<lambda>y. f y = n) (update_where (\<lambda>y. f y = k) g xs)
    = map_option (\<lambda>x. if n = k then g x else x) (List.find (\<lambda>y. f y = n) xs)"
  by (induction xs) auto

lemma create_tx_refines:
  assumes ok: "db_ok d" and run: "create_tx name a ts d = (Inr u, d')"
  shows "store_view d name = None \<and> store_view d' = (store_view d)(name \<mapsto> (a, map spec_target ts))
    \<and> nodes d' = nodes d \<and> users d' = users d"
proof -
  obtain i d1 where ins: "run_statement (insert_resource_body name a) d = (Inr i, d1)"
    and rest: "insertTargets i ts d1 = (Inr u, d')"
    using run by (auto simp: create_tx_def split: prod.splits sum.splits)
  note one = insert_resource_success [OF ins]
  obtain r where r: "resources d1 = resources d @ [r]" "res_id r = i" "res_name r = name" "row_args r = a"
    using one by blast
  have "nodes_ok d1" using ok one nodes_ok_cong [of d1 d] by (simp add: db_ok_def)
  from insertTargets_success [OF this rest] obtain new where new: "resource_targets d' = resource_targets d @ new"
    "\<forall>t \<in> set new. tgt_resource_id t = i" "map (view_target (nodes d)) new = map spec_target ts"
    "nodes d' = nodes d" "users d' = users d" "resources d' = resources d @ [r]"
    using one r(1) by (auto simp: only_targets_added_def)
  have "\<forall>t \<in> set (resource_targets d). tgt_resource_id t \<noteq> i"
    using ok one by (fastforce simp: db_ok_def resources_ok_def)
  then have "resource_targets d' = filter (\<lambda>t. tgt_resource_id t \<noteq> i) (resource_targets d) @ new"
    using new(1) by simp
  note t = targets_of_other [OF this new(2)]
  have v: "view_row d' x = view_row d x" if "x \<in> set (resources d)" for x
  proof -
    have "res_id x \<noteq> i" using that ok one by (auto simp: db_ok_def resources_ok_def)
    then show ?thesis by (intro view_row_cong) (simp_all add: new(4) t)
  qed
  have "view_row d' r = (a, map spec_target ts)" by (simp add: view_row_def t r(2,4) new(3,4))
  moreover have "name \<notin> res_name ` set (resources d)" using one by blast
  moreover have "map_option (view_row d') (List.find P (resources d)) = map_option (view_row d) (List.find P (resources d))" for P
    using v find_SomeD [of P "resources d"] by (cases "List.find P (resources d)") auto
  ultimately have "store_view d' = (store_view d)(name \<mapsto> (a, map spec_target ts))"
    by (simp add: fun_eq_iff store_view_def new(6) find_append_new [where f = res_name and k = name and x = r, OF _ r(3)])
  then show ?thesis using new one by (simp add: store_view_None_iff)
qed

lemma update_tx_refines:
  assumes ok: "db_ok d" and run: "update_tx name a ts d = (Inr u, d')"
  shows "store_view d name \<noteq> None \<and> store_view d' = (store_view d)(name \<mapsto> (a, map spec_target ts))
    \<and> nodes d' = nodes d \<and> users d' = users d"
proof -
  obtain i d1 u' d2 where upd: "run_statement (update_resource_body name a) d = (Inr i, d1)"
    and clr: "run_statement (clear_targets_body i) d1 = (Inr u', d2)" and rest: "insertTargets i ts d2 = (Inr u, d')"
    using run by (auto simp: update_tx_def split: prod.splits sum.splits)
  note one = update_resource_success [OF upd] and two = clear_targets_success [OF clr]
  obtain r where r: "List.find (\<lambda>r. res_name r = name) (resources d) = Some r" "res_id r = i" using one by blast
  have rin: "r \<in> set (resources d)" "res_name r = name" using find_SomeD [OF r(1)] by auto
  have "nodes_ok d2" using ok one two nodes_ok_cong [of d2 d] by (simp add: db_ok_def)
  from insertTargets_success [OF this rest] obtain new where
    new: "resource_targets d' = filter (\<lambda>t. tgt_resource_id t \<noteq> i) (resource_targets d) @ new"
    "\<forall>t \<in> set new. tgt_resource_id t = i" "map (view_target (nodes d)) new = map spec_target ts"
    "nodes d' = nodes d" "users d' = users d"
    "resources d' = update_where (\<lambda>r. res_name r = name) (set_fields a) (resources d)"
    using one two by (auto simp: only_targets_added_def)
  note t = targets_of_other [OF new(1,2)]
  have v: "view_row d' x = view_row d x" if "x \<in> set (resources d)" "res_name x \<noteq> name" for x
  proof -
    have "distinct (map res_id (resources d))" using ok by (simp add: db_ok_def resources_ok_def)
    then have "res_id x \<noteq> i" using that rin r(2) distinct_map_key [of res_id "resources d" x r] by auto
    then show ?thesis by (intro view_row_cong) (simp_all add: new(4) t)
  qed
  have "view_row d' (set_fields a r) = (a, map spec_target ts)"
    using r(2) by (simp add: view_row_def t new(3,4) set_fields_def row_args_def)
  moreover have "map_option (view_row d') (List.find (\<lambda>r. res_name r = n) (resources d))
      = map_option (view_row d) (List.find (\<lambda>r. res_name r = n) (resources d))" if "n \<noteq> name" for n
    using v find_SomeD [of "\<lambda>r. res_name r = n" "resources d"] that
    by (cases "List.find (\<lambda>r. res_name r = n) (resources d)") auto
  moreover have "res_name (set_fields a x) = res_name x" for x by (simp add: set_fields_def)
  ultimately have "store_view d' n = ((store_view d)(name \<mapsto> (a, map spec_target ts))) n" for n
    using r(1) by (cases "n = name") (simp_all add: store_view_def new(6) find_update_where option.map_comp comp_def)
  then have "store_view d' = (store_view d)(name \<mapsto> (a, map spec_target ts))" by (rule ext)
  then show ?thesis using new r(1) by (simp add: store_view_def)
qed

text \<open>What both validations accept.\<close>

definition accepted :: "ResourceArgs \<Rightarrow> TargetSpec list \<Rightarrow> bool" where
  "accepted a ts \<longleftrightarrow> validateTargets (a_protocol a) ts = Inr ()
     \<and> a_targetScheme a \<in> {[], ''http'', ''https''}"

lemma normalizeTargetScheme_Inr:
  "normalizeTargetScheme s = Inr s' \<longleftrightarrow> s \<in> {[], ''http'', ''https''} \<and> s' = (if s = [] then ''http'' else s)"
  by (auto simp: normalizeTargetScheme_def)

lemma CreateResource_refines:
  assumes ok: "db_ok d" and run: "CreateResource name a ts d = (Inr u, d')"
  shows "accepted a ts \<and> store_view d name = None \<and> store_view d' = (store_view d)(name \<mapsto> stored a ts)
    \<and> nodes d' = nodes d \<and> users d' = users d"
proof -
  obtain scheme where v: "validateTargets (a_protocol a) ts = Inr ()" "normalizeTargetScheme (a_targetScheme a) = Inr scheme"
    and tx: "in_transaction BeginFailed CommitFailed (create_tx name (a\<lparr>a_targetScheme := scheme\<rparr>) ts) d = (Inr u, d')"
    using run by (auto simp: CreateResource_def split: sum.splits)
  obtain d1 d2 where s: "statement d = (True, d1)" "create_tx name (a\<lparr>a_targetScheme := scheme\<rparr>) ts d1 = (Inr u, d2)"
    "statement d2 = (True, d')" using tx by (rule in_transaction_commit)
  have "db_ok d1" using ok s(1) by (simp add: statement_ok)
  from create_tx_refines [OF this s(2)] show ?thesis
    using v store_view_cong [OF statement_same [OF s(1)]] store_view_cong [OF statement_same [OF s(3)]]
      statement_tables [OF s(1)] statement_tables [OF s(3)]
    by (simp add: accepted_def stored_def normalizeTargetScheme_Inr)
qed

lemma UpdateResource_refines:
  assumes ok: "db_ok d" and run: "UpdateResource name a ts d = (Inr u, d')"
  shows "accepted a ts \<and> store_view d name \<noteq> None \<and> store_view d' = (store_view d)(name \<mapsto> stored a ts)
    \<and> nodes d' = nodes d \<and> users d' = users d"
proof -
  obtain scheme where v: "validateTargets (a_protocol a) ts = Inr ()" "normalizeTargetScheme (a_targetScheme a) = Inr scheme"
    and tx: "in_transaction BeginFailed CommitFailed (update_tx name (a\<lparr>a_targetScheme := scheme\<rparr>) ts) d = (Inr u, d')"
    using run by (auto simp: UpdateResource_def split: sum.splits)
  obtain d1 d2 where s: "statement d = (True, d1)" "update_tx name (a\<lparr>a_targetScheme := scheme\<rparr>) ts d1 = (Inr u, d2)"
    "statement d2 = (True, d')" using tx by (rule in_transaction_commit)
  have "db_ok d1" using ok s(1) by (simp add: statement_ok)
  from update_tx_refines [OF this s(2)] show ?thesis
    using v store_view_cong [OF statement_same [OF s(1)]] store_view_cong [OF statement_same [OF s(3)]]
      statement_tables [OF s(1)] statement_tables [OF s(3)]
    by (simp add: accepted_def stored_def normalizeTargetScheme_Inr)
qed

lemma DeleteResource_cases:
  assumes "DeleteResource name d = (r, d')"
  obtains e where "r = Inl e" "same_tables d d'"
  | "r = Inr ()" "name \<in> res_name ` set (resources d)" "nodes d' = nodes d" "users d' = users d"
    "resources d' = filter (\<lambda>r. res_name r \<noteq> name) (resources d)"
    "resource_targets d' = filter (\<lambda>t. tgt_resource_id t \<notin> res_id ` {r \<in> set (resources d). res_name r = name})
       (resource_targets d)"
proof -
  obtain q d1 where q: "run_statement (delete_resource_body name) d = (q, d1)" by fastforce
  show thesis
  proof (cases q)
    case (Inl x)
    then have "same_tables d d1" using q by (auto dest: delete_resource.run_error)
    then show ?thesis using assms q Inl
      by (intro that(1) [of "DeleteFailed name x"]) (simp_all add: DeleteResource_def)
  next
    case (Inr n)
    with q obtain d0 where s: "statement d = (True, d0)" and b: "delete_resource_body name d0 = (Inr n, d1)"
      by (auto elim: run_statement_cases)
    note d1 = b [unfolded delete_resource_body_def Let_def, simplified, THEN conjunct2, symmetric]
    show ?thesis
    proof (cases "name \<in> res_name ` set (resources d)")
      case True
      then have "n \<noteq> 0" using b s by (auto simp: delete_resource_body_def Let_def statement_tables filter_empty_conv)
      then show ?thesis using True assms q Inr b
        by (intro that(2)) (auto simp: DeleteResource_def delete_resource_body_def Let_def statement_tables [OF s])
    next
      case False
      then have no: "\<not> (\<exists>r \<in> set (resources d). res_name r = name)" by auto
      then have n: "n = 0" using b s by (auto simp: delete_resource_body_def Let_def statement_tables filter_empty_conv)
      have "filter (\<lambda>r. res_name r \<noteq> name) (resources d) = resources d" using no by (auto simp: filter_id_conv)
      moreover have "{r \<in> set (resources d). res_name r = name} = {}" using no by auto
      ultimately have "same_tables d d1"
        using b by (auto simp: delete_resource_body_def Let_def statement_tables [OF s] same_tables_def)
      then show ?thesis using assms q Inr n
        by (intro that(1) [of "NoSuchResource name"]) (simp_all add: DeleteResource_def)
    qed
  qed
qed

lemma DeleteResource_refines:
  assumes ok: "db_ok d" and run: "DeleteResource name d = (Inr u, d')"
  shows "store_view d name \<noteq> None \<and> store_view d' = (store_view d)(name := None) \<and> nodes d' = nodes d \<and> users d' = users d"
  using run
proof (rule DeleteResource_cases)
  assume name: "name \<in> res_name ` set (resources d)" and d': "nodes d' = nodes d" "users d' = users d"
    "resources d' = filter (\<lambda>r. res_name r \<noteq> name) (resources d)"
    "resource_targets d' = filter (\<lambda>t. tgt_resource_id t \<notin> res_id ` {r \<in> set (resources d). res_name r = name})
       (resource_targets d)"
  have v: "view_row d' x = view_row d x" if "x \<in> set (resources d)" "res_name x \<noteq> name" for x
  proof (rule view_row_cong [OF d'(1)])
    have "distinct (map res_id (resources d))" using ok by (simp add: db_ok_def resources_ok_def)
    then have "res_id x \<notin> res_id ` {r \<in> set (resources d). res_name r = name}"
      using that distinct_map_key [of res_id "resources d" x] by auto
    then show "targets_of d' x = targets_of d x"
      unfolding targets_of_def d'(4) filter_filter by (intro filter_cong refl) metis
  qed
  have f: "List.find (\<lambda>r. res_name r = n) (filter (\<lambda>r. res_name r \<noteq> name) xs)
      = (if n = name then None else List.find (\<lambda>r. res_name r = n) xs)" for n xs
    by (induction xs) auto
  have "map_option (view_row d') (List.find (\<lambda>r. res_name r = n) (resources d))
      = map_option (view_row d) (List.find (\<lambda>r. res_name r = n) (resources d))" if "n \<noteq> name" for n
    using v find_SomeD [of "\<lambda>r. res_name r = n" "resources d"] that
    by (cases "List.find (\<lambda>r. res_name r = n) (resources d)") auto
  then have "store_view d' n = ((store_view d)(name := None)) n" for n
    by (cases "n = name") (simp_all add: store_view_def d'(3) f)
  then show ?thesis using name d' by (auto simp: fun_eq_iff store_view_None_iff)
qed simp

lemma resource_error_same:
  "CreateResource name a ts d = (Inl e, d') \<Longrightarrow> store_view d' = store_view d"
  "UpdateResource name a ts d = (Inl e, d') \<Longrightarrow> store_view d' = store_view d"
  "DeleteResource name d = (Inl e, d') \<Longrightarrow> store_view d' = store_view d"
  by (auto intro: store_view_cong dest: CreateResource_error UpdateResource_error elim: DeleteResource_cases)

section \<open>The shape of the targets\<close>

definition shape_ok :: "abstract_resource \<Rightarrow> bool" where
  "shape_ok v = (case v of (a, ts) \<Rightarrow> ts \<noteq> [] \<and> protocol_check (a_protocol a)
     \<and> (a_protocol a = ''http'' \<or> length ts = 1 \<or>
          (length ts = 2 \<and> {''primary'', ''backup''} \<subseteq> (\<lambda>(n, ad, p, ro). ro) ` set ts)))"

definition store_ok :: "db \<Rightarrow> bool" where
  "store_ok d \<longleftrightarrow> (\<forall>v \<in> ran (store_view d). shape_ok v)"

lemma accepted_shape: "accepted a ts \<Longrightarrow> shape_ok (stored a ts)"
  by (auto simp: accepted_def stored_def shape_ok_def validateTargets_def protocol_check_def spec_target_def
      Let_def less_2_cases_iff linorder_not_less image_iff le_Suc_eq numeral_2_eq_2 length_Suc_conv split: if_splits)

lemma store_ok_update: "store_ok d \<Longrightarrow> shape_ok v \<Longrightarrow> store_view d' = (store_view d)(n \<mapsto> v) \<Longrightarrow> store_ok d'"
  by (auto simp: store_ok_def ran_def split: if_splits)

text \<open>Every reachable database has the shape: the empty one does, and each call keeps it.\<close>

lemma store_ok_empty: "resources d = [] \<Longrightarrow> store_ok d"
  by (auto simp: store_ok_def ran_def store_view_def)

lemma store_ok_remove: "store_ok d \<Longrightarrow> store_view d' = (store_view d)(n := None) \<Longrightarrow> store_ok d'"
  by (auto simp: store_ok_def ran_def split: if_splits)

lemma store_ok_cong: "store_ok d \<Longrightarrow> store_view d' = store_view d \<Longrightarrow> store_ok d'"
  by (simp add: store_ok_def)

lemma CreateResource_store_ok:
  assumes "db_ok d" "store_ok d" "CreateResource name a ts d = (r, d')"
  shows "store_ok d'"
proof (cases r)
  case (Inl e)
  then show ?thesis using assms resource_error_same(1) store_ok_cong by blast
next
  case (Inr u)
  then show ?thesis using assms CreateResource_refines accepted_shape store_ok_update by blast
qed

lemma UpdateResource_store_ok:
  assumes "db_ok d" "store_ok d" "UpdateResource name a ts d = (r, d')"
  shows "store_ok d'"
proof (cases r)
  case (Inl e)
  then show ?thesis using assms resource_error_same(2) store_ok_cong by blast
next
  case (Inr u)
  then show ?thesis using assms UpdateResource_refines accepted_shape store_ok_update by blast
qed

lemma DeleteResource_store_ok:
  assumes "db_ok d" "store_ok d" "DeleteResource name d = (r, d')"
  shows "store_ok d'"
proof (cases r)
  case (Inl e)
  then show ?thesis using assms resource_error_same(3) store_ok_cong by blast
next
  case (Inr u)
  then show ?thesis using assms DeleteResource_refines store_ok_remove by blast
qed

section \<open>From the tables to the configuration\<close>

lemma store_ok_row:
  assumes "db_ok d" "store_ok d" "r \<in> set (resources d)"
  shows "shape_ok (view_row d r)"
proof -
  have "store_view d (res_name r) = Some (view_row d r)"
    using assms(3) by (auto simp: store_view_Some_iff [OF assms(1)])
  then show ?thesis using assms(2) ranI by (fastforce simp: store_ok_def)
qed

lemma listed_all:
  assumes "db_ok d" "store_ok d"
  shows "listed d = map (listing d) (sort_key res_name (resources d))"
proof -
  have "targets_of d r \<noteq> []" if "r \<in> set (resources d)" for r
    using store_ok_row [OF assms that] by (auto simp: shape_ok_def view_row_def)
  then show ?thesis by (simp add: listed_def filter_id_conv)
qed

lemma select_mem:
  assumes "length ts = 1 \<or> (length ts = 2 \<and> {''primary'', ''backup''} \<subseteq> t_Role ` set ts)"
  shows "selectMasterBackupTarget now ts \<in> set ts"
proof (cases "length ts = 1")
  case True
  then obtain t where "ts = [t]" by (auto simp: length_Suc_conv)
  then show ?thesis by (simp add: select_single)
next
  case False
  then obtain a b where ts: "ts = [a, b]" "{''primary'', ''backup''} \<subseteq> {t_Role a, t_Role b}"
    using assms by (auto simp: length_Suc_conv numeral_2_eq_2)
  moreover have "''primary'' \<noteq> ''backup''" by simp
  ultimately have "t_Role a = ''primary'' \<and> t_Role b = ''backup'' \<or> t_Role b = ''primary'' \<and> t_Role a = ''backup''"
    by (metis insert_subset insert_iff singletonD)
  then show ?thesis using select_pair [of a b ts now] select_pair [of b a ts now] ts(1) by auto
qed

lemma listing_sel [simp]:
  "r_Name (listing d r) = res_name r" "r_Protocol (listing d r) = res_protocol r"
  "r_Targets (listing d r) = map (resolve d) (sort_key tgt_role (targets_of d r))"
  by (simp_all add: listing_def scan_resource_def)

lemma l4_own_target:
  assumes "db_ok d" "store_ok d" "r \<in> set (resources d)" "res_protocol r \<noteq> ''http''"
  shows "\<exists>t \<in> set (targets_of d r). selectMasterBackupTarget now (r_Targets (listing d r)) = resolve d t"
proof -
  have role: "t_Role (resolve d t) = tgt_role t" for t by (simp add: resolve_def scan_target_def)
  have "shape_ok (view_row d r)" using assms(1-3) by (rule store_ok_row)
  then have "length (targets_of d r) = 1 \<or> (length (targets_of d r) = 2
      \<and> {''primary'', ''backup''} \<subseteq> tgt_role ` set (targets_of d r))"
    using assms(4) by (auto simp: shape_ok_def view_row_def row_args_def view_target_def image_iff)
  then have "length (r_Targets (listing d r)) = 1 \<or> (length (r_Targets (listing d r)) = 2
      \<and> {''primary'', ''backup''} \<subseteq> t_Role ` set (r_Targets (listing d r)))"
    by (simp add: image_image role)
  then have "selectMasterBackupTarget now (r_Targets (listing d r)) \<in> set (r_Targets (listing d r))"
    by (rule select_mem)
  then show ?thesis by auto
qed

text \<open>Which entry a section has under a name: that of the resource with the name and the protocol, if any.\<close>

lemma section_lookup:
  assumes "distinct (map r_Name rs)" "r \<in> set rs"
  shows "r_Protocol r = ''http'' \<Longrightarrow> \<exists>c. HTTP (Generate now rs) = Some c
      \<and> Routers c (r_Name r) = Some (http_router r) \<and> Services c (r_Name r) = Some (http_service r)"
    and "r_Protocol r = ''tcp'' \<Longrightarrow> \<exists>c. TCP (Generate now rs) = Some c
      \<and> Routers c (r_Name r) = Some (tcp_router r) \<and> Services c (r_Name r) = Some (l4_service now r)"
    and "r_Protocol r = ''udp'' \<Longrightarrow> \<exists>c. UDP (Generate now rs) = Some c
      \<and> udp_Routers c (r_Name r) = Some (udp_router r) \<and> udp_Services c (r_Name r) = Some (l4_service now r)"
proof -
  have d: "distinct (map r_Name (of_protocol p rs))" for p using assms(1) by (rule distinct_of_protocol)
  { assume "r_Protocol r = ''http''"
    then have m: "r \<in> set (of_protocol ''http'' rs)" using assms(2) by (simp add: set_of_protocol)
    then show "\<exists>c. HTTP (Generate now rs) = Some c
      \<and> Routers c (r_Name r) = Some (http_router r) \<and> Services c (r_Name r) = Some (http_service r)"
      using http_routers.look_all_distinct [OF d m] http_services.look_all_distinct [OF d m]
      by (auto simp: Generate_sections section_of_def) }
  { assume "r_Protocol r = ''tcp''"
    then have m: "r \<in> set (of_protocol ''tcp'' rs)" using assms(2) by (simp add: set_of_protocol)
    then show "\<exists>c. TCP (Generate now rs) = Some c
      \<and> Routers c (r_Name r) = Some (tcp_router r) \<and> Services c (r_Name r) = Some (l4_service now r)"
      using tcp_routers.look_all_distinct [OF d m] tcp_services.look_all_distinct [OF d m]
      by (auto simp: Generate_sections section_of_def) }
  { assume "r_Protocol r = ''udp''"
    then have m: "r \<in> set (of_protocol ''udp'' rs)" using assms(2) by (simp add: set_of_protocol)
    then show "\<exists>c. UDP (Generate now rs) = Some c
      \<and> udp_Routers c (r_Name r) = Some (udp_router r) \<and> udp_Services c (r_Name r) = Some (l4_service now r)"
      using udp_routers.look_all_distinct [OF d m] udp_services.look_all_distinct [OF d m]
      by (auto simp: Generate_sections section_of_def) }
qed

lemma router_sound:
  assumes "HTTP (Generate now rs) = Some c" "Routers c n = Some ro"
  shows "\<exists>r \<in> set rs. r_Protocol r = ''http'' \<and> r_Name r = n \<and> ro = http_router r"
  using assms http_routers.look_all_SomeD [of empty_protocol "of_protocol ''http'' rs" n ro]
  by (auto simp: Generate_sections section_of_def set_of_protocol split: if_splits)

lemma listing_in_listed: "db_ok d \<Longrightarrow> store_ok d \<Longrightarrow> r \<in> set (resources d) \<Longrightarrow> listing d r \<in> set (listed d)"
  by (simp add: listed_all)

lemma listed_distinct: "db_ok d \<Longrightarrow> distinct (map r_Name (listed d))"
  by (rule listed_names) (simp add: db_ok_def resources_ok_def)

end
