(* ===== verification/System.thy ===== *)
theory System
  imports WsServer HttpApi ResourceStore
begin

text \<open>
  The control plane as a whole: any number of agent connections, each a goroutine of
  \<open>HandleWS\<close>, and the HTTP API, all interleaved. A step is what the code does without
  giving another goroutine a chance to be seen: one database statement, one use of the
  connection map under its lock, one write. Between two steps of one registration anything
  else may happen. \<open>w_told\<close> is a history variable: the name and address of every
  \<open>registered\<close> answer.

  The invariant holds in every reachable state: no two names were ever told the same
  address and no name two addresses, every address is a host address of the mesh, the
  schema's constraints hold, and every resource has the targets its protocol needs.
\<close>

section \<open>What the HTTP API leaves alone\<close>

definition users_only :: "db \<Rightarrow> db \<Rightarrow> bool" where
  "users_only a b \<longleftrightarrow> nodes a = nodes b \<and> resources a = resources b \<and> resource_targets a = resource_targets b"

lemma same_tables_users_only: "same_tables a b \<Longrightarrow> users_only a b"
  by (simp add: same_tables_def users_only_def)

lemma run_statement_users_only:
  assumes "run_statement body d = (r, d')" "\<And>a r b. body a = (r, b) \<Longrightarrow> users_only a b"
  shows "users_only d d'"
  using assms(1)
proof (rule run_statement_cases)
  fix d1 assume "statement d = (True, d1)" "body d1 = (r, d')"
  then have "users_only d d1" "users_only d1 d'"
    using assms(2) by (auto intro: same_tables_users_only statement_same)
  then show ?thesis by (simp add: users_only_def)
qed (auto intro: same_tables_users_only statement_same)

lemma user_bodies:
  "create_invite_body now em ro tok ex a = (r, b) \<Longrightarrow> users_only a b"
  "delete_user_body em a = (q, b) \<Longrightarrow> users_only a b"
  "set_role_body em ro a = (q, b) \<Longrightarrow> users_only a b"
  by (auto simp: create_invite_body_def delete_user_body_def set_role_body_def users_only_def split: if_splits)

lemma CreateInvite_users_only: "CreateInvite t now em ro tok d = (r, d') \<Longrightarrow> users_only d d'"
  by (auto simp: CreateInvite_def split: prod.splits sum.splits dest!: run_statement_users_only [OF _ user_bodies(1)])

lemma DeleteUser_users_only: "DeleteUser em d = (r, d') \<Longrightarrow> users_only d d'"
  by (auto simp: DeleteUser_def split: prod.splits sum.splits if_splits
      dest!: run_statement_users_only [OF _ user_bodies(2)])

lemma SetUserRole_users_only: "SetUserRole em ro d = (r, d') \<Longrightarrow> users_only d d'"
  by (auto simp: SetUserRole_def split: prod.splits sum.splits if_splits
      dest!: run_statement_users_only [OF _ user_bodies(3)])

lemma store_ok_users_only:
  assumes "users_only d d'" "store_ok d"
  shows "store_ok d'"
proof (rule store_ok_cong [OF assms(2)])
  have "targets_of d' r = targets_of d r" "nodes d' = nodes d" for r
    using assms(1) by (simp_all add: users_only_def targets_of_def)
  then have v: "view_row d' = view_row d" by (simp add: fun_eq_iff view_row_def)
  have "resources d' = resources d" using assms(1) by (simp add: users_only_def)
  then show "store_view d' = store_view d" by (simp add: fun_eq_iff store_view_def v)
qed

text \<open>The part of the state that the API keeps whatever the request: addresses and shapes.\<close>

definition api_keeps :: "db \<Rightarrow> db \<Rightarrow> bool" where
  "api_keeps d d' \<longleftrightarrow> nodes d' = nodes d \<and> (db_ok d \<longrightarrow> store_ok d \<longrightarrow> store_ok d')"

lemma api_keeps_refl: "api_keeps d d"
  by (simp add: api_keeps_def)

lemma users_only_keeps: "users_only d d' \<Longrightarrow> api_keeps d d'"
  using store_ok_users_only by (auto simp: api_keeps_def users_only_def)

lemma credentials_keeps: "same_but_credentials d d' \<Longrightarrow> api_keeps d d'"
  by (auto simp: same_but_credentials_def users_only_def intro!: users_only_keeps)

lemma CreateResource_nodes: "db_ok d \<Longrightarrow> CreateResource name a ts d = (r, d') \<Longrightarrow> nodes d' = nodes d"
  by (cases r) (auto dest: CreateResource_refines CreateResource_error simp: same_tables_def)

lemma UpdateResource_nodes: "db_ok d \<Longrightarrow> UpdateResource name a ts d = (r, d') \<Longrightarrow> nodes d' = nodes d"
  by (cases r) (auto dest: UpdateResource_refines UpdateResource_error simp: same_tables_def)

lemma DeleteResource_nodes: "DeleteResource name d = (r, d') \<Longrightarrow> nodes d' = nodes d"
  by (erule DeleteResource_cases) (auto simp: same_tables_def)

lemma createResourceHandler_keeps:
  "db_ok d \<Longrightarrow> createResourceHandler e rq sess d = (rs, d', sent) \<Longrightarrow> api_keeps d d'"
  by (auto simp: createResourceHandler_def api_keeps_def split: option.splits prod.splits sum.splits
      dest: CreateResource_nodes CreateResource_store_ok)

lemma updateResourceHandler_keeps:
  "db_ok d \<Longrightarrow> updateResourceHandler x e rq sess d = (rs, d', sent) \<Longrightarrow> api_keeps d d'"
  by (auto simp: updateResourceHandler_def api_keeps_def split: option.splits prod.splits sum.splits
      dest: UpdateResource_nodes UpdateResource_store_ok)

lemma deleteResourceHandler_keeps:
  "deleteResourceHandler x e rq sess d = (rs, d', sent) \<Longrightarrow> api_keeps d d'"
  by (auto simp: deleteResourceHandler_def api_keeps_def split: prod.splits sum.splits
      dest: DeleteResource_nodes DeleteResource_store_ok)

lemma inviteUserHandler_keeps: "inviteUserHandler e rq sess d = (rs, d', sent) \<Longrightarrow> api_keeps d d'"
  by (auto simp: inviteUserHandler_def api_keeps_refl split: option.splits prod.splits sum.splits if_splits
      dest: users_only_keeps [OF CreateInvite_users_only])

lemma deleteUserHandler_keeps: "deleteUserHandler x e rq sess d = (rs, d', sent) \<Longrightarrow> api_keeps d d'"
  by (auto simp: deleteUserHandler_def api_keeps_refl split: prod.splits sum.splits if_splits
      dest: users_only_keeps [OF DeleteUser_users_only])

lemma setUserRoleHandler_keeps: "setUserRoleHandler x e rq sess d = (rs, d', sent) \<Longrightarrow> api_keeps d d'"
  by (auto simp: setUserRoleHandler_def api_keeps_refl split: option.splits prod.splits sum.splits if_splits
      dest: users_only_keeps [OF SetUserRole_users_only])

lemma serve_keeps:
  assumes ok: "db_ok d" and run: "api_serve e rq d = Some (rs, d', sent)"
  shows "api_keeps d d'"
proof (cases "is_admin e rq")
  case False
  then show ?thesis using run by (intro credentials_keeps) (rule no_admin_same)
next
  case True
  note auth = requireAuth_keeps [where P = "api_keeps d", OF _ api_keeps_refl]
  note admin = requireAdmin_keeps [where P = "api_keeps d", OF _ api_keeps_refl]
  note same = users_only_keeps [OF same_tables_users_only [OF conjunct1]]
  note cred = credentials_keeps [OF conjunct1]
  show ?thesis
  proof (cases "mux (rq_method rq) (rq_path rq)")
    case Spa
    then show ?thesis using run by (auto simp: api_serve_def quiet_handlers Let_def api_keeps_refl split: if_splits option.splits)
  qed (use run ok in \<open>simp_all only: api_serve_def api_handler.simps option.map option.inject option.distinct prod.inject quiet_handlers\<close>,
    auto simp: whoamiHandler_def api_keeps_refl
      dest: same [OF loginHandler_read] same [OF inviteInfoHandler_read] same [OF traefikConfigHandler_read]
        cred [OF acceptInviteHandler_keeps] cred [OF resetPasswordHandler_keeps] cred [OF forgotPasswordHandler_keeps]
        same [OF listNodesHandler_read] same [OF listResourcesHandler_read] same [OF listUsersHandler_read]
      elim!: auth admin
      intro: createResourceHandler_keeps updateResourceHandler_keeps deleteResourceHandler_keeps
        inviteUserHandler_keeps deleteUserHandler_keeps setUserRoleHandler_keeps)
qed

section \<open>Steps\<close>

text \<open>Where a connection's goroutine is: between messages, inside one of the two handlers, or gone.\<close>

datatype pc =
    Ready
  | GotCandidate RegisterPayload string
  | Upserted RegisterPayload string
  | Entered RegisterPayload string
  | Listed RegisterPayload string "Node list"
  | Broadcasting "Node list"
  | Touched
  | Closed

record world =
  w_srv :: Server
  w_pc :: "nat \<Rightarrow> pc"
  w_key :: "nat \<Rightarrow> string"
  w_told :: "(string \<times> string) list"

definition w_db :: "world \<Rightarrow> db" where
  "w_db w = srv_db (w_srv w)"

text \<open>Connection \<open>c\<close> goes to \<open>q\<close> and leaves the server as \<open>s\<close>.\<close>

definition goto :: "nat \<Rightarrow> pc \<Rightarrow> Server \<Rightarrow> world \<Rightarrow> world" where
  "goto c q s w = w\<lparr>w_srv := s, w_pc := (w_pc w)(c := q)\<rparr>"

definition start_world :: "db \<Rightarrow> string \<Rightarrow> world" where
  "start_world d cidr = \<lparr>w_srv = new_server d cidr, w_pc = (\<lambda>_. Ready), w_key = (\<lambda>_. []), w_told = []\<rparr>"

definition after_used :: "string \<Rightarrow> RegisterPayload \<Rightarrow> db_error + string list \<Rightarrow> pc" where
  "after_used cidr p r = (case r of
     Inl _ \<Rightarrow> Ready
   | Inr used \<Rightarrow> (case AllocateIP cidr used of Inl _ \<Rightarrow> Ready | Inr cand \<Rightarrow> GotCandidate p cand))"

inductive ws_step :: "(nat \<Rightarrow> bool) \<Rightarrow> (nat \<Rightarrow> string) \<Rightarrow> world \<Rightarrow> world \<Rightarrow> bool" for alive host where
  register: "w_pc w c = Ready \<Longrightarrow> UsedMeshIPs (w_db w) = (r, d1) \<Longrightarrow>
    ws_step alive host w (goto c (after_used (srv_cidr (w_srv w)) p r) (with_db (w_srv w) d1)
      (w\<lparr>w_key := (w_key w)(c := reg_PublicKey p)\<rparr>))"
| upsert: "w_pc w c = GotCandidate p cand \<Longrightarrow>
    UpsertNode now (reg_Name p) (reg_PublicKey p) cand (endpoint_of (host c) p) (reg_AdvertisedSubnets p) (w_db w) = (r, d1) \<Longrightarrow>
    ws_step alive host w (goto c (case r of Inl _ \<Rightarrow> Ready | Inr ip \<Rightarrow> Upserted p ip) (with_db (w_srv w) d1) w)"
| enter: "w_pc w c = Upserted p ip \<Longrightarrow>
    ws_step alive host w (goto c (Entered p ip) (put_conn (reg_PublicKey p) c (w_srv w)) w)"
| list: "w_pc w c = Entered p ip \<Longrightarrow> ListNodes (w_db w) = (r, d1) \<Longrightarrow>
    ws_step alive host w (goto c (case r of Inl _ \<Rightarrow> Ready | Inr ns \<Rightarrow> Listed p ip ns) (with_db (w_srv w) d1) w)"
| reply: "w_pc w c = Listed p ip ns \<Longrightarrow> WriteJSON alive c (registered_msg ip (reg_PublicKey p) ns) (w_srv w) = (ok, s1) \<Longrightarrow>
    ws_step alive host w (goto c (if ok then Broadcasting ns else Ready) s1
      (if ok then w\<lparr>w_told := w_told w @ [(reg_Name p, ip)]\<rparr> else w))"
| broadcast: "w_pc w c = Broadcasting ns \<Longrightarrow>
    ws_step alive host w (goto c Ready (broadcastPeerLists alive ns (w_srv w)) w)"
| heartbeat: "w_pc w c = Ready \<Longrightarrow> w_key w c \<noteq> [] \<Longrightarrow> TouchLastSeen now (w_key w c) (w_db w) = (r, d1) \<Longrightarrow>
    ws_step alive host w (goto c (case r of Inl _ \<Rightarrow> Ready | Inr _ \<Rightarrow> Touched) (with_db (w_srv w) d1) w)"
| heartbeat_list: "w_pc w c = Touched \<Longrightarrow> ListNodes (w_db w) = (r, d1) \<Longrightarrow>
    ws_step alive host w (goto c (case r of Inl _ \<Rightarrow> Ready | Inr ns \<Rightarrow> Broadcasting ns) (with_db (w_srv w) d1) w)"
| close: "w_pc w c = Ready \<Longrightarrow>
    ws_step alive host w (goto c Closed (close_conn (w_key w c, w_srv w)) w)"
| api: "api_serve e rq (w_db w) = Some (rs, d1, sent) \<Longrightarrow>
    ws_step alive host w (w\<lparr>w_srv := with_db (w_srv w) d1\<rparr>)"

section \<open>The invariant\<close>

text \<open>What a program counter claims: an address on offer, and an address that was assigned.\<close>

fun pc_candidate :: "pc \<Rightarrow> string set" where
  "pc_candidate (GotCandidate p cand) = {cand}"
| "pc_candidate _ = {}"

fun pc_claim :: "pc \<Rightarrow> (string \<times> string) set" where
  "pc_claim (Upserted p ip) = {(reg_Name p, ip)}"
| "pc_claim (Entered p ip) = {(reg_Name p, ip)}"
| "pc_claim (Listed p ip ns) = {(reg_Name p, ip)}"
| "pc_claim _ = {}"

definition sys_inv :: "string \<Rightarrow> world \<Rightarrow> bool" where
  "sys_inv cidr w \<longleftrightarrow> db_ok (w_db w) \<and> store_ok (w_db w) \<and> conns_ok (w_srv w) \<and> srv_cidr (w_srv w) = cidr
     \<and> (\<forall>(n, ip) \<in> names_ips (w_db w). mesh_host cidr ip)
     \<and> (\<forall>c. \<forall>a \<in> pc_candidate (w_pc w c). mesh_host cidr a)
     \<and> (\<forall>c. pc_claim (w_pc w c) \<subseteq> names_ips (w_db w))
     \<and> set (w_told w) \<subseteq> names_ips (w_db w)"

text \<open>What a statement that runs for a connection may do to the database.\<close>

definition grows :: "string \<Rightarrow> db \<Rightarrow> db \<Rightarrow> bool" where
  "grows cidr d d' \<longleftrightarrow> (db_ok d \<longrightarrow> db_ok d') \<and> (db_ok d \<longrightarrow> store_ok d \<longrightarrow> store_ok d') \<and> names_ips d \<subseteq> names_ips d'
     \<and> (\<forall>(n, ip) \<in> names_ips d'. (n, ip) \<in> names_ips d \<or> mesh_host cidr ip)"

lemma shape_ok_nodes:
  "resource_targets d' = resource_targets d \<Longrightarrow> shape_ok (view_row d' r) = shape_ok (view_row d r)"
proof -
  assume t: "resource_targets d' = resource_targets d"
  have roles: "(\<lambda>(n, ad, p, ro). ro) ` view_target ns ` T = tgt_role ` T" for ns and T :: "TargetRow set"
    by (auto simp: view_target_def image_iff)
  show ?thesis by (simp add: shape_ok_def view_row_def targets_of_def t roles)
qed

lemma store_ok_iff:
  "store_ok d \<longleftrightarrow> (\<forall>n r. List.find (\<lambda>r. res_name r = n) (resources d) = Some r \<longrightarrow> shape_ok (view_row d r))"
proof -
  have r: "v \<in> ran (store_view d) \<longleftrightarrow> (\<exists>n r. List.find (\<lambda>r. res_name r = n) (resources d) = Some r \<and> v = view_row d r)" for v
    unfolding ran_def store_view_def mem_Collect_eq map_option_eq_Some by blast
  show ?thesis unfolding store_ok_def Ball_def r by blast
qed

lemma store_okI: "(\<And>r. r \<in> set (resources d) \<Longrightarrow> shape_ok (view_row d r)) \<Longrightarrow> store_ok d"
  unfolding store_ok_iff by (auto dest: find_SomeD)

lemma store_ok_nodes:
  assumes "resources d' = resources d" "resource_targets d' = resource_targets d" "store_ok d"
  shows "store_ok d'"
  using assms(3) unfolding store_ok_iff assms(1) by (simp add: shape_ok_nodes [OF assms(2)])

lemma same_tables_grows: "same_tables d d' \<Longrightarrow> db_ok d' = db_ok d \<Longrightarrow> grows cidr d d'"
  using names_ips_cong [of d' d] store_ok_nodes [of d' d] by (auto simp: grows_def same_tables_def)

lemma UsedMeshIPs_grows: "UsedMeshIPs d = (r, d') \<Longrightarrow> grows cidr d d'"
  unfolding UsedMeshIPs_def by (drule run_statement_read) (auto intro: same_tables_grows)

lemma ListNodes_grows: "ListNodes d = (r, d') \<Longrightarrow> grows cidr d d'"
  by (drule ListNodes_read) (auto intro: same_tables_grows)

lemma TouchLastSeen_grows:
  assumes "TouchLastSeen now key d = (r, d')"
  shows "grows cidr d d'"
proof -
  have "db_ok d \<Longrightarrow> db_ok d'" using assms unfolding TouchLastSeen_def by (rule touch.run_ok [rotated])
  moreover have "names_ips d' = names_ips d \<and> resources d' = resources d \<and> resource_targets d' = resource_targets d"
    using assms unfolding TouchLastSeen_def
  proof (rule run_statement_cases)
    fix d1 assume s: "statement d = (False, d1)" "d' = d1"
    then show ?thesis using names_ips_cong [of d' d] by (simp add: statement_tables)
  next
    fix d1 assume s: "statement d = (True, d1)" and b: "touch_body now key d1 = (r, d')"
    then show ?thesis using names_ips_cong [of d1 d] touch_names_ips [OF b]
      by (auto simp: statement_tables touch_body_def)
  qed
  ultimately show ?thesis using store_ok_nodes [of d' d] by (auto simp: grows_def)
qed

lemma UpsertNode_cases:
  assumes "UpsertNode now name key ip ep subs d = (r, d')"
  obtains e where "r = Inl e" "same_tables d d'"
  | got where "r = Inr got" "names_ips d' = insert (name, got) (names_ips d)" "(name, got) \<in> names_ips d \<or> got = ip"
    "resources d' = resources d" "resource_targets d' = resource_targets d"
proof (cases r)
  case (Inl e)
  then show ?thesis using assms that(1) unfolding UpsertNode_def by (blast dest: upsert.run_error)
next
  case (Inr got)
  then obtain d1 where s: "statement d = (True, d1)" and b: "upsert_body now name key ip ep subs d1 = (Inr got, d')"
    using assms unfolding UpsertNode_def by (auto elim: run_statement_cases)
  have "names_ips d1 = names_ips d" by (rule names_ips_cong) (rule statement_tables [OF s])
  moreover have "resources d' = resources d" "resource_targets d' = resource_targets d"
    using b statement_tables [OF s] by (auto simp: upsert_body_def split: option.splits if_splits)
  ultimately show ?thesis using upsert_names_ips [OF b] Inr by (intro that(2)) auto
qed

lemma UpsertNode_grows:
  assumes "UpsertNode now name key ip ep subs d = (r, d')" "mesh_host cidr ip"
  shows "grows cidr d d'"
proof -
  have ok: "db_ok d \<Longrightarrow> db_ok d'" using assms(1) unfolding UpsertNode_def by (rule upsert.run_ok [rotated])
  show ?thesis
    using assms(1)
  proof (rule UpsertNode_cases)
    assume "same_tables d d'"
    then show ?thesis using ok names_ips_cong [of d' d] store_ok_nodes [of d' d]
      by (auto simp: grows_def same_tables_def)
  next
    fix got assume "names_ips d' = insert (name, got) (names_ips d)" "(name, got) \<in> names_ips d \<or> got = ip"
      "resources d' = resources d" "resource_targets d' = resource_targets d"
    then show ?thesis using ok store_ok_nodes [of d' d] assms(2) by (auto simp: grows_def)
  qed
qed

lemma serve_grows:
  assumes "db_ok d" "api_serve e rq d = Some (rs, d', sent)"
  shows "grows cidr d d'"
proof -
  have "nodes d' = nodes d" using serve_keeps [OF assms] by (simp add: api_keeps_def)
  then show ?thesis
    using serve_keeps [OF assms] serve_db_ok [OF assms] names_ips_cong [of d' d] by (auto simp: grows_def api_keeps_def)
qed

text \<open>One rule for all steps.\<close>

lemma sys_inv_goto:
  assumes inv: "sys_inv cidr w" and g: "grows cidr (w_db w) (srv_db s)"
    and s: "conns_ok s" "srv_cidr s = cidr"
    and q: "\<forall>a \<in> pc_candidate q. mesh_host cidr a" "pc_claim q \<subseteq> names_ips (srv_db s)"
    and told: "set t \<subseteq> names_ips (srv_db s)"
  shows "sys_inv cidr (goto c q s (w\<lparr>w_key := k, w_told := t\<rparr>))"
proof -
  let ?w = "goto c q s (w\<lparr>w_key := k, w_told := t\<rparr>)"
  have sel: "w_db ?w = srv_db s" "w_srv ?w = s" "w_told ?w = t" "w_pc ?w = (w_pc w)(c := q)"
    by (simp_all add: goto_def w_db_def)
  have old: "db_ok (w_db w)" "store_ok (w_db w)" "\<forall>(n, ip) \<in> names_ips (w_db w). mesh_host cidr ip"
    "\<And>c a. a \<in> pc_candidate (w_pc w c) \<Longrightarrow> mesh_host cidr a" "\<And>c. pc_claim (w_pc w c) \<subseteq> names_ips (w_db w)"
    using inv by (auto simp: sys_inv_def)
  have new: "db_ok (srv_db s)" "store_ok (srv_db s)" "names_ips (w_db w) \<subseteq> names_ips (srv_db s)"
    "\<forall>(n, ip) \<in> names_ips (srv_db s). mesh_host cidr ip"
    using g old(1-3) unfolding grows_def by blast+
  have "pc_claim (w_pc w x) \<subseteq> names_ips (srv_db s)" for x using old(5) new(3) by blast
  then show ?thesis unfolding sys_inv_def sel using new s q told old(4) by auto
qed

lemma goto_same_key: "goto c q s w = goto c q s (w\<lparr>w_key := w_key w, w_told := w_told w\<rparr>)"
  by simp

lemmas sys_inv_step = sys_inv_goto [where k = "w_key w" and t = "w_told w" and w = w for w, folded goto_same_key, simplified]

lemma sys_inv_sel:
  assumes "sys_inv cidr w"
  shows "conns_ok (w_srv w)" "srv_cidr (w_srv w) = cidr" "db_ok (w_db w)" "set (w_told w) \<subseteq> names_ips (w_db w)"
    "pc_claim (w_pc w c) \<subseteq> names_ips (w_db w)" "a \<in> pc_candidate (w_pc w c) \<Longrightarrow> mesh_host cidr a"
  using assms by (auto simp: sys_inv_def)

lemma grows_names: "grows cidr d d' \<Longrightarrow> X \<subseteq> names_ips d \<Longrightarrow> X \<subseteq> names_ips d'"
  by (auto simp: grows_def)

lemma grows_same_db [simp]: "grows cidr d d"
  by (auto simp: grows_def)

lemma conns_ok_with_db [simp]: "conns_ok (with_db s d) = conns_ok s"
  by (simp add: conns_ok_def)

text \<open>A step that runs a statement, and a step that only touches the server.\<close>

lemma db_step:
  assumes inv: "sys_inv cidr w" and g: "grows cidr (w_db w) d1"
    and q: "\<forall>a \<in> pc_candidate q. mesh_host cidr a" "pc_claim q \<subseteq> names_ips d1"
  shows "sys_inv cidr (goto c q (with_db (w_srv w) d1) w)"
  using g q sys_inv_sel [OF inv] grows_names [OF g sys_inv_sel(4) [OF inv]]
  by (intro sys_inv_step [OF inv]) simp_all

lemma srv_step:
  assumes inv: "sys_inv cidr w" and s: "srv_db s = w_db w" "conns_ok s" "srv_cidr s = srv_cidr (w_srv w)"
    and q: "pc_candidate q = {}" "pc_claim q \<subseteq> names_ips (w_db w)"
  shows "sys_inv cidr (goto c q s w)"
  using s q sys_inv_sel [OF inv] by (intro sys_inv_step [OF inv]) simp_all

lemma WriteJSON_sel:
  "WriteJSON alive c e s = (ok, s1) \<Longrightarrow> srv_db s1 = srv_db s \<and> srv_cidr s1 = srv_cidr s \<and> srv_conns s1 = srv_conns s"
  by (auto simp: WriteJSON_def)

lemma srv_db_w [simp]: "srv_db (w_srv w) = w_db w"
  by (simp add: w_db_def)

lemma step_inv:
  assumes "ws_step alive host w w'" and inv: "sys_inv cidr w"
  shows "sys_inv cidr w'"
  using assms(1)
proof cases
  case (register c r d1 p)
  have g: "grows cidr (w_db w) d1" using register(3) by (rule UsedMeshIPs_grows)
  have "\<forall>a \<in> pc_candidate (after_used (srv_cidr (w_srv w)) p r). mesh_host cidr a"
    using sys_inv_sel(2) [OF inv] mesh.alloc_host by (auto simp: after_used_def split: sum.splits)
  moreover have "pc_claim (after_used (srv_cidr (w_srv w)) p r) = {}" by (auto simp: after_used_def split: sum.splits)
  ultimately have "sys_inv cidr (goto c (after_used (srv_cidr (w_srv w)) p r) (with_db (w_srv w) d1)
      (w\<lparr>w_key := (w_key w)(c := reg_PublicKey p), w_told := w_told w\<rparr>))"
    using g sys_inv_sel [OF inv] grows_names [OF g] by (intro sys_inv_goto [OF inv]) auto
  then show ?thesis unfolding register(1) by simp
next
  case (upsert c p cand now r d1)
  have "mesh_host cidr cand" using sys_inv_sel(6) [OF inv, of cand c] upsert(2) by simp
  then have g: "grows cidr (w_db w) d1" using upsert(3) by (intro UpsertNode_grows)
  have "pc_claim (case r of Inl e \<Rightarrow> Ready | Inr ip \<Rightarrow> Upserted p ip) \<subseteq> names_ips d1"
    using upsert(3) by (rule UpsertNode_cases) auto
  moreover have "pc_candidate (case r of Inl e \<Rightarrow> Ready | Inr ip \<Rightarrow> Upserted p ip) = {}" by (cases r) auto
  ultimately show ?thesis unfolding upsert(1) by (intro db_step [OF inv g]) simp_all
next
  case (enter c p ip)
  then show ?thesis unfolding enter(1) using sys_inv_sel [OF inv] sys_inv_sel(5) [OF inv, of c]
    by (intro srv_step [OF inv]) (simp_all add: conns_ok_put)
next
  case (list c p ip r d1)
  have g: "grows cidr (w_db w) d1" using list(3) by (rule ListNodes_grows)
  have "(reg_Name p, ip) \<in> names_ips d1"
    using grows_names [OF g sys_inv_sel(5) [OF inv, of c]] list(2) by simp
  then show ?thesis unfolding list(1) by (intro db_step [OF inv g]) (cases r; simp)+
next
  case (reply c p ip ns ok s1)
  note sel = WriteJSON_sel [OF reply(3)]
  have "conns_ok s1" using sel sys_inv_sel(1) [OF inv] by (simp add: conns_ok_def)
  moreover have "(reg_Name p, ip) \<in> names_ips (w_db w)" using sys_inv_sel(5) [OF inv, of c] reply(2) by simp
  ultimately show ?thesis
    unfolding reply(1) using sel sys_inv_sel [OF inv]
      sys_inv_goto [OF inv, of s1 "if ok then Broadcasting ns else Ready" "if ok then w_told w @ [(reg_Name p, ip)] else w_told w" c "w_key w"]
    by (cases ok) simp_all
next
  case (broadcast c ns)
  then show ?thesis unfolding broadcast(1) using sys_inv_sel [OF inv]
    by (intro srv_step [OF inv]) (simp_all add: conns_ok_def)
next
  case (heartbeat c now r d1)
  show ?thesis unfolding heartbeat(1)
    by (intro db_step [OF inv TouchLastSeen_grows [OF heartbeat(4)]]) (cases r; simp)+
next
  case (heartbeat_list c r d1)
  show ?thesis unfolding heartbeat_list(1)
    by (intro db_step [OF inv ListNodes_grows [OF heartbeat_list(3)]]) (cases r; simp)+
next
  case (close c)
  then show ?thesis unfolding close(1) using sys_inv_sel [OF inv]
    by (intro srv_step [OF inv]) (simp_all add: close_conn_def conns_ok_delete)
next
  case (api e rq rs d1 sent)
  have g: "grows cidr (w_db w) d1" using sys_inv_sel(3) [OF inv] api(2) by (rule serve_grows)
  have "goto 0 (w_pc w 0) (with_db (w_srv w) d1) w = w'" by (simp add: api(1) goto_def)
  moreover have "sys_inv cidr (goto 0 (w_pc w 0) (with_db (w_srv w) d1) w)"
    using grows_names [OF g sys_inv_sel(5) [OF inv, of 0]] sys_inv_sel(6) [OF inv, of _ 0]
    by (intro db_step [OF inv g]) auto
  ultimately show ?thesis by simp
qed

section \<open>Reachable states\<close>

definition reachable :: "(nat \<Rightarrow> bool) \<Rightarrow> (nat \<Rightarrow> string) \<Rightarrow> db \<Rightarrow> string \<Rightarrow> world \<Rightarrow> bool" where
  "reachable alive host d cidr w \<longleftrightarrow> (ws_step alive host)\<^sup>*\<^sup>* (start_world d cidr) w"

text \<open>
  A database to start from: the constraints hold, resources have the shape the API gives
  them and nodes have host addresses of the mesh. So a new one, and one an earlier process left.
\<close>

definition mesh_db :: "string \<Rightarrow> db \<Rightarrow> bool" where
  "mesh_db cidr d \<longleftrightarrow> db_ok d \<and> store_ok d \<and> (\<forall>(n, ip) \<in> names_ips d. mesh_host cidr ip)"

lemma new_db_mesh: "db_ok d \<Longrightarrow> nodes d = [] \<Longrightarrow> resources d = [] \<Longrightarrow> mesh_db cidr d"
  by (simp add: mesh_db_def names_ips_def store_ok_empty)

lemma sys_inv_mesh: "sys_inv cidr w \<Longrightarrow> mesh_db cidr (w_db w)"
  by (simp add: sys_inv_def mesh_db_def)

text \<open>A registration keeps the mesh.\<close>

lemma grows_trans: "grows cidr d d1 \<Longrightarrow> grows cidr d1 d2 \<Longrightarrow> grows cidr d d2"
  unfolding grows_def by blast

lemma grows_mesh: "mesh_db cidr d \<Longrightarrow> grows cidr d d' \<Longrightarrow> mesh_db cidr d'"
  by (auto simp: mesh_db_def grows_def)

lemma handleRegister_mesh:
  assumes "mesh_db (srv_cidr s) (srv_db s)" "handleRegister alive now c h p s = (Inr (), s')"
  shows "mesh_db (srv_cidr s) (srv_db s')"
proof -
  obtain used d1 cand ip d2 ns d3 where u: "UsedMeshIPs (srv_db s) = (Inr used, d1)"
    and a: "AllocateIP (srv_cidr s) used = Inr cand"
    and up: "UpsertNode now (reg_Name p) (reg_PublicKey p) cand (endpoint_of h p) (reg_AdvertisedSubnets p) d1 = (Inr ip, d2)"
    and l: "ListNodes d2 = (Inr ns, d3)"
    and db: "srv_db s' = d3"
    using assms(2) by (auto simp: handleRegister_def Let_def WriteJSON_def split: prod.splits sum.splits bool.splits if_splits)
  have "grows (srv_cidr s) (srv_db s) d3"
    using UsedMeshIPs_grows [OF u] UpsertNode_grows [OF up mesh.alloc_host [OF a]] ListNodes_grows [OF l]
    by (blast intro: grows_trans)
  then show ?thesis using grows_mesh [OF assms(1)] by (simp add: db)
qed

text \<open>A process that starts, whatever its predecessors told.\<close>

lemma started_inv:
  assumes "mesh_db cidr d" "w_srv w = new_server d cidr" "w_pc w = (\<lambda>_. Ready)" "set (w_told w) \<subseteq> names_ips d"
  shows "sys_inv cidr w"
  using assms by (simp add: sys_inv_def mesh_db_def new_server_def conns_ok_def w_db_def del: srv_db_w)

lemma start_inv: "mesh_db cidr d \<Longrightarrow> sys_inv cidr (start_world d cidr)"
  by (rule started_inv) (simp_all add: start_world_def)

lemma steps_inv: "(ws_step alive host)\<^sup>*\<^sup>* w w' \<Longrightarrow> sys_inv cidr w \<Longrightarrow> sys_inv cidr w'"
  by (induction rule: rtranclp_induct) (auto intro: step_inv)

lemma reachable_inv: "mesh_db cidr d \<Longrightarrow> reachable alive host d cidr w \<Longrightarrow> sys_inv cidr w"
  unfolding reachable_def by (blast intro: steps_inv start_inv)

section \<open>A handler that nothing interrupts is one run of steps\<close>

lemma goto_sel [simp]:
  "w_srv (goto c q s w) = s" "w_pc (goto c q s w) = (w_pc w)(c := q)" "w_key (goto c q s w) = w_key w"
  "w_told (goto c q s w) = w_told w" "w_db (goto c q s w) = srv_db s"
  by (simp_all add: goto_def w_db_def)

lemma with_db_twice [simp]: "with_db (with_db s a) b = with_db s b"
  by (simp add: with_db_def)

definition handled :: "(nat \<Rightarrow> bool) \<Rightarrow> (nat \<Rightarrow> string) \<Rightarrow> nat \<Rightarrow> string \<Rightarrow> Server \<Rightarrow> world \<Rightarrow> bool" where
  "handled alive host c key s w \<longleftrightarrow> (\<exists>w'. (ws_step alive host)\<^sup>*\<^sup>* w w' \<and> w_srv w' = s
     \<and> w_pc w' = (w_pc w)(c := Ready) \<and> w_key w' = (w_key w)(c := key))"

lemma handled_step:
  assumes "ws_step alive host w w1" "handled alive host c key s w1"
    and "\<And>x. x \<noteq> c \<Longrightarrow> w_pc w1 x = w_pc w x" "\<And>x. x \<noteq> c \<Longrightarrow> w_key w1 x = w_key w x"
  shows "handled alive host c key s w"
proof -
  obtain w' where w': "(ws_step alive host)\<^sup>*\<^sup>* w1 w'" "w_srv w' = s" "w_pc w' = (w_pc w1)(c := Ready)"
    "w_key w' = (w_key w1)(c := key)" using assms(2) by (auto simp: handled_def)
  have "(w_pc w1)(c := Ready) = (w_pc w)(c := Ready)" "(w_key w1)(c := key) = (w_key w)(c := key)"
    using assms(3,4) by auto
  then show ?thesis unfolding handled_def
    using w' assms(1) by (metis converse_rtranclp_into_rtranclp)
qed

lemma handled_now: "w_srv w = s \<Longrightarrow> w_pc w c = Ready \<Longrightarrow> w_key w c = key \<Longrightarrow> handled alive host c key s w"
  unfolding handled_def by (intro exI [of _ w]) auto

lemma broadcast_is_run:
  assumes "w_pc w c = Broadcasting ns" "w_key w c = key"
  shows "handled alive host c key (broadcastPeerLists alive ns (w_srv w)) w"
  by (rule handled_step [OF ws_step.broadcast [OF assms(1)] handled_now]) (simp_all add: assms)

lemma reply_is_run:
  assumes pc: "w_pc w c = Listed p ip ns" "w_key w c = key"
    and run: "WriteJSON alive c (registered_msg ip (reg_PublicKey p) ns) (w_srv w) = (ok, s1)"
  shows "handled alive host c key (if ok then broadcastPeerLists alive ns s1 else s1) w"
proof (cases ok)
  case True
  let ?w = "goto c (Broadcasting ns) s1 (w\<lparr>w_told := w_told w @ [(reg_Name p, ip)]\<rparr>)"
  have "ws_step alive host w ?w" using ws_step.reply [OF pc(1) run] True by simp
  moreover have "handled alive host c key (broadcastPeerLists alive ns s1) ?w"
    using broadcast_is_run [of ?w c ns key] pc(2) by simp
  ultimately show ?thesis using True handled_step [of alive host w ?w] by simp
next
  case False
  let ?w = "goto c Ready s1 w"
  have "ws_step alive host w ?w" using ws_step.reply [OF pc(1) run] False by simp
  moreover have "handled alive host c key s1 ?w" using pc(2) by (intro handled_now) simp_all
  ultimately show ?thesis using False handled_step [of alive host w ?w] by simp
qed

lemma list_is_run:
  assumes pc: "w_pc w c = Entered p ip" "w_key w c = key" and run: "ListNodes (w_db w) = (r, d1)"
  shows "handled alive host c key (case r of Inl _ \<Rightarrow> with_db (w_srv w) d1
    | Inr ns \<Rightarrow> (case WriteJSON alive c (registered_msg ip (reg_PublicKey p) ns) (with_db (w_srv w) d1) of
        (ok, s1) \<Rightarrow> if ok then broadcastPeerLists alive ns s1 else s1)) w"
proof (cases r)
  case (Inl e)
  then show ?thesis using pc
    by (intro handled_step [OF ws_step.list [OF pc(1) run]]) (auto intro!: handled_now)
next
  case (Inr ns)
  obtain ok s1 where w: "WriteJSON alive c (registered_msg ip (reg_PublicKey p) ns) (with_db (w_srv w) d1) = (ok, s1)"
    by fastforce
  let ?w = "goto c (Listed p ip ns) (with_db (w_srv w) d1) w"
  have "ws_step alive host w ?w" using ws_step.list [OF pc(1) run] Inr by simp
  moreover have "handled alive host c key (if ok then broadcastPeerLists alive ns s1 else s1) ?w"
    using pc(2) w by (intro reply_is_run) simp_all
  ultimately show ?thesis using Inr w handled_step [of alive host w ?w c key] by simp
qed

lemma register_is_run:
  assumes pc: "w_pc w c = Ready" and run: "handleRegister alive now c (host c) p (w_srv w) = (res, s')"
  shows "handled alive host c (reg_PublicKey p) s' w"
proof -
  obtain r d1 where used: "UsedMeshIPs (w_db w) = (r, d1)" by fastforce
  let ?k = "w\<lparr>w_key := (w_key w)(c := reg_PublicKey p)\<rparr>"
  let ?w1 = "goto c (after_used (srv_cidr (w_srv w)) p r) (with_db (w_srv w) d1) ?k"
  have s1: "ws_step alive host w ?w1" using ws_step.register [OF pc used] .
  have "handled alive host c (reg_PublicKey p) s' ?w1"
  proof (cases "after_used (srv_cidr (w_srv w)) p r")
    case Ready
    then have "s' = with_db (w_srv w) d1"
      using run used by (auto simp: handleRegister_def after_used_def split: sum.splits)
    then show ?thesis using Ready by (intro handled_now) simp_all
  next
    case (GotCandidate p' cand)
    then obtain us where al: "r = Inr us" "AllocateIP (srv_cidr (w_srv w)) us = Inr cand" "p' = p"
      by (auto simp: after_used_def split: sum.splits)
    obtain q d2 where ups: "UpsertNode now (reg_Name p) (reg_PublicKey p) cand (endpoint_of (host c) p)
        (reg_AdvertisedSubnets p) d1 = (q, d2)" by fastforce
    have pc1: "w_pc ?w1 c = GotCandidate p cand" using GotCandidate al(3) by simp
    have s2: "ws_step alive host ?w1 (goto c (case q of Inl _ \<Rightarrow> Ready | Inr ip \<Rightarrow> Upserted p ip) (with_db (w_srv w) d2) ?w1)"
      using ws_step.upsert [OF pc1, of now host q d2 alive] ups by simp
    show ?thesis
    proof (cases q)
      case (Inl e)
      then have "s' = with_db (w_srv w) d2" using run used al ups by (simp add: handleRegister_def)
      then show ?thesis using Inl by (intro handled_step [OF s2 handled_now]) simp_all
    next
      case (Inr ip)
      let ?w2 = "goto c (Upserted p ip) (with_db (w_srv w) d2) ?w1"
      let ?s3 = "put_conn (reg_PublicKey p) c (with_db (w_srv w) d2)"
      let ?w3 = "goto c (Entered p ip) ?s3 ?w2"
      have s3: "ws_step alive host ?w2 ?w3" using ws_step.enter [of ?w2 c p ip] by simp
      obtain l d3 where lst: "ListNodes d2 = (l, d3)" by fastforce
      have "s' = (case l of Inl _ \<Rightarrow> with_db ?s3 d3
        | Inr ns \<Rightarrow> (case WriteJSON alive c (registered_msg ip (reg_PublicKey p) ns) (with_db ?s3 d3) of
            (ok, s1) \<Rightarrow> if ok then broadcastPeerLists alive ns s1 else s1))"
        using run used al ups Inr lst
        by (auto simp: handleRegister_def Let_def split: sum.splits prod.splits bool.splits)
      moreover have "handled alive host c (reg_PublicKey p) (case l of Inl _ \<Rightarrow> with_db ?s3 d3
        | Inr ns \<Rightarrow> (case WriteJSON alive c (registered_msg ip (reg_PublicKey p) ns) (with_db ?s3 d3) of
            (ok, s1) \<Rightarrow> if ok then broadcastPeerLists alive ns s1 else s1)) ?w3"
        using list_is_run [of ?w3 c p ip "reg_PublicKey p" l d3 alive host, unfolded goto_sel] lst by simp
      ultimately have "handled alive host c (reg_PublicKey p) s' ?w3" by simp
      then have "handled alive host c (reg_PublicKey p) s' ?w2" by (rule handled_step [OF s3]) simp_all
      moreover have "ws_step alive host ?w1 ?w2" using s2 Inr by simp
      ultimately show ?thesis by (intro handled_step [of alive host ?w1 ?w2]) simp_all
    qed
  qed (auto simp: after_used_def split: sum.splits)
  then show ?thesis by (rule handled_step [OF s1]) simp_all
qed

lemma heartbeat_is_run:
  assumes pc: "w_pc w c = Ready" "w_key w c \<noteq> []"
    and run: "handleHeartbeat alive now (w_key w c) (w_srv w) = (res, s')"
  shows "handled alive host c (w_key w c) s' w"
proof -
  obtain r d1 where t: "TouchLastSeen now (w_key w c) (w_db w) = (r, d1)" by fastforce
  note s1 = ws_step.heartbeat [OF pc t, of alive host]
  show ?thesis
  proof (cases r)
    case (Inl e)
    then show ?thesis using run t by (intro handled_step [OF s1 handled_now]) (simp_all add: handleHeartbeat_def)
  next
    case (Inr u)
    let ?w1 = "goto c Touched (with_db (w_srv w) d1) w"
    obtain l d2 where l: "ListNodes d1 = (l, d2)" by fastforce
    have s2: "ws_step alive host ?w1 (goto c (case l of Inl _ \<Rightarrow> Ready | Inr ns \<Rightarrow> Broadcasting ns) (with_db (w_srv w) d2) ?w1)"
      using ws_step.heartbeat_list [of ?w1 c l d2] l by simp
    have "handled alive host c (w_key w c) s' ?w1"
    proof (cases l)
      case (Inl e)
      then show ?thesis using run t Inr l
        by (intro handled_step [OF s2 handled_now]) (simp_all add: handleHeartbeat_def)
    next
      case ns: (Inr ns)
      let ?w2 = "goto c (Broadcasting ns) (with_db (w_srv w) d2) ?w1"
      have "s' = broadcastPeerLists alive ns (with_db (w_srv w) d2)"
        using run t Inr l ns by (simp add: handleHeartbeat_def)
      then have "handled alive host c (w_key w c) s' ?w2"
        using broadcast_is_run [of ?w2 c ns "w_key w c"] by simp
      moreover have "ws_step alive host ?w1 ?w2" using s2 ns by simp
      ultimately show ?thesis by (intro handled_step [of alive host ?w1 ?w2]) simp_all
    qed
    then show ?thesis using s1 Inr by (intro handled_step [of alive host w ?w1]) simp_all
  qed
qed

section \<open>From the tables to what Traefik is told\<close>

definition target_address :: "db \<Rightarrow> TargetRow \<Rightarrow> string" where
  "target_address d t = t_Address (resolve d t) @ '':'' @ Itoa (tgt_port t)"

lemma t_Port_resolve [simp]: "t_Port (resolve d t) = tgt_port t"
  by (simp add: resolve_def scan_target_def)

section \<open>Two consequences of the order of operations\<close>

text \<open>
  \<open>handleRegister\<close> asks for a free address before it looks whether the node already has
  one, so on a full mesh a registered node cannot come back.
\<close>

lemma register_when_full:
  assumes "faults (srv_db s) = []" "AllocateIP (srv_cidr s) (map node_MeshIP (nodes (srv_db s))) = Inl e"
  shows "handleRegister alive now c h p s = (Inl (AllocateFailed e), s)"
  using assms by (simp add: handleRegister_def UsedMeshIPs_def run_statement_def with_db_def)

text \<open>
  A connection that ends removes the entry of its key, whichever connection holds it: after
  a reconnect the old connection's end cuts the new one off from the broadcasts.
\<close>

lemma close_removes_newer:
  assumes "conn_for s k = Some new" "k \<noteq> []"
  shows "conn_for (close_conn (k, s)) k = None"
    and "(new, e) \<in> set (srv_out (broadcastPeerLists alive ns (close_conn (k, s)))) \<Longrightarrow>
      (new, e) \<in> set (srv_out s) \<or> (\<exists>k'. k' \<noteq> k \<and> (k', new) \<in> set (srv_conns s))"
  using assms(2) fun_cong [OF conn_for_delete, of k s k]
  by (auto simp: close_conn_def broadcast_out delete_conn_def)

end
