(* ===== verification/Registration.thy ===== *)
theory Registration
  imports System
begin

text \<open>
  When a registration succeeds, with every statement served: an address must be free (the
  code asks for one even when the node has its own), the key must not belong to a node of
  another name, and the answer must be written. In the first two cases nothing changes.
\<close>

definition other_has_key :: "db \<Rightarrow> RegisterPayload \<Rightarrow> bool" where
  "other_has_key d p \<longleftrightarrow> list_ex (\<lambda>m. node_Name m \<noteq> reg_Name p \<and> node_PublicKey m = reg_PublicKey p) (nodes d)"

definition mesh_full :: "Server \<Rightarrow> bool" where
  "mesh_full s \<longleftrightarrow> (\<forall>ip. mesh_host (srv_cidr s) ip \<longrightarrow> ip \<in> node_MeshIP ` set (nodes (srv_db s)))"

lemma mesh_full_iff:
  "mesh_full s \<longleftrightarrow> isl (AllocateIP (srv_cidr s) (map node_MeshIP (nodes (srv_db s))))"
proof (cases "AllocateIP (srv_cidr s) (map node_MeshIP (nodes (srv_db s)))")
  case (Inl e)
  then show ?thesis using mesh.alloc_full [OF Inl] by (simp add: mesh_full_def)
next
  case (Inr ip)
  then show ?thesis using mesh.alloc_fresh [OF Inr] mesh.alloc_host [OF Inr] by (auto simp: mesh_full_def)
qed

text \<open>The upsert is refused only for the key.\<close>

lemma upsert_refused_iff:
  assumes "nodes_ok d" "cand \<notin> node_MeshIP ` set (nodes d)"
  shows "isl (fst (upsert_body now (reg_Name p) (reg_PublicKey p) cand ep subs d)) \<longleftrightarrow> other_has_key d p"
proof (cases "node_named (reg_Name p) d")
  case None
  then have "\<forall>m \<in> set (nodes d). node_Name m \<noteq> reg_Name p" unfolding node_named_None_iff by force
  moreover have "\<forall>m \<in> set (nodes d). node_MeshIP m \<noteq> cand" using assms(2) by auto
  ultimately have "list_ex (\<lambda>m. node_PublicKey m = reg_PublicKey p \<or> node_MeshIP m = cand) (nodes d) = other_has_key d p"
    unfolding other_has_key_def list_ex_iff by blast
  then show ?thesis using None by (simp add: upsert_body_def)
next
  case (Some n)
  then show ?thesis by (simp add: upsert_body_def other_has_key_def)
qed

lemma upsert_refused:
  assumes "fst (upsert_body now name key cand ep subs d) = Inl e"
  shows "upsert_body now name key cand ep subs d = (Inl UniqueViolation, d)"
  using assms by (auto simp: upsert_body_def split: option.splits if_splits)

lemma upsert_faults: "faults (snd (upsert_body now name key cand ep subs d)) = faults d"
  by (simp add: upsert_body_def split: option.split)

lemma register_outcome:
  assumes ok: "nodes_ok (srv_db s)" and served: "faults (srv_db s) = []"
  shows "mesh_full s \<Longrightarrow> \<exists>e. handleRegister alive now c h p s = (Inl (AllocateFailed e), s)"
    and "\<not> mesh_full s \<Longrightarrow> other_has_key (srv_db s) p \<Longrightarrow>
      handleRegister alive now c h p s = (Inl (UpsertFailed UniqueViolation), s)"
    and "\<not> mesh_full s \<Longrightarrow> \<not> other_has_key (srv_db s) p \<Longrightarrow>
      fst (handleRegister alive now c h p s) = (if alive c then Inr () else Inl WriteFailed)"
proof -
  show "\<exists>e. handleRegister alive now c h p s = (Inl (AllocateFailed e), s)" if "mesh_full s"
    using that register_when_full [OF served] by (auto simp: mesh_full_iff isl_def)
  have used: "UsedMeshIPs (srv_db s) = (Inr (map node_MeshIP (nodes (srv_db s))), srv_db s)"
    by (simp add: UsedMeshIPs_def run_statement_served [OF served])
  let ?up = "\<lambda>cand. upsert_body now (reg_Name p) (reg_PublicKey p) cand (endpoint_of h p) (reg_AdvertisedSubnets p) (srv_db s)"
  { assume "\<not> mesh_full s"
    then obtain cand where al: "AllocateIP (srv_cidr s) (map node_MeshIP (nodes (srv_db s))) = Inr cand"
      by (auto simp: mesh_full_iff isl_def) (metis sum.exhaust)
    have "cand \<notin> node_MeshIP ` set (nodes (srv_db s))" using mesh.alloc_fresh [OF al] by simp
    note refused = upsert_refused_iff [OF ok this, of now p "endpoint_of h p" "reg_AdvertisedSubnets p"]
    { assume "other_has_key (srv_db s) p"
      then obtain e where "fst (?up cand) = Inl e" using refused by (auto simp: isl_def)
      from upsert_refused [OF this]
      show "handleRegister alive now c h p s = (Inl (UpsertFailed UniqueViolation), s)"
        by (simp add: handleRegister_def used al UpsertNode_def run_statement_served [OF served] with_db_def) }
    { assume "\<not> other_has_key (srv_db s) p"
      then obtain ip d2 where up: "?up cand = (Inr ip, d2)"
        using refused by (cases "?up cand"; cases "fst (?up cand)") auto
      then have "faults d2 = []" using upsert_faults [of now "reg_Name p" "reg_PublicKey p" cand] served
        by (metis snd_conv)
      then show "fst (handleRegister alive now c h p s) = (if alive c then Inr () else Inl WriteFailed)"
        by (simp add: handleRegister_def used al UpsertNode_def run_statement_served [OF served] up
            ListNodes_def run_statement_served Let_def WriteJSON_def) } }
qed

end
