(* ===== verification/Samples.thy ===== *)
theory Samples
  imports Registration
begin

text \<open>
  Concrete values on which the theorems of the development are applied: a small database
  that satisfies the schema, and the outside of a request with simple stand-ins for bcrypt
  and HMAC (the identity and concatenation), which the theorems hold for like for any other.
\<close>

definition node_a :: Node where
  "node_a = \<lparr>node_ID = 0, node_Name = ''a'', node_PublicKey = ''ka'', node_MeshIP = ''10.0.0.1'',
     node_LastEndpoint = Some ''192.0.2.1:51820'', node_LastSeen = Some 0, node_AdvertisedSubnets = []\<rparr>"

definition node_b :: Node where
  "node_b = \<lparr>node_ID = 1, node_Name = ''b'', node_PublicKey = ''kb'', node_MeshIP = ''10.0.0.2'',
     node_LastEndpoint = None, node_LastSeen = None, node_AdvertisedSubnets = [''192.168.7.0/24'']\<rparr>"

definition web_row :: ResourceRow where
  "web_row = \<lparr>res_id = 2, res_name = ''web'', res_protocol = ''http'', res_domain = Some ''example.org'',
     res_entry_point = ''websecure'', res_cert_resolver = Some ''le'', res_target_scheme = ''http'',
     res_target_skip_verify = False, res_sticky = False\<rparr>"

definition ssh_row :: ResourceRow where
  "ssh_row = \<lparr>res_id = 3, res_name = ''ssh'', res_protocol = ''tcp'', res_domain = None,
     res_entry_point = ''ssh'', res_cert_resolver = None, res_target_scheme = ''http'',
     res_target_skip_verify = False, res_sticky = False\<rparr>"

definition admin_row :: UserRow where
  "admin_row = \<lparr>user_id = 4, user_email = ''root@example.org'', user_password_hash = Some ''correct horse'',
     user_role = ''admin'', user_invite_token = None, user_invite_expires = None, user_reset_token = None,
     user_reset_expires = None, user_created_at = 0\<rparr>"

definition guest_row :: UserRow where
  "guest_row = \<lparr>user_id = 5, user_email = ''guest@example.org'', user_password_hash = None,
     user_role = ''viewer'', user_invite_token = Some ''t0'', user_invite_expires = Some 1000,
     user_reset_token = Some ''t1'', user_reset_expires = Some 1000, user_created_at = 1\<rparr>"

definition sample_db :: db where
  "sample_db = \<lparr>nodes = [node_a, node_b], resources = [web_row, ssh_row],
     resource_targets =
       [\<lparr>tgt_resource_id = 2, tgt_node_id = Some 0, tgt_address = None, tgt_port = 8080, tgt_role = ''primary''\<rparr>,
        \<lparr>tgt_resource_id = 3, tgt_node_id = Some 0, tgt_address = None, tgt_port = 22, tgt_role = ''primary''\<rparr>,
        \<lparr>tgt_resource_id = 3, tgt_node_id = None, tgt_address = Some ''192.0.2.9'', tgt_port = 22, tgt_role = ''backup''\<rparr>],
     users = [admin_row, guest_row], next_id = 6, faults = []\<rparr>"

lemmas sample_defs = sample_db_def node_a_def node_b_def web_row_def ssh_row_def admin_row_def guest_row_def

lemma sample_db_ok: "db_ok sample_db"
  by (simp add: db_ok_defs sample_defs node_ids_def protocol_check_def target_row_ok_def in_int4_def role_check_def)

lemma sample_faults [simp]: "faults sample_db = []"
  by (simp add: sample_db_def)

lemma sample_store_ok: "store_ok sample_db"
  by (rule store_okI)
     (auto simp: shape_ok_def view_row_def row_args_def view_target_def targets_of_def sample_defs protocol_check_def)

definition sample_env :: "int \<Rightarrow> env" where
  "sample_env now = \<lparr>e_secret = ''s3cret'', e_mac = (\<lambda>k m. k @ m), e_generate = (\<lambda>p. Some p),
     e_compare = (\<lambda>h p. h = p), e_entropy = Some (replicate 32 (CHR ''x'')), e_now = now, e_pg_now = now,
     e_relay = (\<lambda>_. True),
     e_smtp = \<lparr>cfg_Server = ''mx'', cfg_Port = ''587'', cfg_User = [], cfg_Password = [], cfg_From = ''rvtx@mx''\<rparr>,
     e_baseURL = ''https://d'', e_dist = (\<lambda>_. None)\<rparr>"

definition sample_request :: "string \<Rightarrow> string list \<Rightarrow> (string \<times> string) list \<Rightarrow> json \<Rightarrow> request" where
  "sample_request m p cookies b = \<lparr>rq_method = m, rq_path = p, rq_token = [], rq_cookies = cookies,
     rq_body = print_json b\<rparr>"

definition sample_register :: "string \<Rightarrow> string \<Rightarrow> RegisterPayload" where
  "sample_register name key = \<lparr>reg_Name = name, reg_PublicKey = key, reg_Port = 51820, reg_Endpoint = [],
     reg_AdvertisedSubnets = []\<rparr>"

text \<open>A printed object decodes as its members do.\<close>

lemma decode_body_print:
  assumes "printable (JObj kvs)"
  shows "decode_body fs z (print_json (JObj kvs)) = dec_members fs kvs z"
  using parse_fuel(1) [OF assms, of "Suc (length (print_json (JObj kvs)))" "[]"] by (simp add: decode_body_def)

text \<open>The registration of one node on an empty mesh, step by step.\<close>

definition all_alive :: "nat \<Rightarrow> bool" where "all_alive c = True"
definition one_host :: "nat \<Rightarrow> string" where "one_host c = ''192.0.2.7''"

definition sample_start :: world where
  "sample_start = start_world empty_db ''10.0.0.0/29''"

lemma sample_allocate: "AllocateIP ''10.0.0.0/29'' [] = Inr ''10.0.0.1''"
  by code_simp

lemma empty_db_faults [simp]: "faults empty_db = []"
  by (simp add: empty_db_def)

lemma mesh_empty_db: "mesh_db cidr empty_db"
  by (rule new_db_mesh [OF empty_db_ok]) (simp_all add: empty_db_def)

text \<open>The first registration of a mesh, on any database without nodes.\<close>

lemma first_told_address:
  assumes ready: "w_pc w 0 = Ready" and cidr: "srv_cidr (w_srv w) = ''10.0.0.0/29''"
    and db: "w_db w = d" "faults d = []" "nodes d = []"
  shows "\<exists>w'. (ws_step all_alive one_host)\<^sup>*\<^sup>* w w' \<and> w_told w' = w_told w @ [(''a'', ''10.0.0.1'')]
    \<and> w_pc w' 0 = Broadcasting (nodes (w_db w')) \<and> faults (w_db w') = [] \<and> users (w_db w') = users d"
proof -
  let ?p = "sample_register ''a'' ''ka''"
  have u: "UsedMeshIPs (w_db w) = (Inr [], d)" using db by (simp add: UsedMeshIPs_def run_statement_served)
  obtain w1 where w1: "ws_step all_alive one_host w w1" "w_pc w1 0 = GotCandidate ?p ''10.0.0.1''"
    "w_db w1 = d" "w_told w1 = w_told w"
    by (intro that [OF ws_step.register [OF ready u]]) (simp_all add: cidr after_used_def sample_allocate)
  obtain d1 where up: "UpsertNode 5 (reg_Name ?p) (reg_PublicKey ?p) ''10.0.0.1'' (endpoint_of (one_host 0) ?p)
      (reg_AdvertisedSubnets ?p) (w_db w1) = (Inr ''10.0.0.1'', d1)" "faults d1 = []" "users d1 = users d"
    using db by (simp add: w1(3) UpsertNode_def run_statement_served upsert_body_def node_named_def)
  obtain w2 where w2: "ws_step all_alive one_host w1 w2" "w_pc w2 0 = Upserted ?p ''10.0.0.1''" "w_db w2 = d1" "w_told w2 = w_told w"
    using w1(4) by (intro that [OF ws_step.upsert [where host = one_host and c = 0, OF w1(2) up(1)]]) simp_all
  obtain w3 where w3: "ws_step all_alive one_host w2 w3" "w_pc w3 0 = Entered ?p ''10.0.0.1''" "w_db w3 = d1" "w_told w3 = w_told w"
    using w2(3,4) by (intro that [OF ws_step.enter [OF w2(2)]]) simp_all
  have l: "ListNodes (w_db w3) = (Inr (nodes d1), d1)" using up(2) by (simp add: w3(3) ListNodes_def run_statement_served)
  obtain w4 where w4: "ws_step all_alive one_host w3 w4" "w_pc w4 0 = Listed ?p ''10.0.0.1'' (nodes d1)" "w_db w4 = d1"
    "w_told w4 = w_told w" using w3(4) by (intro that [OF ws_step.list [OF w3(2) l]]) simp_all
  obtain s where wr: "WriteJSON all_alive 0 (registered_msg ''10.0.0.1'' (reg_PublicKey ?p) (nodes d1)) (w_srv w4) = (True, s)"
    by (simp add: WriteJSON_def all_alive_def)
  have s: "srv_db s = d1" using WriteJSON_sel [OF wr] w4(3) by simp
  obtain w5 where w5: "ws_step all_alive one_host w4 w5" "w_told w5 = w_told w @ [(''a'', ''10.0.0.1'')]"
    "w_pc w5 0 = Broadcasting (nodes d1)" "w_db w5 = d1"
    using w4(4) s by (intro that [OF ws_step.reply [OF w4(2) wr]]) (simp_all add: sample_register_def)
  have "(ws_step all_alive one_host)\<^sup>*\<^sup>* w w1" using w1(1) by (rule r_into_rtranclp)
  then have "(ws_step all_alive one_host)\<^sup>*\<^sup>* w w2" using w2(1) by (rule rtranclp.rtrancl_into_rtrancl)
  then have "(ws_step all_alive one_host)\<^sup>*\<^sup>* w w3" using w3(1) by (rule rtranclp.rtrancl_into_rtrancl)
  then have "(ws_step all_alive one_host)\<^sup>*\<^sup>* w w4" using w4(1) by (rule rtranclp.rtrancl_into_rtrancl)
  then have "(ws_step all_alive one_host)\<^sup>*\<^sup>* w w5" using w5(1) by (rule rtranclp.rtrancl_into_rtrancl)
  then show ?thesis using w5(2-4) up(2,3) by (intro exI [of _ w5]) simp
qed

lemma sample_allocate_3: "AllocateIP ''10.0.0.0/29'' [''10.0.0.1'', ''10.0.0.2''] = Inr ''10.0.0.3''"
  by code_simp

lemmas sample_served = handleRegister_def UsedMeshIPs_def UpsertNode_def ListNodes_def run_statement_def statement_def
  upsert_body_def node_named_def empty_db_def WriteJSON_def all_alive_def sample_register_def

text \<open>Two registrations, one after the other: the first connection gets two peer lists.\<close>

definition first_node :: Node where
  "first_node = \<lparr>node_ID = 0, node_Name = ''a'', node_PublicKey = ''ka'', node_MeshIP = ''10.0.0.1'',
     node_LastEndpoint = Some (endpoint_of (one_host 0) (sample_register ''a'' ''ka'')), node_LastSeen = Some 5,
     node_AdvertisedSubnets = []\<rparr>"

definition second_node :: Node where
  "second_node = \<lparr>node_ID = 1, node_Name = ''b'', node_PublicKey = ''kb'', node_MeshIP = ''10.0.0.2'',
     node_LastEndpoint = Some (endpoint_of (one_host 1) (sample_register ''b'' ''kb'')), node_LastSeen = Some 6,
     node_AdvertisedSubnets = []\<rparr>"

definition first_server :: Server where
  "first_server = (w_srv sample_start)\<lparr>srv_db := empty_db\<lparr>nodes := [first_node], next_id := 1\<rparr>,
     srv_conns := [(''ka'', 0)],
     srv_out := [(0, registered_msg ''10.0.0.1'' ''ka'' [first_node]), (0, peer_list_msg ''ka'' [first_node])]\<rparr>"

lemma sample_allocate_2: "AllocateIP ''10.0.0.0/29'' [''10.0.0.1''] = Inr ''10.0.0.2''"
  by code_simp

lemma sample_mesh: "mesh_db ''10.0.0.0/29'' sample_db"
  using mesh.alloc_host [OF sample_allocate] mesh.alloc_host [OF sample_allocate_2]
  by (simp add: mesh_db_def sample_db_ok sample_store_ok) (simp add: names_ips_def sample_db_def node_a_def node_b_def)

lemma first_registered:
  "handleRegister all_alive 5 0 (one_host 0) (sample_register ''a'' ''ka'') (w_srv sample_start) = (Inr (), first_server)"
  by (simp add: handleRegister_def UsedMeshIPs_def UpsertNode_def ListNodes_def run_statement_served sample_start_def start_world_def
      new_server_def empty_db_def sample_allocate upsert_body_def node_named_def with_db_def put_conn_def WriteJSON_def
      all_alive_def broadcastPeerLists_def first_server_def first_node_def sample_register_def)

definition second_server :: Server where
  "second_server = first_server\<lparr>srv_db := empty_db\<lparr>nodes := [first_node, second_node], next_id := 2\<rparr>,
     srv_conns := [(''kb'', 1), (''ka'', 0)],
     srv_out := srv_out first_server @ [(1, registered_msg ''10.0.0.2'' ''kb'' [first_node, second_node]),
       (1, peer_list_msg ''kb'' [first_node, second_node]), (0, peer_list_msg ''ka'' [first_node, second_node])]\<rparr>"

lemma second_registered:
  "handleRegister all_alive 6 1 (one_host 1) (sample_register ''b'' ''kb'') first_server = (Inr (), second_server)"
  by (simp add: handleRegister_def UsedMeshIPs_def UpsertNode_def ListNodes_def run_statement_served sample_start_def start_world_def
      new_server_def empty_db_def sample_allocate_2 upsert_body_def node_named_def with_db_def put_conn_def WriteJSON_def
      all_alive_def broadcastPeerLists_def first_server_def first_node_def second_server_def second_node_def sample_register_def)

lemma second_heartbeat:
  "\<exists>s'. handleHeartbeat all_alive 9 ''kb'' second_server = (Inr (), s')
    \<and> nodes (srv_db s') = [first_node, second_node\<lparr>node_LastSeen := Some 9\<rparr>]"
  by (simp add: handleHeartbeat_def TouchLastSeen_def touch_body_def ListNodes_def run_statement_served with_db_def
      second_server_def empty_db_def first_node_def second_node_def)

lemma sample_reached:
  "\<exists>w. reachable all_alive one_host empty_db ''10.0.0.0/29'' w \<and> w_srv w = second_server
    \<and> w_pc w 1 = Ready \<and> w_key w 1 = ''kb''"
proof -
  have ready: "w_pc sample_start c = Ready" for c by (simp add: sample_start_def start_world_def)
  obtain w1 where w1: "(ws_step all_alive one_host)\<^sup>*\<^sup>* sample_start w1" "w_srv w1 = first_server" "w_pc w1 1 = Ready"
    using register_is_run [where host = one_host, OF ready first_registered] ready by (auto simp: handled_def)
  obtain w2 where w2: "(ws_step all_alive one_host)\<^sup>*\<^sup>* w1 w2" "w_srv w2 = second_server" "w_pc w2 = (w_pc w1)(1 := Ready)"
    "w_key w2 = (w_key w1)(1 := reg_PublicKey (sample_register ''b'' ''kb''))"
    using register_is_run [where host = one_host, OF w1(3) second_registered [folded w1(2)]] unfolding handled_def by blast
  have key: "reg_PublicKey (sample_register ''b'' ''kb'') = ''kb''" by (simp add: sample_register_def)
  have "(ws_step all_alive one_host)\<^sup>*\<^sup>* sample_start w2" using w1(1) w2(1) by (rule rtranclp_trans)
  then show ?thesis using w2(2) unfolding reachable_def sample_start_def
    by (intro exI [of _ w2]) (simp add: w2(3,4) key)
qed

end
