(* ===== verification/ApiBodies.thy ===== *)
theory ApiBodies
  imports System
begin

text \<open>
  The JSON of the response bodies: the struct tags of internal/controlplane/traefikconfig
  and db, and \<open>json.NewEncoder(w).Encode\<close> of cmd/controlplane/main.go. An id is printed by
  \<open>uuid\<close> and a time by \<open>rfc3339\<close>, which knows the zone of the process. The lemmas look
  values up in the text that is sent, as Traefik's and the dashboard's readers do.
\<close>

section \<open>The Traefik configuration\<close>

text \<open>A pointer with \<open>omitempty\<close>.\<close>

definition pointer :: "string \<Rightarrow> ('a \<Rightarrow> json) \<Rightarrow> 'a option \<Rightarrow> (string \<times> json) list" where
  "pointer k f x = (case x of None \<Rightarrow> [] | Some y \<Rightarrow> [(k, f y)])"

text \<open>A map is printed in the order of its keys.\<close>

definition enc_map :: "('v \<Rightarrow> json) \<Rightarrow> (string \<rightharpoonup> 'v) \<Rightarrow> json" where
  "enc_map f m = JObj (map (\<lambda>k. (k, f (the (m k)))) (sorted_list_of_set (dom m)))"

definition enc_routerTLS :: "routerTLS \<Rightarrow> json" where
  "enc_routerTLS t = JObj (omitempty (CertResolver t = []) ''certResolver'' (JStr (CertResolver t))
     @ omitempty (Domains t = []) ''domains'' (JArr (map (\<lambda>d. JObj [(''main'', JStr (Main d))]) (Domains t))))"

definition enc_router :: "router \<Rightarrow> json" where
  "enc_router ro = JObj ([(''rule'', JStr (Rule ro)), (''service'', JStr (rt_Service ro)),
      (''entryPoints'', enc_strings (EntryPoints ro))] @ pointer ''tls'' enc_routerTLS (TLS ro))"

definition enc_server :: "server \<Rightarrow> json" where
  "enc_server s = JObj (omitempty (URL s = []) ''url'' (JStr (URL s)) @ omitempty (Address s = []) ''address'' (JStr (Address s)))"

definition enc_sticky :: "sticky \<Rightarrow> json" where
  "enc_sticky s = JObj [(''cookie'', JObj [(''name'', JStr (cookie_Name (Cookie s)))])]"

definition enc_healthCheck :: "healthCheck \<Rightarrow> json" where
  "enc_healthCheck h = JObj (omitempty (Path h = []) ''path'' (JStr (Path h))
     @ [(''interval'', JStr (Interval h)), (''timeout'', JStr (Timeout h))])"

definition enc_service :: "service \<Rightarrow> json" where
  "enc_service sv = (let lb = LoadBalancer sv in
     JObj [(''loadBalancer'', JObj ([(''servers'', JArr (map enc_server (Servers lb)))]
       @ pointer ''sticky'' enc_sticky (Sticky lb) @ pointer ''healthCheck'' enc_healthCheck (HealthCheck lb)
       @ omitempty (ServersTransport lb = []) ''serversTransport'' (JStr (ServersTransport lb))))])"

definition enc_transport :: "serversTransport \<Rightarrow> json" where
  "enc_transport t = JObj (omitempty (\<not> InsecureSkipVerify t) ''insecureSkipVerify'' (JBool (InsecureSkipVerify t)))"

definition enc_protocol :: "protocolConfig \<Rightarrow> json" where
  "enc_protocol c = JObj ([(''routers'', enc_map enc_router (Routers c)), (''services'', enc_map enc_service (Services c))]
     @ omitempty (dom (ServersTransports c) = {}) ''serversTransports'' (enc_map enc_transport (ServersTransports c)))"

definition enc_udpRouter :: "udpRouter \<Rightarrow> json" where
  "enc_udpRouter ro = JObj [(''service'', JStr (ur_Service ro)), (''entryPoints'', enc_strings (ur_EntryPoints ro))]"

definition enc_udp :: "udpProtocolConfig \<Rightarrow> json" where
  "enc_udp c = JObj [(''routers'', enc_map enc_udpRouter (udp_Routers c)), (''services'', enc_map enc_service (udp_Services c))]"

definition enc_config :: "TraefikConfig.Config \<Rightarrow> json" where
  "enc_config cfg = JObj (pointer ''http'' enc_protocol (HTTP cfg) @ pointer ''tcp'' enc_protocol (TCP cfg)
     @ pointer ''udp'' enc_udp (UDP cfg))"

section \<open>The lists of the dashboard\<close>

record formats =
  uuid :: "nat \<Rightarrow> string"
  rfc3339 :: "int \<Rightarrow> string"

definition nullable :: "('a \<Rightarrow> json) \<Rightarrow> 'a option \<Rightarrow> json" where
  "nullable f x = (case x of None \<Rightarrow> JNull | Some y \<Rightarrow> f y)"

definition enc_node :: "formats \<Rightarrow> Node \<Rightarrow> json" where
  "enc_node fmt n = JObj [(''id'', JStr (uuid fmt (node_ID n))), (''name'', JStr (node_Name n)),
     (''public_key'', JStr (node_PublicKey n)), (''mesh_ip'', JStr (node_MeshIP n)),
     (''last_endpoint'', nullable JStr (node_LastEndpoint n)),
     (''last_seen'', nullable (JStr \<circ> rfc3339 fmt) (node_LastSeen n)),
     (''advertised_subnets'', enc_strings (node_AdvertisedSubnets n))]"

definition enc_target :: "formats \<Rightarrow> Target \<Rightarrow> json" where
  "enc_target fmt t = JObj [(''address'', JStr (t_Address t)), (''port'', JInt (t_Port t)), (''role'', JStr (t_Role t)),
     (''external'', JBool (t_External t)), (''last_seen'', nullable (JStr \<circ> rfc3339 fmt) (t_LastSeen t)),
     (''node_name'', nullable JStr (t_NodeName t))]"

definition enc_resource :: "formats \<Rightarrow> ResourceWithTargets \<Rightarrow> json" where
  "enc_resource fmt r = JObj [(''name'', JStr (r_Name r)), (''protocol'', JStr (r_Protocol r)),
     (''domain'', nullable JStr (r_Domain r)), (''entry_point'', JStr (r_EntryPoint r)),
     (''cert_resolver'', nullable JStr (r_CertResolver r)), (''target_scheme'', JStr (r_TargetScheme r)),
     (''target_skip_verify'', JBool (r_TargetSkipVerify r)), (''sticky'', JBool (r_Sticky r)),
     (''targets'', JArr (map (enc_target fmt) (r_Targets r)))]"

definition enc_user :: "formats \<Rightarrow> User \<Rightarrow> json" where
  "enc_user fmt u = JObj [(''id'', JStr (uuid fmt (u_ID u))), (''email'', JStr (u_Email u)), (''role'', JStr (u_Role u)),
     (''has_set_password'', JBool (u_HasSetPassword u)), (''created_at'', JStr (rfc3339 fmt (u_CreatedAt u)))]"

text \<open>A slice that nothing was appended to is nil and is printed as null.\<close>

definition enc_nil_slice :: "('a \<Rightarrow> json) \<Rightarrow> 'a list \<Rightarrow> json" where
  "enc_nil_slice f xs = (if xs = [] then JNull else JArr (map f xs))"

fun body_json :: "formats \<Rightarrow> body \<Rightarrow> json option" where
  "body_json fmt (ConfigBody cfg) = Some (enc_config cfg)"
| "body_json fmt (NodesBody ns) = Some (enc_nil_slice (enc_node fmt) ns)"
| "body_json fmt (ResourcesBody rs) = Some (JArr (map (enc_resource fmt) rs))"
| "body_json fmt (UsersBody us) = Some (enc_nil_slice (enc_user fmt) us)"
| "body_json fmt (IdentityBody em ro) = Some (JObj [(''email'', JStr em), (''role'', JStr ro)])"
| "body_json fmt _ = None"

text \<open>\<open>Encode\<close> ends the value with a newline.\<close>

definition body_text :: "formats \<Rightarrow> body \<Rightarrow> string option" where
  "body_text fmt b = map_option (\<lambda>v. print_json v @ newline) (body_json fmt b)"

section \<open>Every body is read back\<close>

lemma printable_strings [simp]: "printable (enc_strings xs)"
  by (induction xs) (simp_all add: enc_strings_def)

lemma printable_omitempty [simp]:
  "printable v \<Longrightarrow> list_all (\<lambda>(k, v). printable v) (omitempty b k v)"
  by (simp add: omitempty_def)

lemma printable_pointer [simp]:
  "(\<And>y. printable (f y)) \<Longrightarrow> list_all (\<lambda>(k, v). printable v) (pointer k f x)"
  by (simp add: pointer_def split: option.split)

lemma printable_map [simp]: "(\<And>y. printable (f y)) \<Longrightarrow> printable (enc_map f m)"
  by (simp add: enc_map_def list_all_iff)

lemma printable_array [simp]: "(\<And>y. printable (f y)) \<Longrightarrow> list_all printable (map f xs)"
  by (simp add: list_all_iff)

lemma printable_nullable [simp]: "(\<And>y. printable (f y)) \<Longrightarrow> printable (nullable f x)"
  by (simp add: nullable_def split: option.split)

lemma printable_parts [simp]:
  "printable (enc_routerTLS t)" "printable (enc_server s)" "printable (enc_sticky k)" "printable (enc_healthCheck h)"
  "printable (enc_transport tr)" "printable (enc_udpRouter ur)"
  by (simp_all add: enc_routerTLS_def enc_server_def enc_sticky_def enc_healthCheck_def enc_transport_def enc_udpRouter_def)

lemma printable_router [simp]: "printable (enc_router ro)"
  by (simp add: enc_router_def)

lemma printable_service [simp]: "printable (enc_service sv)"
  by (simp add: enc_service_def Let_def)

lemma printable_config [simp]: "printable (enc_config cfg)"
  by (simp add: enc_config_def enc_protocol_def enc_udp_def)

lemma printable_rows [simp]:
  "printable (enc_node fmt n)" "printable (enc_target fmt t)" "printable (enc_user fmt u)"
  by (simp_all add: enc_node_def enc_target_def enc_user_def)

lemma printable_resource [simp]: "printable (enc_resource fmt r)"
  by (simp add: enc_resource_def)

lemma body_printable: "body_json fmt b = Some v \<Longrightarrow> printable v"
  by (cases b) (auto simp: enc_nil_slice_def)

lemma parse_line:
  assumes "printable v"
  shows "parse_json (print_json v @ newline) = Some v"
proof -
  have "value_of (Suc (length (print_json v @ newline))) (print_json v @ newline) = Some (v, newline)"
    using assms by (rule parse_fuel(1)) (simp_all add: newline_def number_ends_def is_digit_def)
  moreover have "skip newline = []" by (simp add: newline_def json_space_def)
  ultimately show ?thesis by (simp only: parse_json_def option.case case_prod_conv simp_thms if_True)
qed

lemma body_parses: "body_json fmt b = Some v \<Longrightarrow> \<exists>txt. body_text fmt b = Some txt \<and> parse_json txt = Some v"
  using parse_line [OF body_printable] by (simp add: body_text_def)

section \<open>Looking values up in a body\<close>

text \<open>The value at a path of member names.\<close>

fun json_at :: "string list \<Rightarrow> json \<Rightarrow> json option" where
  "json_at [] v = Some v"
| "json_at (k # ks) (JObj kvs) = (case map_of kvs k of None \<Rightarrow> None | Some v \<Rightarrow> json_at ks v)"
| "json_at (k # ks) _ = None"

lemma json_at_map:
  assumes "finite (dom m)"
  shows "json_at (k # ks) (enc_map f m) = (case m k of None \<Rightarrow> None | Some v \<Rightarrow> json_at ks (f v))"
  using assms by (cases "m k") (auto simp: enc_map_def map_of_map_restrict restrict_map_def)

lemma map_of_pointer: "map_of (pointer k f x) k' = (if k' = k then map_option f x else None)"
  by (simp add: pointer_def split: option.split)

lemma json_at_config:
  "json_at (''http'' # ks) (enc_config cfg) = (case HTTP cfg of None \<Rightarrow> None | Some c \<Rightarrow> json_at ks (enc_protocol c))"
  "json_at (''tcp'' # ks) (enc_config cfg) = (case TCP cfg of None \<Rightarrow> None | Some c \<Rightarrow> json_at ks (enc_protocol c))"
  "json_at (''udp'' # ks) (enc_config cfg) = (case UDP cfg of None \<Rightarrow> None | Some c \<Rightarrow> json_at ks (enc_udp c))"
  by (simp_all add: enc_config_def map_add_def map_of_pointer split: option.split)

lemma json_at_protocol:
  "json_at (''routers'' # ks) (enc_protocol c) = json_at ks (enc_map enc_router (Routers c))"
  "json_at (''services'' # ks) (enc_protocol c) = json_at ks (enc_map enc_service (Services c))"
  "json_at (''routers'' # ks) (enc_udp u) = json_at ks (enc_map enc_udpRouter (udp_Routers u))"
  "json_at (''services'' # ks) (enc_udp u) = json_at ks (enc_map enc_service (udp_Services u))"
  by (simp_all add: enc_protocol_def enc_udp_def)

lemma json_at_router:
  "json_at [''rule''] (enc_router ro) = Some (JStr (Rule ro))"
  "json_at [''service''] (enc_router ro) = Some (JStr (rt_Service ro))"
  "json_at [''tls'', ''certResolver''] (enc_router ro) = (case TLS ro of None \<Rightarrow> None
     | Some t \<Rightarrow> if CertResolver t = [] then None else Some (JStr (CertResolver t)))"
  by (simp_all add: enc_router_def map_of_pointer enc_routerTLS_def omitempty_def split: option.split)

lemma json_at_servers:
  "json_at [''loadBalancer'', ''servers''] (enc_service sv) = Some (JArr (map enc_server (Servers (LoadBalancer sv))))"
  by (simp add: enc_service_def Let_def)

text \<open>The sections of a generated configuration are finite.\<close>

lemma finite_sections:
  "HTTP (Generate now rs) = Some c \<Longrightarrow> finite (dom (Routers c)) \<and> finite (dom (Services c))"
  "TCP (Generate now rs) = Some c \<Longrightarrow> finite (dom (Routers c)) \<and> finite (dom (Services c))"
  "UDP (Generate now rs) = Some u \<Longrightarrow> finite (dom (udp_Routers u)) \<and> finite (dom (udp_Services u))"
  by (auto simp: Generate_sections section_of_def empty_protocol_def empty_udp_def
      intro!: http_routers.look_all_finite http_services.look_all_finite tcp_routers.look_all_finite
        tcp_services.look_all_finite udp_routers.look_all_finite udp_services.look_all_finite split: if_splits)

section \<open>What Traefik finds\<close>

text \<open>
  The addresses in the servers list at a path, as the reader of an http (\<open>url\<close>) or of a tcp
  or udp configuration (\<open>address\<close>) gets them.
\<close>

definition urls :: "string list \<Rightarrow> json" where
  "urls us = JArr (map (\<lambda>u. JObj [(''url'', JStr u)]) us)"

definition addresses :: "string list \<Rightarrow> json" where
  "addresses as = JArr (map (\<lambda>a. JObj [(''address'', JStr a)]) as)"

lemma enc_servers_url: "map enc_server (Servers (LoadBalancer (http_service r)))
    = map (\<lambda>t. JObj [(''url'', JStr (http_scheme r @ ''://'' @ t_Address t @ '':'' @ Itoa (t_Port t)))]) (r_Targets r)"
  by (simp add: http_service_def enc_server_def omitempty_def)

lemma http_found:
  fixes now :: int
  assumes "distinct (map r_Name rs)" "r \<in> set rs" "r_Protocol r = ''http''"
  defines "v \<equiv> enc_config (Generate now rs)"
  shows "json_at [''http'', ''routers'', r_Name r, ''rule''] v = Some (JStr (Rule (http_router r)))"
    and "json_at [''http'', ''routers'', r_Name r, ''service''] v = Some (JStr (r_Name r))"
    and "json_at [''http'', ''routers'', r_Name r, ''tls'', ''certResolver''] v
      = (case r_CertResolver r of None \<Rightarrow> None | Some cr \<Rightarrow> if cr = [] then None else Some (JStr cr))"
    and "json_at [''http'', ''services'', r_Name r, ''loadBalancer'', ''servers''] v
      = Some (urls (map (\<lambda>t. http_scheme r @ ''://'' @ t_Address t @ '':'' @ Itoa (t_Port t)) (r_Targets r)))"
proof -
  obtain c where c: "HTTP (Generate now rs) = Some c" "Routers c (r_Name r) = Some (http_router r)"
    "Services c (r_Name r) = Some (http_service r)"
    using section_lookup(1) [OF assms(1-3), of now] by blast
  note fin = finite_sections(1) [OF c(1)]
  show "json_at [''http'', ''routers'', r_Name r, ''rule''] v = Some (JStr (Rule (http_router r)))"
    "json_at [''http'', ''routers'', r_Name r, ''service''] v = Some (JStr (r_Name r))"
    "json_at [''http'', ''routers'', r_Name r, ''tls'', ''certResolver''] v
      = (case r_CertResolver r of None \<Rightarrow> None | Some cr \<Rightarrow> if cr = [] then None else Some (JStr cr))"
    by (simp_all only: v_def json_at_config json_at_protocol json_at_map [OF conjunct1 [OF fin]] c option.case json_at_router)
      (simp_all add: http_router_def http_tls_def split: option.split)
  show "json_at [''http'', ''services'', r_Name r, ''loadBalancer'', ''servers''] v
      = Some (urls (map (\<lambda>t. http_scheme r @ ''://'' @ t_Address t @ '':'' @ Itoa (t_Port t)) (r_Targets r)))"
    by (simp only: v_def json_at_config json_at_protocol json_at_map [OF conjunct2 [OF fin]] c option.case json_at_servers
        enc_servers_url urls_def map_map comp_def)
qed

lemma l4_found:
  fixes now :: int
  assumes "distinct (map r_Name rs)" "r \<in> set rs" "r_Protocol r = p" "p = ''tcp'' \<or> p = ''udp''"
  defines "v \<equiv> enc_config (Generate now rs)" and "t \<equiv> selectMasterBackupTarget now (r_Targets r)"
  shows "json_at [p, ''services'', r_Name r, ''loadBalancer'', ''servers''] v
    = Some (addresses [t_Address t @ '':'' @ Itoa (t_Port t)])"
proof -
  have enc: "map enc_server (Servers (LoadBalancer (l4_service now r))) = [JObj [(''address'', JStr (t_Address t @ '':'' @ Itoa (t_Port t)))]]"
    by (simp add: l4_service_def Let_def enc_server_def omitempty_def t_def)
  show ?thesis
  proof (cases "p = ''tcp''")
    case True
    then obtain c where c: "TCP (Generate now rs) = Some c" "Services c (r_Name r) = Some (l4_service now r)"
      using section_lookup(2) [OF assms(1,2), of now] assms(3) by blast
    show ?thesis
      by (simp only: v_def True json_at_config json_at_protocol json_at_map [OF conjunct2 [OF finite_sections(2) [OF c(1)]]] c
          option.case json_at_servers enc addresses_def list.map)
  next
    case False
    then have p: "p = ''udp''" using assms(4) by simp
    then obtain u where u: "UDP (Generate now rs) = Some u" "udp_Services u (r_Name r) = Some (l4_service now r)"
      using section_lookup(3) [OF assms(1,2), of now] assms(3) by blast
    show ?thesis
      by (simp only: v_def p json_at_config json_at_protocol json_at_map [OF conjunct2 [OF finite_sections(3) [OF u(1)]]] u
          option.case json_at_servers enc addresses_def list.map)
  qed
qed

text \<open>
  What the value \<open>v\<close> has under the name of a resource: the rule and the URLs of all its
  targets, by role, for http; the address of one of its targets for tcp and udp.
\<close>

definition rule_text :: "string option \<Rightarrow> string" where
  "rule_text domain = (case domain of None \<Rightarrow> ''PathPrefix(`/`)''
     | Some h \<Rightarrow> if h \<noteq> [] then hostRule h else ''PathPrefix(`/`)'')"

definition traefik_finds :: "json \<Rightarrow> db \<Rightarrow> ResourceRow \<Rightarrow> bool" where
  "traefik_finds v d r \<longleftrightarrow>
     (if res_protocol r = ''http'' then
        json_at [''http'', ''routers'', res_name r, ''rule''] v = Some (JStr (rule_text (res_domain r)))
        \<and> json_at [''http'', ''services'', res_name r, ''loadBalancer'', ''servers''] v
          = Some (urls (map (\<lambda>t. (if res_target_scheme r = [] then ''http'' else res_target_scheme r) @ ''://'' @ target_address d t)
              (sort_key tgt_role (targets_of d r))))
      else (\<exists>t \<in> set (targets_of d r).
        json_at [res_protocol r, ''services'', res_name r, ''loadBalancer'', ''servers''] v = Some (addresses [target_address d t])))"

lemma listing_found:
  assumes "db_ok d" "store_ok d" "r \<in> set (resources d)"
  shows "traefik_finds (enc_config (Generate now (listed d))) d r"
proof (cases "res_protocol r = ''http''")
  case True
  note found = http_found [OF listed_distinct [OF assms(1)] listing_in_listed [OF assms], unfolded listing_sel, OF True, of now]
  show ?thesis unfolding traefik_finds_def if_P [OF True] found(1,4)
    by (simp add: rule_text_def http_router_def http_scheme_def listing_def scan_resource_def target_address_def comp_def)
next
  case False
  have "protocol_check (res_protocol r)" using assms(1,3) by (simp add: db_ok_def resources_ok_def)
  then have p: "res_protocol r = ''tcp'' \<or> res_protocol r = ''udp''" using False by (simp add: protocol_check_def)
  obtain t where t: "t \<in> set (targets_of d r)" "selectMasterBackupTarget now (r_Targets (listing d r)) = resolve d t"
    using l4_own_target [OF assms False, of now] by blast
  note found = l4_found [OF listed_distinct [OF assms(1)] listing_in_listed [OF assms] _ p, of now, unfolded t(2) listing_sel(1,2)]
  show ?thesis unfolding traefik_finds_def if_not_P [OF False] found [OF refl] using t(1)
    by (auto simp: target_address_def)
qed

lemma config_read:
  assumes "db_ok d" "store_ok d" "faults d = []"
  shows "\<exists>txt v. body_text fmt (rs_body (fst (traefikConfigHandler e rq d))) = Some txt \<and> parse_json txt = Some v
    \<and> (\<forall>r \<in> set (resources d). traefik_finds v d r)"
proof -
  let ?v = "enc_config (Generate (e_now e) (listed d))"
  have "traefikConfigHandler e rq d = (respond 200 (ConfigBody (Generate (e_now e) (listed d))), d, [])"
    using list_served [OF assms(1) statement_served [OF assms(3)]] by (simp add: traefikConfigHandler_def)
  then obtain out where "body_text fmt (rs_body (fst (traefikConfigHandler e rq d))) = Some out" "parse_json out = Some ?v"
    using body_parses [of fmt "ConfigBody (Generate (e_now e) (listed d))" ?v] by (auto simp: respond_def)
  then show ?thesis using listing_found [OF assms(1,2)] by blast
qed

end
