(* ===== verification/Accounts.thy ===== *)
theory Accounts
  imports System
begin

text \<open>
  Who can take an account or its role away (cmd/controlplane/main.go): request by request,
  an account stays as it is unless another account's administrator names it in one of the
  two routes for that.
\<close>

definition has_account :: "string \<Rightarrow> string \<Rightarrow> db \<Rightarrow> bool" where
  "has_account em ro d \<longleftrightarrow> (em, ro) \<in> (\<lambda>u. (user_email u, user_role u)) ` set (users d)"

lemma has_account_cong: "users d' = users d \<Longrightarrow> has_account em ro d' = has_account em ro d"
  by (simp add: has_account_def)

lemma has_account_same: "same_tables d d' \<Longrightarrow> has_account em ro d \<Longrightarrow> has_account em ro d'"
  by (simp add: has_account_def same_tables_def)

lemma has_account_credentials:
  assumes "same_but_credentials d d'" "has_account em ro d"
  shows "has_account em ro d'"
proof -
  let ?f = "\<lambda>(i, e, r, c). (e, r) :: string \<times> string"
  have "(\<lambda>u. (user_email u, user_role u)) ` set us = ?f ` set (map identity us)" for us
    by (simp add: identity_def image_image)
  moreover have "map identity (users d) = map identity (users d')" using assms(1) by (simp add: same_but_credentials_def)
  ultimately show ?thesis using assms(2) unfolding has_account_def by (simp only:)
qed

text \<open>The statements on other accounts.\<close>

lemma has_account_statement:
  assumes "run_statement body d = (r, d')" "has_account em ro d"
    and "\<And>a b r. body a = (r, b) \<Longrightarrow> has_account em ro a \<Longrightarrow> has_account em ro b"
  shows "has_account em ro d'"
  using assms(1)
proof (rule run_statement_cases)
  fix d1 assume s: "statement d = (True, d1)" and b: "body d1 = (r, d')"
  have "has_account em ro d1" using statement_same [OF s] assms(2) by (rule has_account_same)
  with b show ?thesis by (rule assms(3))
qed (auto intro: has_account_same [OF statement_same assms(2)])

lemma create_invite_account:
  "create_invite_body now e ro' tok t a = (r, b) \<Longrightarrow> has_account em ro a \<Longrightarrow> has_account em ro b"
  by (auto simp: create_invite_body_def has_account_def split: if_splits)

lemma delete_user_account: "delete_user_body e a = (r, b) \<Longrightarrow> has_account em ro a \<Longrightarrow> e = em \<or> has_account em ro b"
  by (auto simp: delete_user_body_def has_account_def)

lemma set_role_account: "set_role_body e ro' a = (r, b) \<Longrightarrow> has_account em ro a \<Longrightarrow> e = em \<or> has_account em ro b"
  by (force simp: set_role_body_def has_account_def set_update_where)

lemma CreateInvite_account: "CreateInvite t now e ro' tok d = (r, d') \<Longrightarrow> has_account em ro d \<Longrightarrow> has_account em ro d'"
  by (auto simp: CreateInvite_def split: prod.splits sum.splits dest: has_account_statement [OF _ _ create_invite_account])

lemma DeleteUser_account:
  assumes "DeleteUser e d = (r, d')" "has_account em ro d" "e \<noteq> em"
  shows "has_account em ro d'"
proof -
  obtain q where "run_statement (delete_user_body e) d = (q, d')"
    using assms(1) by (auto simp: DeleteUser_def split: prod.splits sum.splits if_splits)
  then show ?thesis using assms(2) by (rule has_account_statement) (use delete_user_account assms(3) in blast)
qed

lemma SetUserRole_account:
  assumes "SetUserRole e ro' d = (r, d')" "has_account em ro d" "e \<noteq> em"
  shows "has_account em ro d'"
proof -
  obtain q where "run_statement (set_role_body e ro') d = (q, d')"
    using assms(1) by (auto simp: SetUserRole_def split: prod.splits sum.splits if_splits)
  then show ?thesis using assms(2) by (rule has_account_statement) (use set_role_account assms(3) in blast)
qed

text \<open>Resources have nothing to do with accounts.\<close>

lemma CreateResource_account:
  "db_ok d \<Longrightarrow> CreateResource n a ts d = (r, d') \<Longrightarrow> has_account em ro d' = has_account em ro d"
  by (cases r) (auto dest: CreateResource_refines CreateResource_error simp: same_tables_def intro!: has_account_cong)

lemma UpdateResource_account:
  "db_ok d \<Longrightarrow> UpdateResource n a ts d = (r, d') \<Longrightarrow> has_account em ro d' = has_account em ro d"
  by (cases r) (auto dest: UpdateResource_refines UpdateResource_error simp: same_tables_def intro!: has_account_cong)

lemma DeleteResource_account: "DeleteResource n d = (r, d') \<Longrightarrow> has_account em ro d' = has_account em ro d"
  by (erule DeleteResource_cases) (auto simp: same_tables_def intro!: has_account_cong)

section \<open>Handler by handler\<close>

lemma resource_handlers_account:
  assumes "db_ok d" "has_account em ro d"
  shows "createResourceHandler e rq sess d = (rs, d', sent) \<Longrightarrow> has_account em ro d'"
    and "updateResourceHandler x e rq sess d = (rs, d', sent) \<Longrightarrow> has_account em ro d'"
    and "deleteResourceHandler x e rq sess d = (rs, d', sent) \<Longrightarrow> has_account em ro d'"
  using assms
  by (auto simp: createResourceHandler_def updateResourceHandler_def deleteResourceHandler_def
      CreateResource_account UpdateResource_account DeleteResource_account
      split: option.splits prod.splits sum.splits)

lemma inviteUserHandler_account:
  "inviteUserHandler e rq sess d = (rs, d', sent) \<Longrightarrow> has_account em ro d \<Longrightarrow> has_account em ro d'"
  by (auto simp: inviteUserHandler_def split: option.splits prod.splits sum.splits if_splits dest: CreateInvite_account)

lemma deleteUserHandler_account:
  "deleteUserHandler x e rq sess d = (rs, d', sent) \<Longrightarrow> has_account em ro d \<Longrightarrow> has_account em ro d' \<or> (x = em \<and> s_Email sess \<noteq> em)"
  by (auto simp: deleteUserHandler_def split: prod.splits sum.splits if_splits dest: DeleteUser_account)

lemma setUserRoleHandler_account:
  "setUserRoleHandler x e rq sess d = (rs, d', sent) \<Longrightarrow> has_account em ro d \<Longrightarrow> has_account em ro d' \<or> (x = em \<and> s_Email sess \<noteq> em)"
  by (auto simp: setUserRoleHandler_def split: option.splits prod.splits sum.splits if_splits dest: SetUserRole_account)

text \<open>The administrator who takes an account, or its role, away.\<close>

definition taken_by_other :: "env \<Rightarrow> request \<Rightarrow> string \<Rightarrow> bool" where
  "taken_by_other e rq em \<longleftrightarrow> (\<exists>sess. session_of e rq = Some sess \<and> IsAdmin sess \<and> s_Email sess \<noteq> em)
     \<and> (mux (rq_method rq) (rq_path rq) = DeleteUserRoute em \<or> mux (rq_method rq) (rq_path rq) = PutRole em)"

lemma serve_account:
  assumes ok: "db_ok d" and run: "api_serve e rq d = Some (rs, d', sent)" and acc: "has_account em ro d"
  shows "has_account em ro d' \<or> taken_by_other e rq em"
proof (cases "is_admin e rq")
  case False
  then show ?thesis using has_account_credentials [OF no_admin_same [OF _ run] acc] by simp
next
  case True
  then obtain sess where sess: "session_of e rq = Some sess" "IsAdmin sess"
    by (auto simp: is_admin_def split: option.splits)
  then have guard: "requireAuth h e rq d = h e rq sess d" "requireAdmin h e rq d = h e rq sess d" for h
    by (simp_all add: requireAuth_cases requireAdmin_cases)
  note same = has_account_same [OF conjunct1 acc] and cred = has_account_credentials [OF conjunct1 acc]
  note res = resource_handlers_account [OF ok acc]
  show ?thesis
  proof (cases "mux (rq_method rq) (rq_path rq)")
    case Spa
    then show ?thesis using run acc by (auto simp: api_serve_def quiet_handlers Let_def split: if_splits option.splits)
  next
    case (DeleteUserRoute x)
    then have "deleteUserHandler x e rq sess d = (rs, d', sent)" using run by (simp add: api_serve_def guard)
    from deleteUserHandler_account [OF this acc] DeleteUserRoute show ?thesis using sess by (auto simp: taken_by_other_def)
  next
    case (PutRole x)
    then have "setUserRoleHandler x e rq sess d = (rs, d', sent)" using run by (simp add: api_serve_def guard)
    from setUserRoleHandler_account [OF this acc] PutRole show ?thesis using sess by (auto simp: taken_by_other_def)
  qed (use run acc in \<open>simp_all only: api_serve_def api_handler.simps option.map option.inject option.distinct prod.inject quiet_handlers guard\<close>,
    auto dest: same [OF loginHandler_read] same [OF inviteInfoHandler_read] same [OF traefikConfigHandler_read]
      cred [OF acceptInviteHandler_keeps] cred [OF resetPasswordHandler_keeps] cred [OF forgotPasswordHandler_keeps]
      same [OF listNodesHandler_read] same [OF listResourcesHandler_read] same [OF listUsersHandler_read]
      res inviteUserHandler_account)
qed

text \<open>A session never loses its own account or role by its own requests.\<close>

lemma own_account_served:
  assumes "db_ok d" "api_serve e rq d = Some (rs, d', sent)" "session_of e rq = Some sess" "has_account (s_Email sess) ro d"
  shows "has_account (s_Email sess) ro d'"
  using serve_account [OF assms(1,2,4)] assms(3) by (auto simp: taken_by_other_def)

end
