(* ===== verification/AccountMap.thy ===== *)
theory AccountMap
  imports UsersDb
begin

text \<open>
  What the users table means: a map from addresses to accounts. The specification
  \<open>account_spec\<close> says of each operation of db/users.go when it is refused (\<open>None\<close>) and what
  the map is afterwards; the refinement says that the statements do exactly that, over any
  history of operations, and that the lookups read this map.
\<close>

section \<open>The abstract accounts\<close>

record account =
  acc_role :: string
  acc_hash :: "string option"
  acc_invite :: "(string \<times> int option) option"
  acc_reset :: "(string \<times> int option) option"

type_synonym accounts = "string \<rightharpoonup> account"

definition account_of :: "UserRow \<Rightarrow> account" where
  "account_of u = \<lparr>acc_role = user_role u, acc_hash = user_password_hash u,
     acc_invite = map_option (\<lambda>t. (t, user_invite_expires u)) (user_invite_token u),
     acc_reset = map_option (\<lambda>t. (t, user_reset_expires u)) (user_reset_token u)\<rparr>"

definition account_view :: "db \<Rightarrow> accounts" where
  "account_view d em = map_option account_of (List.find (\<lambda>u. user_email u = em) (users d))"

text \<open>A token is live until its expiry; it is taken while it is stored, live or not.\<close>

fun live :: "int \<Rightarrow> string \<Rightarrow> (string \<times> int option) option \<Rightarrow> bool" where
  "live now tok (Some (t, ex)) = (t = tok \<and> unexpired now ex)"
| "live now tok None = False"

definition some_account :: "(string \<Rightarrow> account \<Rightarrow> bool) \<Rightarrow> accounts \<Rightarrow> bool" where
  "some_account p m \<longleftrightarrow> (\<exists>em a. m em = Some a \<and> p em a)"

definition change_accounts :: "(account \<Rightarrow> bool) \<Rightarrow> (account \<Rightarrow> account) \<Rightarrow> accounts \<Rightarrow> accounts" where
  "change_accounts p f m em = map_option (\<lambda>a. if p a then f a else a) (m em)"

fun account_spec :: "user_op \<Rightarrow> accounts \<Rightarrow> accounts option" where
  "account_spec (Invite t now em ro tok) m =
     (if m em \<noteq> None \<or> some_account (\<lambda>_ a. map_option fst (acc_invite a) = Some tok) m then None
      else Some (m(em \<mapsto> \<lparr>acc_role = ro, acc_hash = None,
        acc_invite = Some (tok, Some (timestamptz (t + inviteTTL))), acc_reset = None\<rparr>)))"
| "account_spec (Accept now tok h) m =
     (if some_account (\<lambda>_ a. live now tok (acc_invite a)) m
      then Some (change_accounts (\<lambda>a. live now tok (acc_invite a)) (\<lambda>a. a\<lparr>acc_hash := Some h, acc_invite := None\<rparr>) m)
      else None)"
| "account_spec (Remove em) m = (if m em = None then None else Some (m(em := None)))"
| "account_spec (ChangeRole em ro) m = (case m em of None \<Rightarrow> None | Some a \<Rightarrow> Some (m(em \<mapsto> a\<lparr>acc_role := ro\<rparr>)))"
| "account_spec (Forgot t em tok) m = (case m em of None \<Rightarrow> Some m
     | Some a \<Rightarrow> if some_account (\<lambda>em' a. em' \<noteq> em \<and> map_option fst (acc_reset a) = Some tok) m then None
         else Some (m(em \<mapsto> a\<lparr>acc_reset := Some (tok, Some (timestamptz (t + resetTTL)))\<rparr>)))"
| "account_spec (Reset now tok h) m =
     (if some_account (\<lambda>_ a. live now tok (acc_reset a)) m
      then Some (change_accounts (\<lambda>a. live now tok (acc_reset a)) (\<lambda>a. a\<lparr>acc_hash := Some h, acc_reset := None\<rparr>) m)
      else None)"
| "account_spec (Bootstrap now em h) m = (if m em \<noteq> None then None
     else Some (m(em \<mapsto> \<lparr>acc_role = ''admin'', acc_hash = Some h, acc_invite = None, acc_reset = None\<rparr>)))"

definition account_step :: "user_op \<Rightarrow> accounts \<Rightarrow> accounts" where
  "account_step op m = (case account_spec op m of None \<Rightarrow> m | Some m' \<Rightarrow> m')"

text \<open>Whether the operation reports no error.\<close>

fun user_accepts :: "user_op \<Rightarrow> db \<Rightarrow> bool" where
  "user_accepts (Invite t now em ro tok) d = (\<not> isl (fst (CreateInvite t now em ro tok d)))"
| "user_accepts (Accept now tok h) d = (\<not> isl (fst (AcceptInvite now tok h d)))"
| "user_accepts (Remove em) d = (\<not> isl (fst (DeleteUser em d)))"
| "user_accepts (ChangeRole em ro) d = (\<not> isl (fst (SetUserRole em ro d)))"
| "user_accepts (Forgot t em tok) d = (\<not> isl (fst (CreateResetToken t em tok d)))"
| "user_accepts (Reset now tok h) d = (\<not> isl (fst (ResetPassword now tok h d)))"
| "user_accepts (Bootstrap now em h) d = (\<not> isl (fst (CreateAdminWithPassword now em h d)))"

section \<open>The view of the table\<close>

lemma change_accounts_none: "\<not> some_account (\<lambda>_. p) m \<Longrightarrow> change_accounts p f m = m"
  by (rule ext, rename_tac em, case_tac "m em") (auto simp: change_accounts_def some_account_def)

lemma account_view_Some_iff:
  assumes "db_ok d"
  shows "account_view d em = Some a \<longleftrightarrow> (\<exists>u \<in> set (users d). user_email u = em \<and> account_of u = a)"
  using distinct_map_find [OF db_ok_users_uniqueD(3) [OF assms], of em]
  by (auto simp: account_view_def)

lemma account_view_None_iff: "account_view d em = None \<longleftrightarrow> \<not> list_ex (\<lambda>u. user_email u = em) (users d)"
  by (auto simp: account_view_def find_None_iff list_ex_iff)

lemma some_account_iff:
  assumes "db_ok d"
  shows "some_account p (account_view d) \<longleftrightarrow> list_ex (\<lambda>u. p (user_email u) (account_of u)) (users d)"
  by (auto simp: some_account_def account_view_Some_iff [OF assms] list_ex_iff)

lemma find_update_email:
  assumes "\<And>u. user_email (f u) = user_email u"
  shows "List.find (\<lambda>u. user_email u = em) (update_where p f us)
    = map_option (\<lambda>u. if p u then f u else u) (List.find (\<lambda>u. user_email u = em) us)"
  by (induction us) (simp_all add: assms)

lemma view_change:
  assumes "\<And>u. user_email (f u) = user_email u" "\<And>u. p u \<longleftrightarrow> q (account_of u)" "\<And>u. account_of (f u) = g (account_of u)"
  shows "account_view (d\<lparr>users := update_where p f (users d)\<rparr>) = change_accounts q g (account_view d)"
proof
  fix em
  show "account_view (d\<lparr>users := update_where p f (users d)\<rparr>) em = change_accounts q g (account_view d) em"
    by (cases "List.find (\<lambda>u. user_email u = em) (users d)")
       (simp_all add: account_view_def find_update_email [OF assms(1)] change_accounts_def assms(2,3))
qed

lemma view_change_at:
  assumes "\<And>u. user_email (f u) = user_email u" "\<And>u. account_of (f u) = g (account_of u)"
  shows "account_view (d\<lparr>users := update_where (\<lambda>u. user_email u = em) f (users d)\<rparr>)
    = (account_view d)(em := map_option g (account_view d em))"
proof
  fix em'
  show "account_view (d\<lparr>users := update_where (\<lambda>u. user_email u = em) f (users d)\<rparr>) em'
    = ((account_view d)(em := map_option g (account_view d em))) em'"
    using find_SomeD [of "\<lambda>u. user_email u = em'" "users d"]
    by (cases "List.find (\<lambda>u. user_email u = em') (users d)")
       (auto simp: account_view_def find_update_email [OF assms(1)] assms(2))
qed

lemma view_append:
  assumes "account_view d (user_email u) = None"
  shows "account_view (d\<lparr>users := users d @ [u], next_id := k\<rparr>) = (account_view d)(user_email u \<mapsto> account_of u)"
proof -
  have "List.find (\<lambda>v. user_email v = em) (us @ [u]) =
      (case List.find (\<lambda>v. user_email v = em) us of None \<Rightarrow> if user_email u = em then Some u else None | Some v \<Rightarrow> Some v)" for em us
    by (induction us) auto
  then show ?thesis using assms by (auto simp: fun_eq_iff account_view_def split: option.splits)
qed

lemma find_filter_email:
  "List.find (\<lambda>v. user_email v = em') (filter (\<lambda>u. user_email u \<noteq> em) us)
    = (if em' = em then None else List.find (\<lambda>v. user_email v = em') us)"
  by (induction us) auto

lemma view_filter: "account_view (d\<lparr>users := filter (\<lambda>u. user_email u \<noteq> em) (users d)\<rparr>) = (account_view d)(em := None)"
  by (rule ext) (simp add: account_view_def find_filter_email)

text \<open>The WHERE clauses, on accounts.\<close>

lemma matches_live:
  "invite_matches now tok u = live now tok (acc_invite (account_of u))"
  "reset_matches now tok u = live now tok (acc_reset (account_of u))"
  by (cases "user_invite_token u"; auto simp: invite_matches_def account_of_def)
     (cases "user_reset_token u"; auto simp: reset_matches_def account_of_def)

lemma tokens_of:
  "map_option fst (acc_invite (account_of u)) = user_invite_token u"
  "map_option fst (acc_reset (account_of u)) = user_reset_token u"
  by (simp_all add: account_of_def option.map_comp comp_def option.map_ident)

lemma filter_list_ex: "filter p xs = [] \<longleftrightarrow> \<not> list_ex p xs"
  by (simp add: filter_empty_conv list_ex_iff)

section \<open>Each statement does what the specification says\<close>

definition as_specified :: "user_op \<Rightarrow> db \<Rightarrow> bool" where
  "as_specified op d \<longleftrightarrow> (user_accepts op d \<longleftrightarrow> account_spec op (account_view d) \<noteq> None)
     \<and> account_view (user_step op d) = account_step op (account_view d) \<and> faults (user_step op d) = faults d"

text \<open>Whether an operation reports an error, by its statement.\<close>

lemma user_op_isl:
  "isl (fst (CreateInvite t now em ro tok d)) = isl (fst (run_statement (create_invite_body now em ro tok (t + inviteTTL)) d))"
  "isl (fst (CreateResetToken t em tok d)) = isl (fst (run_statement (create_reset_body em tok (t + resetTTL)) d))"
  "isl (fst (CreateAdminWithPassword now em h d)) = isl (fst (run_statement (create_admin_body now em h) d))"
  "isl (fst (AcceptInvite now tok h d)) =
    (case fst (run_statement (accept_invite_body now tok h) d) of Inl _ \<Rightarrow> True | Inr n \<Rightarrow> n = 0)"
  "isl (fst (DeleteUser em d)) = (case fst (run_statement (delete_user_body em) d) of Inl _ \<Rightarrow> True | Inr n \<Rightarrow> n = 0)"
  "isl (fst (SetUserRole em ro d)) = (case fst (run_statement (set_role_body em ro) d) of Inl _ \<Rightarrow> True | Inr n \<Rightarrow> n = 0)"
  "isl (fst (ResetPassword now tok h d)) =
    (case fst (run_statement (reset_password_body now tok h) d) of Inl _ \<Rightarrow> True | Inr n \<Rightarrow> n = 0)"
  by (simp_all add: user_op_defs split: prod.split sum.split)

lemmas served_simps = as_specified_def account_step_def user_op_isl user_op_snd run_statement_served filter_list_ex

lemma account_of_changes:
  "account_of (u\<lparr>user_password_hash := h, user_invite_token := None, user_invite_expires := e\<rparr>)
    = (account_of u)\<lparr>acc_hash := h, acc_invite := None\<rparr>"
  "account_of (u\<lparr>user_password_hash := h, user_reset_token := None, user_reset_expires := e\<rparr>)
    = (account_of u)\<lparr>acc_hash := h, acc_reset := None\<rparr>"
  "account_of (u\<lparr>user_role := ro\<rparr>) = (account_of u)\<lparr>acc_role := ro\<rparr>"
  "account_of (u\<lparr>user_reset_token := Some tok, user_reset_expires := e\<rparr>) = (account_of u)\<lparr>acc_reset := Some (tok, e)\<rparr>"
  by (simp_all add: account_of_def)

lemma step_as_specified:
  assumes ok: "db_ok d" and served: "faults d = []"
  shows "as_specified op d"
proof (cases op)
  case (Invite t now em ro tok)
  have "some_account (\<lambda>_ a. map_option fst (acc_invite a) = Some tok) (account_view d)
      = list_ex (\<lambda>u. user_invite_token u = Some tok) (users d)"
    by (simp only: some_account_iff [OF ok] tokens_of)
  moreover have "list_ex (\<lambda>u. user_email u = em \<or> user_invite_token u = Some tok) (users d)
      = (account_view d em \<noteq> None \<or> list_ex (\<lambda>u. user_invite_token u = Some tok) (users d))"
    by (auto simp: account_view_None_iff list_ex_iff)
  ultimately show ?thesis
    using Invite served by (simp add: served_simps create_invite_body_def view_append account_of_def)
next
  case (Accept now tok h)
  have "some_account (\<lambda>_ a. live now tok (acc_invite a)) (account_view d) = list_ex (invite_matches now tok) (users d)"
    by (simp add: some_account_iff [OF ok] matches_live [abs_def])
  moreover have "account_view (d\<lparr>users := update_where (invite_matches now tok)
        (\<lambda>u. u\<lparr>user_password_hash := Some h, user_invite_token := None, user_invite_expires := None\<rparr>) (users d)\<rparr>)
      = change_accounts (\<lambda>a. live now tok (acc_invite a)) (\<lambda>a. a\<lparr>acc_hash := Some h, acc_invite := None\<rparr>) (account_view d)"
    by (rule view_change) (simp_all add: matches_live account_of_changes)
  ultimately show ?thesis
    using Accept served by (simp add: served_simps accept_invite_body_def change_accounts_none)
next
  case (Remove em)
  then show ?thesis
    using served by (simp add: served_simps delete_user_body_def view_filter account_view_None_iff [symmetric] fun_upd_idem)
next
  case (ChangeRole em ro)
  have "account_view (d\<lparr>users := update_where (\<lambda>u. user_email u = em) (\<lambda>u. u\<lparr>user_role := ro\<rparr>) (users d)\<rparr>)
      = (account_view d)(em := map_option (\<lambda>a. a\<lparr>acc_role := ro\<rparr>) (account_view d em))"
    by (rule view_change_at) (simp_all add: account_of_changes)
  then show ?thesis
    using ChangeRole served by (cases "account_view d em")
      (simp_all add: served_simps set_role_body_def account_view_None_iff [symmetric] fun_upd_idem)
next
  case (Forgot t em tok)
  have "some_account (\<lambda>em' a. em' \<noteq> em \<and> map_option fst (acc_reset a) = Some tok) (account_view d)
      = list_ex (\<lambda>u. user_email u \<noteq> em \<and> user_reset_token u = Some tok) (users d)"
    by (simp only: some_account_iff [OF ok] tokens_of)
  moreover have "account_view (d\<lparr>users := update_where (\<lambda>u. user_email u = em)
        (\<lambda>u. u\<lparr>user_reset_token := Some tok, user_reset_expires := Some ex\<rparr>) (users d)\<rparr>)
      = (account_view d)(em := map_option (\<lambda>a. a\<lparr>acc_reset := Some (tok, Some ex)\<rparr>) (account_view d em))" for ex
    by (rule view_change_at) (simp_all add: account_of_changes)
  moreover have "list_ex (\<lambda>u. user_email u = em) (users d) \<longleftrightarrow> account_view d em \<noteq> None"
    by (simp add: account_view_None_iff)
  ultimately show ?thesis
    using Forgot served by (cases "account_view d em") (simp_all add: served_simps create_reset_body_def fun_upd_idem)
next
  case (Reset now tok h)
  have "some_account (\<lambda>_ a. live now tok (acc_reset a)) (account_view d) = list_ex (reset_matches now tok) (users d)"
    by (simp add: some_account_iff [OF ok] matches_live [abs_def])
  moreover have "account_view (d\<lparr>users := update_where (reset_matches now tok)
        (\<lambda>u. u\<lparr>user_password_hash := Some h, user_reset_token := None, user_reset_expires := None\<rparr>) (users d)\<rparr>)
      = change_accounts (\<lambda>a. live now tok (acc_reset a)) (\<lambda>a. a\<lparr>acc_hash := Some h, acc_reset := None\<rparr>) (account_view d)"
    by (rule view_change) (simp_all add: matches_live account_of_changes)
  ultimately show ?thesis
    using Reset served by (simp add: served_simps reset_password_body_def change_accounts_none)
next
  case (Bootstrap now em h)
  have "list_ex (\<lambda>u. user_email u = em) (users d) \<longleftrightarrow> account_view d em \<noteq> None"
    by (simp add: account_view_None_iff)
  then show ?thesis
    using Bootstrap served by (cases "account_view d em")
      (simp_all add: served_simps create_admin_body_def view_append account_of_def)
qed

text \<open>Over a history of operations.\<close>

lemma history_as_specified:
  assumes "db_ok d" "faults d = []"
  shows "account_view (run_user_ops ops d) = fold account_step ops (account_view d)
    \<and> db_ok (run_user_ops ops d) \<and> faults (run_user_ops ops d) = []"
  using assms
proof (induction ops arbitrary: d)
  case Nil
  then show ?case by (simp add: run_user_ops_def)
next
  case (Cons op ops)
  have "as_specified op d" using Cons.prems by (rule step_as_specified)
  then have "account_view (user_step op d) = account_step op (account_view d)" "faults (user_step op d) = []"
    using Cons.prems(2) by (simp_all add: as_specified_def)
  moreover have "db_ok (user_step op d)" using Cons.prems(1) by (rule user_step_db_ok)
  ultimately show ?case using Cons.IH [of "user_step op d"] by (simp add: run_user_ops_def)
qed

text \<open>The lookups read the map.\<close>

lemma UserByEmail_view:
  assumes "faults d = []"
  shows "map_option (\<lambda>(u, h). (u_Role u, u_HasSetPassword u, h)) (fst (UserByEmail em d))
    = map_option (\<lambda>a. (acc_role a, acc_hash a \<noteq> None, deref [] (acc_hash a))) (account_view d em)"
  by (cases "List.find (\<lambda>u. user_email u = em) (users d)")
     (simp_all add: UserByEmail_def run_statement_served [OF assms] account_view_def account_of_def to_User_def)

lemma CountUsers_view:
  assumes "db_ok d" "faults d = []"
  shows "fst (CountUsers d) = Inr (card (dom (account_view d)))"
proof -
  have "dom (account_view d) = user_email ` set (users d)"
    by (auto simp: dom_def account_view_Some_iff [OF assms(1)])
  then show ?thesis
    using db_ok_users_uniqueD(3) [OF assms(1)] assms(2)
    by (simp add: CountUsers_def run_statement_served card_image distinct_card distinct_map)
qed

lemma UserByInviteToken_view:
  assumes "db_ok d" "faults d = []"
  shows "fst (UserByInviteToken now tok d) \<noteq> None \<longleftrightarrow> some_account (\<lambda>_ a. live now tok (acc_invite a)) (account_view d)"
proof -
  have "List.find (invite_matches now tok) (users d) = None \<longleftrightarrow> \<not> list_ex (invite_matches now tok) (users d)"
    by (auto simp: find_None_iff list_ex_iff)
  moreover have "some_account (\<lambda>_ a. live now tok (acc_invite a)) (account_view d) = list_ex (invite_matches now tok) (users d)"
    by (simp add: some_account_iff [OF assms(1)] matches_live [abs_def])
  ultimately show ?thesis
    by (cases "List.find (invite_matches now tok) (users d)") (simp_all add: UserByInviteToken_def run_statement_served assms(2))
qed

end
