(* ===== verification/AccountFlows.thy ===== *)
theory AccountFlows
  imports AccountMap HttpApi
begin

text \<open>
  The two ways to a password, from the request that starts them to the login, through the
  handlers of cmd/controlplane/main.go. Between the steps any operations on accounts may
  happen, as long as they spare this account and its token.
\<close>

section \<open>What others may do in between\<close>

fun spares :: "string \<Rightarrow> user_op \<Rightarrow> bool" where
  "spares em (Remove e) = (e \<noteq> em)"
| "spares em (ChangeRole e _) = (e \<noteq> em)"
| "spares em _ = True"

fun keeps_invite :: "string \<Rightarrow> user_op \<Rightarrow> bool" where
  "keeps_invite tok (Accept _ t _) = (t \<noteq> tok)"
| "keeps_invite tok _ = True"

fun keeps_reset :: "string \<Rightarrow> string \<Rightarrow> user_op \<Rightarrow> bool" where
  "keeps_reset em tok (Reset _ t _) = (t \<noteq> tok)"
| "keeps_reset em tok (Forgot _ e _) = (e \<noteq> em)"
| "keeps_reset em tok _ = True"

text \<open>The account has the role and, alone, the token.\<close>

definition invite_pending :: "string \<Rightarrow> string \<Rightarrow> string \<Rightarrow> int \<Rightarrow> accounts \<Rightarrow> bool" where
  "invite_pending em ro tok ex m \<longleftrightarrow> (\<exists>a. m em = Some a \<and> acc_role a = ro \<and> acc_invite a = Some (tok, Some ex))
     \<and> (\<forall>em' a t. m em' = Some a \<and> acc_invite a = Some (tok, t) \<longrightarrow> em' = em)"

definition reset_pending :: "string \<Rightarrow> string \<Rightarrow> string \<Rightarrow> int \<Rightarrow> accounts \<Rightarrow> bool" where
  "reset_pending em ro tok ex m \<longleftrightarrow> (\<exists>a. m em = Some a \<and> acc_role a = ro \<and> acc_reset a = Some (tok, Some ex))
     \<and> (\<forall>em' a t. m em' = Some a \<and> acc_reset a = Some (tok, t) \<longrightarrow> em' = em)"

lemma live_Some_iff: "live now tok x \<longleftrightarrow> (\<exists>ex. x = Some (tok, ex) \<and> unexpired now ex)"
  by (cases "(now, tok, x)" rule: live.cases) auto

text \<open>Where a token in the map after a step comes from.\<close>

lemma invite_origin:
  assumes "account_step op m em = Some a" "acc_invite a = Some (tok, t)"
  shows "(\<exists>b. m em = Some b \<and> acc_invite b = Some (tok, t))
    \<or> \<not> some_account (\<lambda>_ b. map_option fst (acc_invite b) = Some tok) m"
  using assms by (cases op) (auto simp: account_step_def change_accounts_def split: option.splits if_splits)

lemma reset_origin:
  assumes "account_step op m em = Some a" "acc_reset a = Some (tok, t)"
  shows "(\<exists>b. m em = Some b \<and> acc_reset b = Some (tok, t))
    \<or> (\<exists>s. op = Forgot s em tok \<and> \<not> some_account (\<lambda>em' b. em' \<noteq> em \<and> map_option fst (acc_reset b) = Some tok) m)"
  using assms by (cases op) (auto simp: account_step_def change_accounts_def split: option.splits if_splits)

text \<open>What a step leaves of an account it spares.\<close>

lemma step_at:
  assumes "m em = Some a" "spares em op"
  shows "\<exists>b. account_step op m em = Some b \<and> acc_role b = acc_role a
    \<and> (\<forall>tok t. acc_invite a = Some (tok, t) \<and> keeps_invite tok op \<longrightarrow> acc_invite b = acc_invite a)
    \<and> (\<forall>tok t. acc_reset a = Some (tok, t) \<and> keeps_reset em tok op \<longrightarrow> acc_reset b = acc_reset a)"
  using assms by (cases op) (auto simp: account_step_def change_accounts_def live_Some_iff split: option.splits)

lemma invite_pending_step:
  assumes "invite_pending em ro tok ex m" "spares em op" "keeps_invite tok op"
  shows "invite_pending em ro tok ex (account_step op m)"
proof -
  obtain a where a: "m em = Some a" "acc_role a = ro" "acc_invite a = Some (tok, Some ex)"
    using assms(1) unfolding invite_pending_def by blast
  have taken: "some_account (\<lambda>_ b. map_option fst (acc_invite b) = Some tok) m"
    unfolding some_account_def using a by (intro exI [of _ em] exI [of _ a]) simp
  show ?thesis
    unfolding invite_pending_def
  proof (intro conjI allI impI)
    show "\<exists>a. account_step op m em = Some a \<and> acc_role a = ro \<and> acc_invite a = Some (tok, Some ex)"
      using step_at [of m em a op] a assms(2,3) by auto
    fix em' b t assume "account_step op m em' = Some b \<and> acc_invite b = Some (tok, t)"
    then show "em' = em" using invite_origin [of op m em' b tok t] taken assms(1) unfolding invite_pending_def by blast
  qed
qed

lemma reset_pending_step:
  assumes "reset_pending em ro tok ex m" "spares em op" "keeps_reset em tok op"
  shows "reset_pending em ro tok ex (account_step op m)"
proof -
  obtain a where a: "m em = Some a" "acc_role a = ro" "acc_reset a = Some (tok, Some ex)"
    using assms(1) unfolding reset_pending_def by blast
  have taken: "some_account (\<lambda>e b. e \<noteq> em' \<and> map_option fst (acc_reset b) = Some tok) m" if "em' \<noteq> em" for em'
    unfolding some_account_def using a that by (intro exI [of _ em] exI [of _ a]) simp
  show ?thesis
    unfolding reset_pending_def
  proof (intro conjI allI impI)
    show "\<exists>a. account_step op m em = Some a \<and> acc_role a = ro \<and> acc_reset a = Some (tok, Some ex)"
      using step_at [of m em a op] a assms(2,3) by auto
    fix em' b t assume "account_step op m em' = Some b \<and> acc_reset b = Some (tok, t)"
    then show "em' = em" using reset_origin [of op m em' b tok t] taken [of em'] assms(1) unfolding reset_pending_def by blast
  qed
qed

lemma pending_fold:
  "invite_pending em ro tok ex m \<Longrightarrow> \<forall>op \<in> set ops. spares em op \<and> keeps_invite tok op \<Longrightarrow>
    invite_pending em ro tok ex (fold account_step ops m)"
  "reset_pending em ro tok ex m \<Longrightarrow> \<forall>op \<in> set ops. spares em op \<and> keeps_reset em tok op \<Longrightarrow>
    reset_pending em ro tok ex (fold account_step ops m)"
  by (induction ops arbitrary: m) (simp_all add: invite_pending_step reset_pending_step)

section \<open>Redeeming\<close>

definition invite_request :: "request \<Rightarrow> emailRole option" where
  "invite_request rq = decode_body email_role_fields \<lparr>er_Email = [], er_Role = []\<rparr> (rq_body rq)"

definition redeem_request :: "request \<Rightarrow> tokenPassword option" where
  "redeem_request rq = decode_body token_password_fields \<lparr>tp_Token = [], tp_Password = []\<rparr> (rq_body rq)"

lemma pending_live:
  assumes "invite_pending em ro tok ex m"
  shows "some_account (\<lambda>_ a. live now tok (acc_invite a)) m \<longleftrightarrow> now < ex"
proof -
  obtain a where a: "m em = Some a" "acc_invite a = Some (tok, Some ex)"
    using assms unfolding invite_pending_def by blast
  show ?thesis
  proof
    assume "some_account (\<lambda>_ a. live now tok (acc_invite a)) m"
    then obtain e b where "m e = Some b" "live now tok (acc_invite b)" by (auto simp: some_account_def)
    moreover from this have "e = em" using assms unfolding invite_pending_def live_Some_iff by blast
    ultimately show "now < ex" using a by (simp add: unexpired_def)
  next
    assume "now < ex"
    then show "some_account (\<lambda>_ a. live now tok (acc_invite a)) m"
      unfolding some_account_def using a by (intro exI [of _ em] exI [of _ a]) (simp add: unexpired_def)
  qed
qed

lemma reset_pending_live:
  assumes "reset_pending em ro tok ex m"
  shows "some_account (\<lambda>_ a. live now tok (acc_reset a)) m \<longleftrightarrow> now < ex"
proof -
  obtain a where a: "m em = Some a" "acc_reset a = Some (tok, Some ex)"
    using assms unfolding reset_pending_def by blast
  show ?thesis
  proof
    assume "some_account (\<lambda>_ a. live now tok (acc_reset a)) m"
    then obtain e b where "m e = Some b" "live now tok (acc_reset b)" by (auto simp: some_account_def)
    moreover from this have "e = em" using assms unfolding reset_pending_def live_Some_iff by blast
    ultimately show "now < ex" using a by (simp add: unexpired_def)
  next
    assume "now < ex"
    then show "some_account (\<lambda>_ a. live now tok (acc_reset a)) m"
      unfolding some_account_def using a by (intro exI [of _ em] exI [of _ a]) (simp add: unexpired_def)
  qed
qed

text \<open>The two handlers, by the operation they run.\<close>

lemma accept_handler:
  assumes "redeem_request rq = Some \<lparr>tp_Token = tok, tp_Password = pw\<rparr>" "8 \<le> length pw" "e_generate e pw = Some h"
  shows "acceptInviteHandler e rq d =
    (if user_accepts (Accept (e_pg_now e) tok h) d then respond 200 NoBody
     else http_Error (Msg ''invite link is invalid or expired'') 400, user_step (Accept (e_pg_now e) tok h) d, [])"
  using assms by (cases "AcceptInvite (e_pg_now e) tok h d")
    (auto simp: acceptInviteHandler_def redeem_request_def HashPassword_def split: sum.split)

lemma reset_handler:
  assumes "redeem_request rq = Some \<lparr>tp_Token = tok, tp_Password = pw\<rparr>" "8 \<le> length pw" "e_generate e pw = Some h"
  shows "resetPasswordHandler e rq d =
    (if user_accepts (Reset (e_pg_now e) tok h) d then respond 200 NoBody
     else http_Error (Msg ''reset link is invalid or expired'') 400, user_step (Reset (e_pg_now e) tok h) d, [])"
  using assms by (cases "ResetPassword (e_pg_now e) tok h d")
    (auto simp: resetPasswordHandler_def redeem_request_def HashPassword_def split: sum.split)

text \<open>A login, by the account of the map.\<close>

lemma login_by_account:
  assumes "db_ok d" "faults d = []" "login_request rq = Some req" "account_view d (lr_Email req) = Some a"
    and "acc_hash a = Some h" "h \<noteq> []" "e_compare e h (lr_Password req)"
  shows "loginHandler e rq d = ((respond 200 NoBody)\<lparr>rs_cookie :=
    Some (NewSessionCookie (e_mac e) (e_now e) (e_secret e) (lr_Email req) (acc_role a))\<rparr>, d, [])"
proof -
  obtain u where u: "u \<in> set (users d)" "user_email u = lr_Email req" "account_of u = a"
    using assms(1,4) account_view_Some_iff by blast
  then have "user_password_hash u = Some h" "user_role u = acc_role a" using assms(5) by (auto simp: account_of_def)
  then show ?thesis using login_known [OF assms(1-3) u(1,2), of e] assms(6,7) u(2) by (simp add: VerifyPassword_def)
qed

lemma step_served:
  assumes "db_ok d" "faults d = []"
  shows "db_ok (user_step op d)" "faults (user_step op d) = []"
  using user_step_db_ok [OF assms(1)] step_as_specified [OF assms, of op] assms(2) by (simp_all only: as_specified_def)

lemma login_after:
  assumes ok: "db_ok d" "faults d = []" and b: "account_step op (account_view d) em = Some b" "acc_hash b = Some h"
    and rq: "login_request rq = Some \<lparr>lr_Email = em, lr_Password = pw\<rparr>" "h \<noteq> []" "e_compare e h pw"
  shows "fst (loginHandler e rq (user_step op d)) = (respond 200 NoBody)\<lparr>rs_cookie :=
    Some (NewSessionCookie (e_mac e) (e_now e) (e_secret e) em (acc_role b))\<rparr>"
proof -
  have "as_specified op d" using ok by (rule step_as_specified)
  then have "account_view (user_step op d) em = Some b" "faults (user_step op d) = []"
    using b(1) ok(2) by (simp_all add: as_specified_def)
  then show ?thesis
    using login_by_account [OF user_step_db_ok [OF ok(1)], of op rq "\<lparr>lr_Email = em, lr_Password = pw\<rparr>" b h e] rq b(2) by simp
qed

section \<open>From the invite to the login\<close>

text \<open>A request that answers 201 has stored the invite and mailed the link.\<close>

lemma run_smtp_sent: "run_smtp relay cs issued = (Inr (), sent) \<Longrightarrow> sent = issued @ cs"
  by (induction relay cs issued rule: run_smtp.induct) (auto split: if_splits)

lemma Send_sent:
  assumes "Send relay cfg recipient subject body = (Inr (), sent)"
  shows "RcptTo recipient \<in> set sent \<and> Message (mail_text (mail_from cfg) recipient subject body) \<in> set sent"
  using assms by (auto simp: Send_def simp del: run_smtp.simps split: if_splits dest!: run_smtp_sent)

lemma invite_created:
  assumes "inviteUserHandler e rq sess d = (rs, d1, sent)" "rs_status rs = 201"
    and "invite_request rq = Some info" "RandomToken (e_entropy e) = Some tok"
  shows "user_accepts (Invite (e_now e) (e_pg_now e) (er_Email info) (er_Role info) tok) d"
    and "d1 = user_step (Invite (e_now e) (e_pg_now e) (er_Email info) (er_Role info) tok) d"
    and "Send (e_relay e) (e_smtp e) (er_Email info) ''rv-tx dashboard invite''
      (invite_mail (e_baseURL e) (er_Role info) tok) = (Inr (), sent)"
  using assms
  by (auto simp: inviteUserHandler_def invite_request_def http_Error_def respond_def bad_role_def
      split: if_splits prod.splits sum.splits)

lemma link_mailed:
  assumes "Send relay cfg em ''rv-tx dashboard invite'' (invite_mail base ro tok) = (Inr (), sent)"
  shows "RcptTo em \<in> set sent \<and> (\<exists>a b. Message (a @ (base @ ''/accept-invite?token='' @ tok) @ b) \<in> set sent)"
proof -
  let ?a = "''From: '' @ mail_from cfg @ crlf @ ''To: '' @ em @ crlf @ ''Subject: '' @ ''rv-tx dashboard invite'' @ crlf @ crlf
    @ ''You'' @ [CHR 0x27] @ ''ve been invited to the rv-tx dashboard as a '' @ ro @ ''.'' @ newline @ newline
    @ ''Set your password here (link expires in 7 days):'' @ newline"
  have "mail_text (mail_from cfg) em ''rv-tx dashboard invite'' (invite_mail base ro tok)
      = ?a @ (base @ ''/accept-invite?token='' @ tok) @ (newline @ crlf)"
    by (simp only: mail_text_def invite_mail_def append_assoc)
  then show ?thesis using Send_sent [OF assms] by metis
qed

lemma invite_starts:
  assumes "db_ok d" "faults d = []" "user_accepts (Invite t now em ro tok) d"
  shows "invite_pending em ro tok (timestamptz (t + inviteTTL)) (account_view (user_step (Invite t now em ro tok) d))"
proof -
  have "as_specified (Invite t now em ro tok) d" using assms(1,2) by (rule step_as_specified)
  then have spec: "account_spec (Invite t now em ro tok) (account_view d) \<noteq> None"
    and view: "account_view (user_step (Invite t now em ro tok) d) = account_step (Invite t now em ro tok) (account_view d)"
    using assms(3) by (simp_all only: as_specified_def simp_thms)
  from spec have free: "\<not> some_account (\<lambda>_ a. map_option fst (acc_invite a) = Some tok) (account_view d)" by (simp split: if_splits)
  have "account_step (Invite t now em ro tok) (account_view d) = (account_view d)(em \<mapsto> \<lparr>acc_role = ro, acc_hash = None,
      acc_invite = Some (tok, Some (timestamptz (t + inviteTTL))), acc_reset = None\<rparr>)"
    using spec by (simp add: account_step_def split: if_splits)
  then show ?thesis unfolding view using free by (auto simp: invite_pending_def some_account_def)
qed

lemma history_then:
  assumes "db_ok d" "faults d = []"
  shows "db_ok (run_user_ops ops d)" "faults (run_user_ops ops d) = []"
    "account_view (run_user_ops ops d) = fold account_step ops (account_view d)"
  using history_as_specified [OF assms, of ops] by simp_all

lemma invited_login:
  assumes ok: "db_ok d" "faults d = []"
    and pending: "invite_pending em ro tok ex (account_view d)"
    and ops: "\<forall>op \<in> set ops. spares em op \<and> keeps_invite tok op"
    and rq1: "redeem_request rq1 = Some \<lparr>tp_Token = tok, tp_Password = pw\<rparr>" "8 \<le> length pw" "e_generate e1 pw = Some h"
    and rq2: "login_request rq2 = Some \<lparr>lr_Email = em, lr_Password = pw\<rparr>" "h \<noteq> []" "e_compare e2 h pw"
    and accept: "acceptInviteHandler e1 rq1 (run_user_ops ops d) = (r, d3, sent)"
  shows "if e_pg_now e1 < ex
    then r = respond 200 NoBody \<and> fst (loginHandler e2 rq2 d3) = (respond 200 NoBody)\<lparr>rs_cookie :=
      Some (NewSessionCookie (e_mac e2) (e_now e2) (e_secret e2) em ro)\<rparr>
    else rs_status r = 400 \<and> account_view d3 = account_view (run_user_ops ops d)"
proof -
  let ?d2 = "run_user_ops ops d" and ?op = "Accept (e_pg_now e1) tok h"
  note d2 = history_then [OF ok, of ops]
  have p2: "invite_pending em ro tok ex (account_view ?d2)" unfolding d2(3) using pending ops by (rule pending_fold)
  have spec: "as_specified ?op ?d2" using d2(1,2) by (rule step_as_specified)
  have handler: "r = (if user_accepts ?op ?d2 then respond 200 NoBody
      else http_Error (Msg ''invite link is invalid or expired'') 400)" "d3 = user_step ?op ?d2"
    using accept_handler [OF rq1, of ?d2] accept by simp_all
  note view = pending_live [OF p2, of "e_pg_now e1"]
  show ?thesis
  proof (cases "e_pg_now e1 < ex")
    case False
    then show ?thesis using spec view handler by (simp add: as_specified_def account_step_def http_Error_def respond_def)
  next
    case True
    obtain a where a: "account_view ?d2 em = Some a" "acc_role a = ro" "acc_invite a = Some (tok, Some ex)"
      using p2 unfolding invite_pending_def by blast
    have "account_step ?op (account_view ?d2) em = Some (a\<lparr>acc_hash := Some h, acc_invite := None\<rparr>)"
      using view True a by (simp add: account_step_def change_accounts_def unexpired_def)
    from login_after [OF d2(1,2) this _ rq2]
    have "fst (loginHandler e2 rq2 d3) = (respond 200 NoBody)\<lparr>rs_cookie :=
        Some (NewSessionCookie (e_mac e2) (e_now e2) (e_secret e2) em ro)\<rparr>" using a(2) handler(2) by simp
    moreover have "user_accepts ?op ?d2" using spec view True by (simp add: as_specified_def)
    ultimately show ?thesis using True handler by simp
  qed
qed

section \<open>From the reset request to the login\<close>

lemma reset_created:
  assumes "forgotPasswordHandler e rq d = (rs, d1, sent)" "rs_status rs = 200"
    and "forgot_request rq = Some em" "RandomToken (e_entropy e) = Some tok"
  shows "user_accepts (Forgot (e_now e) em tok) d" "d1 = user_step (Forgot (e_now e) em tok) d"
  using assms
  by (auto simp: forgotPasswordHandler_def forgot_request_def internal_error_def http_Error_def respond_def
      split: prod.splits sum.splits)

lemma reset_starts:
  assumes "db_ok d" "faults d = []" "user_accepts (Forgot t em tok) d" "account_view d em = Some a"
  shows "reset_pending em (acc_role a) tok (timestamptz (t + resetTTL)) (account_view (user_step (Forgot t em tok) d))"
proof -
  have "as_specified (Forgot t em tok) d" using assms(1,2) by (rule step_as_specified)
  then have spec: "account_spec (Forgot t em tok) (account_view d) \<noteq> None"
    and view: "account_view (user_step (Forgot t em tok) d) = account_step (Forgot t em tok) (account_view d)"
    using assms(3) by (simp_all only: as_specified_def simp_thms)
  from spec have free: "\<not> some_account (\<lambda>e b. e \<noteq> em \<and> map_option fst (acc_reset b) = Some tok) (account_view d)"
    by (simp add: assms(4) split: if_splits)
  have "account_step (Forgot t em tok) (account_view d)
      = (account_view d)(em \<mapsto> a\<lparr>acc_reset := Some (tok, Some (timestamptz (t + resetTTL)))\<rparr>)"
    using spec by (simp add: account_step_def assms(4) split: if_splits)
  then show ?thesis unfolding view using free by (auto simp: reset_pending_def some_account_def)
qed

lemma reset_login_flow:
  assumes ok: "db_ok d" "faults d = []"
    and pending: "reset_pending em ro tok ex (account_view d)"
    and ops: "\<forall>op \<in> set ops. spares em op \<and> keeps_reset em tok op"
    and rq1: "redeem_request rq1 = Some \<lparr>tp_Token = tok, tp_Password = pw\<rparr>" "8 \<le> length pw" "e_generate e1 pw = Some h"
    and rq2: "login_request rq2 = Some \<lparr>lr_Email = em, lr_Password = pw\<rparr>" "h \<noteq> []" "e_compare e2 h pw"
    and reset: "resetPasswordHandler e1 rq1 (run_user_ops ops d) = (r, d3, sent)"
  shows "if e_pg_now e1 < ex
    then r = respond 200 NoBody \<and> fst (loginHandler e2 rq2 d3) = (respond 200 NoBody)\<lparr>rs_cookie :=
      Some (NewSessionCookie (e_mac e2) (e_now e2) (e_secret e2) em ro)\<rparr>
    else rs_status r = 400 \<and> account_view d3 = account_view (run_user_ops ops d)"
proof -
  let ?d2 = "run_user_ops ops d" and ?op = "Reset (e_pg_now e1) tok h"
  note d2 = history_then [OF ok, of ops]
  have p2: "reset_pending em ro tok ex (account_view ?d2)" unfolding d2(3) using pending ops by (rule pending_fold)
  have spec: "as_specified ?op ?d2" using d2(1,2) by (rule step_as_specified)
  have handler: "r = (if user_accepts ?op ?d2 then respond 200 NoBody
      else http_Error (Msg ''reset link is invalid or expired'') 400)" "d3 = user_step ?op ?d2"
    using reset_handler [OF rq1, of ?d2] reset by simp_all
  note view = reset_pending_live [OF p2, of "e_pg_now e1"]
  show ?thesis
  proof (cases "e_pg_now e1 < ex")
    case False
    then show ?thesis using spec view handler by (simp add: as_specified_def account_step_def http_Error_def respond_def)
  next
    case True
    obtain a where a: "account_view ?d2 em = Some a" "acc_role a = ro" "acc_reset a = Some (tok, Some ex)"
      using p2 unfolding reset_pending_def by blast
    have "account_step ?op (account_view ?d2) em = Some (a\<lparr>acc_hash := Some h, acc_reset := None\<rparr>)"
      using view True a by (simp add: account_step_def change_accounts_def unexpired_def)
    from login_after [OF d2(1,2) this _ rq2]
    have "fst (loginHandler e2 rq2 d3) = (respond 200 NoBody)\<lparr>rs_cookie :=
        Some (NewSessionCookie (e_mac e2) (e_now e2) (e_secret e2) em ro)\<rparr>" using a(2) handler(2) by simp
    moreover have "user_accepts ?op ?d2" using spec view True by (simp add: as_specified_def)
    ultimately show ?thesis using True handler by simp
  qed
qed

end
