(* ===== verification/Routes.thy ===== *)
theory Routes
  imports HttpApi
begin

text \<open>
  The patterns that main registers, as they are written, and the rule of \<open>http.ServeMux\<close>:
  of the patterns that match a request, the most specific one decides. No two patterns
  conflict, so no registration panics, and \<open>mux\<close> of HttpApi is what the rule makes of the
  table.
\<close>

section \<open>Patterns\<close>

datatype seg = Lit string | Wild

text \<open>A pattern: a method, empty for any, and its path; \<open>None\<close> is the subtree \<open>/\<close>.\<close>

type_synonym pattern = "string \<times> seg list option"

definition method_ok :: "string \<Rightarrow> string \<Rightarrow> bool" where
  "method_ok pm m \<longleftrightarrow> pm = [] \<or> pm = m \<or> (pm = ''GET'' \<and> m = ''HEAD'')"

text \<open>The values of the wildcards when the path matches. A wildcard takes one segment, not empty.\<close>

fun match_segs :: "seg list \<Rightarrow> string list \<Rightarrow> string list option" where
  "match_segs [] [] = Some []"
| "match_segs (Lit s # ps) (x # xs) = (if x = s then match_segs ps xs else None)"
| "match_segs (Wild # ps) (x # xs) = (if x = [] then None else map_option ((#) x) (match_segs ps xs))"
| "match_segs _ _ = None"

definition captured :: "pattern \<Rightarrow> string \<Rightarrow> string list \<Rightarrow> string list option" where
  "captured pat m p = (case pat of (pm, path) \<Rightarrow>
     if \<not> method_ok pm m then None else case path of None \<Rightarrow> Some [] | Some segs \<Rightarrow> match_segs segs p)"

section \<open>The table\<close>

definition api :: "string \<Rightarrow> string \<Rightarrow> seg list \<Rightarrow> pattern" where
  "api m x rest = (m, Some (Lit ''api'' # Lit x # rest))"

definition route_table :: "(pattern \<times> (string list \<Rightarrow> route)) list" where
  "route_table =
    [(([], Some [Lit ''ws'', Lit ''agent'']), \<lambda>_. WsAgent),
     (([], Some [Lit ''healthz'']), \<lambda>_. Healthz),
     (([], Some [Lit ''traefik'', Lit ''config'']), \<lambda>_. TraefikRoute),
     (api ''POST'' ''login'' [], \<lambda>_. Login),
     (api ''POST'' ''logout'' [], \<lambda>_. Logout),
     (api ''GET'' ''invite-info'' [], \<lambda>_. InviteInfo),
     (api ''POST'' ''accept-invite'' [], \<lambda>_. AcceptRoute),
     (api ''POST'' ''forgot-password'' [], \<lambda>_. ForgotRoute),
     (api ''POST'' ''reset-password'' [], \<lambda>_. ResetRoute),
     (api ''GET'' ''whoami'' [], \<lambda>_. Whoami),
     (api ''GET'' ''nodes'' [], \<lambda>_. GetNodes),
     (api ''GET'' ''resources'' [], \<lambda>_. GetResources),
     (api ''POST'' ''resources'' [], \<lambda>_. PostResource),
     (api ''PUT'' ''resources'' [Wild], \<lambda>ws. PutResource (hd ws)),
     (api ''DELETE'' ''resources'' [Wild], \<lambda>ws. DeleteResourceRoute (hd ws)),
     (api ''GET'' ''users'' [], \<lambda>_. GetUsers),
     (api ''POST'' ''users'' [], \<lambda>_. PostUser),
     (api ''DELETE'' ''users'' [Wild], \<lambda>ws. DeleteUserRoute (hd ws)),
     (api ''PUT'' ''users'' [Wild, Lit ''role''], \<lambda>ws. PutRole (hd ws)),
     (([], None), \<lambda>_. Spa)]"

section \<open>The rule\<close>

text \<open>\<open>covers a b\<close>: every request that \<open>b\<close> matches is matched by \<open>a\<close>.\<close>

definition covers :: "pattern \<Rightarrow> pattern \<Rightarrow> bool" where
  "covers a b \<longleftrightarrow> (\<forall>m p. captured b m p \<noteq> None \<longrightarrow> captured a m p \<noteq> None)"

definition more_specific :: "pattern \<Rightarrow> pattern \<Rightarrow> bool" where
  "more_specific a b \<longleftrightarrow> covers b a \<and> \<not> covers a b"

definition overlap :: "pattern \<Rightarrow> pattern \<Rightarrow> bool" where
  "overlap a b \<longleftrightarrow> (\<exists>m p. captured a m p \<noteq> None \<and> captured b m p \<noteq> None)"

text \<open>Registering a pattern panics when it overlaps one that is neither more nor less specific.\<close>

definition conflict_free :: "pattern list \<Rightarrow> bool" where
  "conflict_free ps \<longleftrightarrow> distinct ps \<and> (\<forall>a \<in> set ps. \<forall>b \<in> set ps. a \<noteq> b \<longrightarrow> overlap a b \<longrightarrow> more_specific a b \<or> more_specific b a)"

definition picks :: "(pattern \<times> (string list \<Rightarrow> route)) list \<Rightarrow> string \<Rightarrow> string list \<Rightarrow> route \<Rightarrow> bool" where
  "picks tab m p r \<longleftrightarrow> (\<exists>(pat, h) \<in> set tab. map_option h (captured pat m p) = Some r
     \<and> (\<forall>(pat', h') \<in> set tab. captured pat' m p \<noteq> None \<longrightarrow> pat' = pat \<or> more_specific pat pat'))"

section \<open>The patterns below the root\<close>

lemma root_matches [simp]: "captured ([], None) m p = Some []"
  by (simp add: captured_def method_ok_def)

lemma match_segs_iff:
  "match_segs [] p = Some ws \<longleftrightarrow> p = [] \<and> ws = []"
  "match_segs (Lit s # ps) p = Some ws \<longleftrightarrow> (\<exists>xs. p = s # xs \<and> match_segs ps xs = Some ws)"
  "match_segs (Wild # ps) p = Some ws \<longleftrightarrow> (\<exists>x xs vs. p = x # xs \<and> x \<noteq> [] \<and> match_segs ps xs = Some vs \<and> ws = x # vs)"
  by (cases p; auto)+

lemma captured_iff: "captured (pm, Some segs) m p = Some ws \<longleftrightarrow> method_ok pm m \<and> match_segs segs p = Some ws"
  by (simp add: captured_def)

lemma match_segs_length: "match_segs ps xs = Some ws \<Longrightarrow> length xs = length ps"
  by (induction ps xs arbitrary: ws rule: match_segs.induct) (auto split: if_splits)

lemma below_root: "more_specific (pm, Some segs) ([], None)"
proof -
  have "captured (pm, Some segs) m (replicate (Suc (length segs)) []) = None" for m
    using match_segs_length [of segs "replicate (Suc (length segs)) []"]
    by (cases "match_segs segs (replicate (Suc (length segs)) [])") (simp_all add: captured_def)
  then show ?thesis unfolding more_specific_def covers_def by (metis option.distinct(1) root_matches)
qed

section \<open>The table and mux\<close>

text \<open>The pattern of a route: what it matches goes to that route, so no two patterns meet.\<close>

fun pattern_of :: "route \<Rightarrow> pattern" where
  "pattern_of WsAgent = ([], Some [Lit ''ws'', Lit ''agent''])"
| "pattern_of Healthz = ([], Some [Lit ''healthz''])"
| "pattern_of TraefikRoute = ([], Some [Lit ''traefik'', Lit ''config''])"
| "pattern_of Login = api ''POST'' ''login'' []"
| "pattern_of Logout = api ''POST'' ''logout'' []"
| "pattern_of InviteInfo = api ''GET'' ''invite-info'' []"
| "pattern_of AcceptRoute = api ''POST'' ''accept-invite'' []"
| "pattern_of ForgotRoute = api ''POST'' ''forgot-password'' []"
| "pattern_of ResetRoute = api ''POST'' ''reset-password'' []"
| "pattern_of Whoami = api ''GET'' ''whoami'' []"
| "pattern_of GetNodes = api ''GET'' ''nodes'' []"
| "pattern_of GetResources = api ''GET'' ''resources'' []"
| "pattern_of PostResource = api ''POST'' ''resources'' []"
| "pattern_of (PutResource x) = api ''PUT'' ''resources'' [Wild]"
| "pattern_of (DeleteResourceRoute x) = api ''DELETE'' ''resources'' [Wild]"
| "pattern_of GetUsers = api ''GET'' ''users'' []"
| "pattern_of PostUser = api ''POST'' ''users'' []"
| "pattern_of (DeleteUserRoute x) = api ''DELETE'' ''users'' [Wild]"
| "pattern_of (PutRole x) = api ''PUT'' ''users'' [Wild, Lit ''role'']"
| "pattern_of Spa = ([], None)"

lemma table_pattern: "(pat, h) \<in> set route_table \<Longrightarrow> pattern_of (h ws) = pat"
proof -
  have "list_all (\<lambda>(pat, h). pattern_of (h ws) = pat) route_table" by (simp add: route_table_def)
  then show "(pat, h) \<in> set route_table \<Longrightarrow> pattern_of (h ws) = pat" by (auto simp: list_all_iff)
qed

lemma literal_routed:
  "method_ok [] m \<Longrightarrow> mux m [''ws'', ''agent''] = WsAgent"
  "method_ok [] m \<Longrightarrow> mux m [''healthz''] = Healthz"
  "method_ok [] m \<Longrightarrow> mux m [''traefik'', ''config''] = TraefikRoute"
  "method_ok ''POST'' m \<Longrightarrow> mux m [''api'', ''login''] = Login"
  "method_ok ''POST'' m \<Longrightarrow> mux m [''api'', ''logout''] = Logout"
  "method_ok ''GET'' m \<Longrightarrow> mux m [''api'', ''invite-info''] = InviteInfo"
  "method_ok ''POST'' m \<Longrightarrow> mux m [''api'', ''accept-invite''] = AcceptRoute"
  "method_ok ''POST'' m \<Longrightarrow> mux m [''api'', ''forgot-password''] = ForgotRoute"
  "method_ok ''POST'' m \<Longrightarrow> mux m [''api'', ''reset-password''] = ResetRoute"
  "method_ok ''GET'' m \<Longrightarrow> mux m [''api'', ''whoami''] = Whoami"
  "method_ok ''GET'' m \<Longrightarrow> mux m [''api'', ''nodes''] = GetNodes"
  "method_ok ''GET'' m \<Longrightarrow> mux m [''api'', ''resources''] = GetResources"
  "method_ok ''POST'' m \<Longrightarrow> mux m [''api'', ''resources''] = PostResource"
  "method_ok ''GET'' m \<Longrightarrow> mux m [''api'', ''users''] = GetUsers"
  "method_ok ''POST'' m \<Longrightarrow> mux m [''api'', ''users''] = PostUser"
  by (auto simp: method_ok_def mux_def is_get_def)

lemma wild_routed:
  "method_ok ''PUT'' m \<Longrightarrow> x \<noteq> [] \<Longrightarrow> mux m [''api'', ''resources'', x] = PutResource x"
  "method_ok ''DELETE'' m \<Longrightarrow> x \<noteq> [] \<Longrightarrow> mux m [''api'', ''resources'', x] = DeleteResourceRoute x"
  "method_ok ''DELETE'' m \<Longrightarrow> x \<noteq> [] \<Longrightarrow> mux m [''api'', ''users'', x] = DeleteUserRoute x"
  "method_ok ''PUT'' m \<Longrightarrow> x \<noteq> [] \<Longrightarrow> mux m [''api'', ''users'', x, ''role''] = PutRole x"
  by (auto simp: method_ok_def mux_def is_get_def)

lemma matched_routed:
  assumes "(pat, h) \<in> set route_table" "captured pat m p = Some ws" "pat \<noteq> ([], None)"
  shows "mux m p = h ws"
proof -
  have "list_all (\<lambda>(pat, h). pat \<noteq> ([], None) \<longrightarrow> (\<forall>ws. captured pat m p = Some ws \<longrightarrow> mux m p = h ws)) route_table"
    by (simp add: route_table_def api_def captured_iff match_segs_iff literal_routed wild_routed
        del: not_None_eq split_paired_All) (auto simp: literal_routed wild_routed)
  then show ?thesis using assms by (auto simp: list_all_iff)
qed

lemma wild_matched:
  "captured (pattern_of (case p of
      [a, b, x] \<Rightarrow> if a = ''api'' \<and> b = ''resources'' \<and> x \<noteq> [] \<and> m = ''PUT'' then PutResource x
        else if a = ''api'' \<and> b = ''resources'' \<and> x \<noteq> [] \<and> m = ''DELETE'' then DeleteResourceRoute x
        else if a = ''api'' \<and> b = ''users'' \<and> x \<noteq> [] \<and> m = ''DELETE'' then DeleteUserRoute x
        else Spa
    | [a, b, x, c] \<Rightarrow> if a = ''api'' \<and> b = ''users'' \<and> x \<noteq> [] \<and> c = ''role'' \<and> m = ''PUT'' then PutRole x
        else Spa
    | _ \<Rightarrow> Spa)) m p \<noteq> None"
  by (simp add: api_def captured_def method_ok_def split: list.split)

lemma get_ok: "is_get m \<Longrightarrow> method_ok ''GET'' m" "method_ok m m" "method_ok [] m"
  by (auto simp: is_get_def method_ok_def)

lemma routed_matched: "captured (pattern_of (mux m p)) m p \<noteq> None"
  unfolding mux_def
  by ((split if_split, rule conjI, rule impI, simp add: api_def captured_def get_ok, rule impI)+)
    (rule wild_matched)

lemma pattern_in_table: "\<exists>h. (pattern_of r, h) \<in> set route_table"
proof -
  have "pattern_of r \<in> fst ` set route_table" by (cases r) (simp_all add: route_table_def)
  then show ?thesis by auto
qed

lemma spa_is_root: "pattern_of r = ([], None) \<longleftrightarrow> r = Spa"
  by (cases r) (simp_all add: api_def)

text \<open>The pattern that matches a request and is not the root is the one of its route.\<close>

lemma matched_unique:
  assumes "(a, h) \<in> set route_table" "captured a m p \<noteq> None" "a \<noteq> ([], None)"
  shows "a = pattern_of (mux m p)"
proof -
  obtain ws where "captured a m p = Some ws" using assms(2) by blast
  from matched_routed [OF assms(1) this assms(3)] show ?thesis using table_pattern [OF assms(1), of ws] by simp
qed

lemma specific_below_root:
  assumes "(a, h) \<in> set route_table" "a \<noteq> ([], None)"
  shows "more_specific a ([], None)"
proof -
  have "list_all (\<lambda>(a, h). a = ([], None) \<or> snd a \<noteq> None) route_table" by (simp add: route_table_def api_def)
  then have "snd a \<noteq> None" using assms by (auto simp: list_all_iff)
  then obtain pm segs where "a = (pm, Some segs)" by (cases a) auto
  then show ?thesis by (simp add: below_root)
qed

section \<open>The most specific match\<close>

lemma table_conflict_free: "conflict_free (map fst route_table)"
proof -
  have "more_specific a b \<or> more_specific b a"
    if tab: "(a, h) \<in> set route_table" "(b, k) \<in> set route_table" and ab: "a \<noteq> b" "overlap a b" for a h b k
  proof -
    consider "a = ([], None)" | "b = ([], None)" | "a \<noteq> ([], None)" "b \<noteq> ([], None)" by blast
    then show ?thesis
    proof cases
      case 1
      then show ?thesis using specific_below_root [OF tab(2)] ab(1) by simp
    next
      case 2
      then show ?thesis using specific_below_root [OF tab(1)] ab(1) by simp
    next
      case 3
      obtain m p where "captured a m p \<noteq> None" "captured b m p \<noteq> None" using ab(2) unfolding overlap_def by blast
      then have "a = b" using matched_unique [OF tab(1) _ 3(1)] matched_unique [OF tab(2) _ 3(2)] by metis
      then show ?thesis using ab(1) by simp
    qed
  qed
  moreover have "distinct (map fst route_table)" by (simp add: route_table_def api_def)
  ultimately show ?thesis unfolding conflict_free_def by fastforce
qed

lemma mux_picked: "picks route_table m p (mux m p)"
proof -
  let ?pat = "pattern_of (mux m p)"
  obtain h where h: "(?pat, h) \<in> set route_table" using pattern_in_table by blast
  obtain ws where ws: "captured ?pat m p = Some ws" using routed_matched [of m p] by blast
  have "h ws = mux m p"
  proof (cases "?pat = ([], None)")
    case True
    then have "pattern_of (h ws) = ([], None)" using table_pattern [OF h] by simp
    then show ?thesis using True by (simp add: spa_is_root)
  next
    case False
    then show ?thesis using matched_routed [OF h ws] by simp
  qed
  moreover have "b = ?pat \<or> more_specific ?pat b" if "(b, k) \<in> set route_table" "captured b m p \<noteq> None" for b k
  proof (cases "b = ([], None)")
    case True
    then show ?thesis using specific_below_root [OF h] by metis
  next
    case False
    then show ?thesis using matched_unique [OF that] by blast
  qed
  ultimately show ?thesis using h ws unfolding picks_def by (intro bexI [of _ "(?pat, h)"]) auto
qed

lemma picks_unique:
  assumes "picks route_table m p r"
  shows "r = mux m p"
proof -
  obtain e where e: "e \<in> set route_table" "case e of (pat, h) \<Rightarrow> map_option h (captured pat m p) = Some r
      \<and> (\<forall>(b, k) \<in> set route_table. captured b m p \<noteq> None \<longrightarrow> b = pat \<or> more_specific pat b)"
    using assms unfolding picks_def by (rule bexE)
  obtain pat h where eq: "e = (pat, h)" by (cases e)
  obtain ws where pat: "(pat, h) \<in> set route_table" "captured pat m p = Some ws" "r = h ws"
    using e unfolding eq by (auto simp: map_option_eq_Some)
  have best: "b = pat \<or> more_specific pat b" if "(b, k) \<in> set route_table" "captured b m p \<noteq> None" for b k
    using e(2) that unfolding eq by blast
  show ?thesis
  proof (cases "pat = ([], None)")
    case False
    then show ?thesis using matched_routed [OF pat(1,2)] pat(3) by simp
  next
    case True
    obtain k where k: "(pattern_of (mux m p), k) \<in> set route_table" using pattern_in_table by blast
    have "pattern_of (mux m p) = pat \<or> more_specific pat (pattern_of (mux m p))" using best [OF k routed_matched] .
    then have "pattern_of (mux m p) = ([], None)"
      using specific_below_root [OF k] True by (auto simp: more_specific_def)
    moreover have "pattern_of r = ([], None)" using table_pattern [OF pat(1)] pat(3) True by simp
    ultimately show ?thesis by (simp add: spa_is_root)
  qed
qed

end
