(* ===== verification/ApiProperties.thy ===== *)
theory ApiProperties
  imports Samples ApiBodies Accounts AccountFlows Routes
begin

text \<open>
  The properties of the HTTP API, its sessions, accounts and mail (cmd/controlplane/main.go,
  internal/controlplane/auth, db/users.go, mail), each followed by an application at a
  concrete input.
\<close>

section \<open>The API\<close>

text \<open>
  C6. Without an administrator's session, whatever the method, path and body: the guarded
  routes do nothing and answer 401 to a request without a valid session and 403 where the
  role is missing. No route changes a resource, a target or any account's email or role:
  only the password and token columns of accounts can change. Nodes change through the
  agents' WebSocket alone, which asks for no session; it removes no node, changes no node's
  address, and touches no other table.
\<close>

theorem no_admin_no_change:
  assumes "\<not> is_admin e rq" "serve so e rq s = (rs, s', sent)"
  shows "(let r = mux (rq_method rq) (rq_path rq); denied = (needs_admin r \<or> (needs_session r \<and> session_of e rq = None)) in
      (denied \<longrightarrow> s' = s \<and> sent = [] \<and> rs = (if session_of e rq = None then http_Error (Msg ''unauthorized'') 401
        else http_Error (Msg ''forbidden: admin role required'') 403))
      \<and> (if r = WsAgent then users (srv_db s') = users (srv_db s)
           \<and> (\<forall>n \<in> set (nodes (srv_db s)). \<exists>n' \<in> set (nodes (srv_db s')). node_Name n' = node_Name n \<and> node_MeshIP n' = node_MeshIP n)
         else nodes (srv_db s') = nodes (srv_db s) \<and> srv_conns s' = srv_conns s \<and> srv_out s' = srv_out s))
    \<and> resources (srv_db s') = resources (srv_db s) \<and> resource_targets (srv_db s') = resource_targets (srv_db s)
    \<and> map (\<lambda>u. (user_id u, user_email u, user_role u, user_created_at u)) (users (srv_db s'))
      = map (\<lambda>u. (user_id u, user_email u, user_role u, user_created_at u)) (users (srv_db s))"
  using assms(2)
proof (rule serve_cases)
  assume r: "mux (rq_method rq) (rq_path rq) = WsAgent"
    and s': "s' = HandleWS (so_alive so) (so_upgraded so) (so_remote so) (so_msgs so) s"
  have only: "nodes_only (srv_db s) (srv_db s')" unfolding s' by (rule HandleWS_nodes_only)
  then have "\<exists>n' \<in> set (nodes (srv_db s')). node_Name n' = node_Name n \<and> node_MeshIP n' = node_MeshIP n"
    if "n \<in> set (nodes (srv_db s))" for n
  proof -
    have "(node_Name n, node_MeshIP n) \<in> names_ips (srv_db s')"
      using only that by (auto simp: nodes_only_def names_ips_def)
    then show ?thesis by (auto simp: names_ips_def)
  qed
  then show ?thesis using only r by (simp add: nodes_only_def Let_def needs_session_def)
next
  fix d' assume r: "mux (rq_method rq) (rq_path rq) \<noteq> WsAgent" and run: "api_serve e rq (srv_db s) = Some (rs, d', sent)"
    and s': "s' = with_db s d'"
  let ?r = "mux (rq_method rq) (rq_path rq)"
  have "d' = srv_db s \<and> sent = [] \<and> rs = (if session_of e rq = None then http_Error (Msg ''unauthorized'') 401
        else http_Error (Msg ''forbidden: admin role required'') 403)"
    if "needs_admin ?r \<or> (needs_session ?r \<and> session_of e rq = None)"
  proof (cases "session_of e rq")
    case None
    then have "needs_session ?r" using that by (auto simp: needs_session_def)
    from guarded_without_session [OF this None] run None show ?thesis by simp
  next
    case (Some sess)
    then have "needs_admin ?r" "\<not> IsAdmin sess" using that assms(1) by (auto simp: is_admin_def)
    from guarded_without_role [OF this(1) Some this(2)] run Some show ?thesis by simp
  qed
  then show ?thesis
    using r no_admin_same [OF assms(1) run] by (simp add: s' same_but_credentials_def identity_def [abs_def] Let_def)
qed

text \<open>A viewer's cookie, issued at time 0.\<close>

definition viewer_cookie :: "string \<times> string" where
  "viewer_cookie = (CookieName, c_Value (NewSessionCookie (e_mac (sample_env 0)) 0 ''s3cret'' ''guest@example.org'' ''viewer''))"

lemma viewer_session:
  "rq_cookies rq = [viewer_cookie] \<Longrightarrow> session_of (sample_env 5) rq
    = Some \<lparr>s_Email = ''guest@example.org'', s_Role = ''viewer'', s_Exp = unix sessionTTL\<rparr>"
  using new_cookie_valid [of 0 "rq_cookies rq" "e_mac (sample_env 0)" "''s3cret''" "''guest@example.org''" "''viewer''" 5]
  by (simp add: session_of_def viewer_cookie_def sample_env_def in_int64_def unix_def sessionTTL_def)

definition sample_server :: Server where
  "sample_server = new_server sample_db ''10.0.0.0/29''"

definition sample_socket :: socket where
  "sample_socket = \<lparr>so_upgraded = Some 7, so_refusal = respond 400 NoBody, so_remote = ''192.0.2.7:4711'',
     so_alive = (\<lambda>_. True), so_msgs = []\<rparr>"

theorem no_admin_no_change_witness:
  "serve sample_socket (sample_env 5) (sample_request ''GET'' [''api'', ''nodes''] [] JNull) sample_server
     = (http_Error (Msg ''unauthorized'') 401, sample_server, [])
   \<and> serve sample_socket (sample_env 5) (sample_request ''DELETE'' [''api'', ''resources'', ''web''] [viewer_cookie] JNull) sample_server
     = (http_Error (Msg ''forbidden: admin role required'') 403, sample_server, [])"
proof
  let ?a = "sample_request ''GET'' [''api'', ''nodes''] [] JNull"
  let ?b = "sample_request ''DELETE'' [''api'', ''resources'', ''web''] [viewer_cookie] JNull"
  have "needs_session (mux (rq_method ?a) (rq_path ?a))" and a: "session_of (sample_env 5) ?a = None"
    by (simp_all add: sample_request_def mux_def is_get_def needs_session_def session_of_def no_cookie)
  moreover obtain rs d' sent where "serve sample_socket (sample_env 5) ?a sample_server = (rs, d', sent)" by (metis prod.collapse)
  moreover have "\<not> is_admin (sample_env 5) ?a" by (simp add: is_admin_def a)
  ultimately show "serve sample_socket (sample_env 5) ?a sample_server = (http_Error (Msg ''unauthorized'') 401, sample_server, [])"
    using no_admin_no_change [of "sample_env 5" ?a sample_socket sample_server rs d' sent] unfolding Let_def by simp
  have "rq_cookies ?b = [viewer_cookie]" by (simp add: sample_request_def)
  note b = viewer_session [OF this]
  then have "\<not> is_admin (sample_env 5) ?b" by (simp add: is_admin_def IsAdmin_def RoleAdmin_def)
  moreover have "needs_admin (mux (rq_method ?b) (rq_path ?b))"
    by (simp add: sample_request_def mux_def is_get_def)
  moreover obtain rs d' sent where "serve sample_socket (sample_env 5) ?b sample_server = (rs, d', sent)" by (metis prod.collapse)
  ultimately show "serve sample_socket (sample_env 5) ?b sample_server = (http_Error (Msg ''forbidden: admin role required'') 403, sample_server, [])"
    using no_admin_no_change [of "sample_env 5" ?b sample_socket sample_server rs d' sent] b unfolding Let_def by simp
qed

text \<open>
  C25. Requests are routed by the most specific pattern: the patterns that main registers do
  not conflict, so no registration panics, and of those that match a request the most
  specific one, with the values of its wildcards, decides the handler that serves it.
\<close>

theorem routes_most_specific:
  "conflict_free (map fst route_table)
    \<and> (\<exists>r. (\<forall>r'. picks route_table (rq_method rq) (rq_path rq) r' \<longleftrightarrow> r' = r) \<and> serve so e rq s = dispatch r so e rq s)"
proof -
  have "picks route_table (rq_method rq) (rq_path rq) r \<longleftrightarrow> r = mux (rq_method rq) (rq_path rq)" for r
    using mux_picked picks_unique by blast
  then show ?thesis using table_conflict_free unfolding serve_def by blast
qed

text \<open>
  C8. With the database in order, a login succeeds exactly for an account of that email
  whose stored hash is not empty and matches, with a cookie for that account's email and
  role, and is otherwise refused with one and the same answer.
\<close>

theorem login_outcome:
  assumes "db_ok d" "faults d = []" "login_request rq = Some req"
  shows "loginHandler e rq d = (case List.find (\<lambda>u. user_email u = lr_Email req) (users d) of
      None \<Rightarrow> (login_refused, d, [])
    | Some u \<Rightarrow> (case user_password_hash u of
        None \<Rightarrow> (login_refused, d, [])
      | Some h \<Rightarrow> if h \<noteq> [] \<and> e_compare e h (lr_Password req)
          then ((respond 200 NoBody)\<lparr>rs_cookie := Some (NewSessionCookie (e_mac e) (e_now e) (e_secret e)
                  (user_email u) (user_role u))\<rparr>, d, [])
          else (login_refused, d, [])))"
proof (cases "List.find (\<lambda>u. user_email u = lr_Email req) (users d)")
  case None
  then have "lr_Email req \<notin> user_email ` set (users d)" by (auto simp: find_None_iff)
  then show ?thesis using None login_unknown [OF assms(2,3)] by simp
next
  case (Some u)
  then have "u \<in> set (users d)" "user_email u = lr_Email req" by (auto dest: find_SomeD)
  from login_known [OF assms this] Some show ?thesis
    by (cases "user_password_hash u") (simp_all add: VerifyPassword_def)
qed

definition admin_login :: request where
  "admin_login = sample_request ''POST'' [''api'', ''login''] []
     (JObj [(''email'', JStr ''root@example.org''), (''password'', JStr ''correct horse'')])"

lemma admin_login_request:
  "login_request admin_login = Some \<lparr>lr_Email = ''root@example.org'', lr_Password = ''correct horse''\<rparr>"
  by (simp add: login_request_def admin_login_def sample_request_def decode_body_print login_fields_def find_field_def
      del: print_json.simps)

theorem login_outcome_witness:
  "rs_status (fst (loginHandler (sample_env 0) admin_login sample_db)) = 200"
  using login_outcome [OF sample_db_ok sample_faults admin_login_request, of "sample_env 0"]
  by (simp add: sample_defs sample_env_def respond_def)

text \<open>
  C9. With the database in order, the cookie of a successful login is a session of that
  account, with the role it had at the login, until it expires and not after.
\<close>

theorem login_session:
  assumes "db_ok d" "faults d = []" "login_request rq = Some req" "u \<in> set (users d)" "user_email u = lr_Email req"
    and "VerifyPassword (e_compare e) (deref [] (user_password_hash u)) (lr_Password req)"
    and "presents rq' (fst (loginHandler e rq d))"
    and "e_mac e' = e_mac e" "e_secret e' = e_secret e" "in_int64 (unix (e_now e + sessionTTL))"
  shows "session_of e' rq' = (if unix (e_now e') < unix (e_now e + sessionTTL)
    then Some \<lparr>s_Email = user_email u, s_Role = user_role u, s_Exp = unix (e_now e + sessionTTL)\<rparr> else None)"
  using assms by (rule login_then_session)

theorem login_session_witness:
  "\<exists>rq'. presents rq' (fst (loginHandler (sample_env 0) admin_login sample_db))
    \<and> session_of (sample_env (29 * 24 * 3600 * 10 ^ 9)) rq' \<noteq> None
    \<and> session_of (sample_env (30 * 24 * 3600 * 10 ^ 9)) rq' = None"
proof -
  let ?c = "NewSessionCookie (e_mac (sample_env 0)) 0 ''s3cret'' ''root@example.org'' ''admin''"
  let ?rq = "sample_request ''GET'' [''api'', ''whoami''] [(CookieName, c_Value ?c)] JNull"
  have u: "admin_row \<in> set (users sample_db)" "user_email admin_row
      = lr_Email \<lparr>lr_Email = ''root@example.org'', lr_Password = ''correct horse''\<rparr>"
    by (simp_all add: sample_defs)
  have pw: "VerifyPassword (e_compare (sample_env 0)) (deref [] (user_password_hash admin_row))
      (lr_Password \<lparr>lr_Email = ''root@example.org'', lr_Password = ''correct horse''\<rparr>)"
    by (simp add: VerifyPassword_def sample_env_def admin_row_def)
  have p: "presents ?rq (fst (loginHandler (sample_env 0) admin_login sample_db))"
    using login_known [OF sample_db_ok sample_faults admin_login_request u, of "sample_env 0"] pw
    by (simp add: presents_def sample_request_def sample_env_def admin_row_def)
  have t: "in_int64 (unix (e_now (sample_env 0) + sessionTTL))"
    by (simp add: sample_env_def in_int64_def unix_def sessionTTL_def)
  have "session_of (sample_env n) ?rq = (if unix n < unix sessionTTL
      then Some \<lparr>s_Email = user_email admin_row, s_Role = user_role admin_row, s_Exp = unix sessionTTL\<rparr> else None)" for n
    using login_session [OF sample_db_ok sample_faults admin_login_request u pw p _ _ t, of "sample_env n"]
    by (simp add: sample_env_def)
  then show ?thesis using p by (intro exI [of _ ?rq]) (simp add: unix_def sessionTTL_def)
qed


section \<open>Sessions\<close>

text \<open>
  C10. A session cookie is authentic: whoever presents an accepted cookie, knowing only the
  signatures of issued sessions, presents the payload of an issued session, so the session
  the server sees (email, role and expiry) is one it issued, and it has not expired.
\<close>

theorem cookie_authentic:
  assumes "ValidSession mac now cookies secret = Some s" "map_of cookies CookieName = Some v"
    and "\<And>payload sig. Cut v (CHR ''.'') = Some (payload, sig) \<Longrightarrow>
       \<exists>s' \<in> issued. DecodeString sig = Some (mac secret (session_payload s'))"
    and "\<And>payload sig s'. Cut v (CHR ''.'') = Some (payload, sig) \<Longrightarrow> s' \<in> issued \<Longrightarrow>
       mac secret payload = mac secret (session_payload s') \<Longrightarrow> payload = session_payload s'"
    and "\<And>s'. s' \<in> issued \<Longrightarrow> in_int64 (s_Exp s')"
  shows "s \<in> issued \<and> unix now < s_Exp s"
proof -
  have "verifyValue mac secret v = Some s"
    using assms(1,2) by (auto simp: ValidSession_def split: option.splits if_splits)
  then have "s \<in> issued" using assms(3-5) by (rule unforgeable [of mac secret v s issued])
  then show ?thesis using valid_unexpired [OF assms(1)] by blast
qed

definition guest_session :: Session where
  "guest_session = \<lparr>s_Email = ''guest@example.org'', s_Role = ''viewer'', s_Exp = 2592000\<rparr>"

theorem cookie_authentic_witness:
  "\<exists>v. map_of [(CookieName, v)] CookieName = Some v \<and>
    (\<exists>s. ValidSession (\<lambda>k m. k @ m) 5 [(CookieName, v)] ''s3cret'' = Some s \<and> s \<in> {guest_session} \<and> unix 5 < s_Exp s)"
proof -
  let ?mac = "\<lambda>k m. k @ m :: string" and ?v = "signValue (\<lambda>k m. k @ m) ''s3cret'' guest_session"
  have range: "in_int64 (s_Exp guest_session)" by (simp add: guest_session_def in_int64_def)
  have valid: "ValidSession ?mac 5 [(CookieName, ?v)] ''s3cret'' = Some guest_session"
    using verify_sign [OF range, of ?mac "''s3cret''"]
    by (simp add: ValidSession_def) (simp add: guest_session_def unix_def)
  have "guest_session \<in> {guest_session} \<and> unix 5 < s_Exp guest_session"
  proof (rule cookie_authentic [OF valid])
    show "map_of [(CookieName, ?v)] CookieName = Some ?v" by simp
    fix payload sig assume "Cut ?v (CHR ''.'') = Some (payload, sig)"
    then show "\<exists>s' \<in> {guest_session}. DecodeString sig = Some (?mac ''s3cret'' (session_payload s'))"
      by (auto simp: Cut_signValue DecodeString_EncodeToString sign_def)
  qed (simp_all add: range)
  then show ?thesis using valid by auto
qed

section \<open>Accounts\<close>

text \<open>
  C11. A password reset request tells nothing about an address: with the database and the
  random source in order, the answer is the same 200 without a body whether or not the
  address has an account, and for an unknown one nothing is stored and no mail is sent.
\<close>

theorem forgot_uniform:
  assumes "faults d = []" "forgot_request rq = Some em" "RandomToken (e_entropy e) = Some tok"
    and "\<not> holds_token user_reset_token tok d"
  shows "fst (forgotPasswordHandler e rq d) = respond 200 NoBody
    \<and> (em \<notin> user_email ` set (users d) \<longrightarrow> snd (forgotPasswordHandler e rq d) = (d, []))"
  using forgot_answer [OF assms] forgot_unknown_silent [OF assms(1,2)] by blast

definition forgot_of :: "string \<Rightarrow> request" where
  "forgot_of em = sample_request ''POST'' [''api'', ''forgot-password''] [] (JObj [(''email'', JStr em)])"

theorem forgot_uniform_witness:
  "fst (forgotPasswordHandler (sample_env 0) (forgot_of ''guest@example.org'') sample_db) = respond 200 NoBody
    \<and> forgotPasswordHandler (sample_env 0) (forgot_of ''nobody@example.org'') sample_db
      = (respond 200 NoBody, sample_db, [])"
proof -
  have rq: "forgot_request (forgot_of ''guest@example.org'') = Some ''guest@example.org''"
    "forgot_request (forgot_of ''nobody@example.org'') = Some ''nobody@example.org''"
    by (simp_all add: forgot_request_def forgot_of_def sample_request_def decode_body_print one_string_def find_field_def
        del: print_json.simps)
  obtain tok where tok: "RandomToken (e_entropy (sample_env 0)) = Some tok" "length tok = 64"
    using RandomToken_ok [of "replicate 32 (CHR ''x'')"] by (auto simp: sample_env_def RandomToken_def)
  then have "\<not> holds_token user_reset_token tok sample_db"
    by (auto simp: holds_token_def sample_defs list_ex_iff)
  note uniform = forgot_uniform [OF sample_faults _ tok(1) this]
  have "''nobody@example.org'' \<notin> user_email ` set (users sample_db)" by (simp add: sample_defs)
  then show ?thesis using uniform [OF rq(1)] uniform [OF rq(2)] by (metis prod.collapse)
qed

text \<open>
  C12. An invite and a reset token work once: after a successful redemption no further one
  of the same token succeeds, whatever is done with the accounts in between, short of
  issuing that token again.
\<close>

theorem tokens_once:
  assumes "db_ok d"
  shows "(AcceptInvite now tok h d = (Inr (), d1) \<and> (\<forall>op \<in> set ops. \<not> issues_invite tok op)
      \<longrightarrow> fst (AcceptInvite now' tok h' (run_user_ops ops d1)) \<noteq> Inr ())
    \<and> (ResetPassword now tok h d = (Inr (), d1) \<and> (\<forall>op \<in> set ops. \<not> issues_reset tok op)
      \<longrightarrow> fst (ResetPassword now' tok h' (run_user_ops ops d1)) \<noteq> Inr ())"
  using invite_single_use [OF assms] reset_single_use [OF assms] by blast

theorem tokens_once_witness:
  "\<exists>d1 d2. AcceptInvite 5 ''t0'' ''h'' sample_db = (Inr (), d1) \<and> ResetPassword 5 ''t1'' ''h'' sample_db = (Inr (), d2)
    \<and> fst (AcceptInvite 6 ''t0'' ''g'' (run_user_ops [Forgot 0 ''guest@example.org'' ''t2''] d1)) \<noteq> Inr ()
    \<and> fst (ResetPassword 6 ''t1'' ''g'' (run_user_ops [Forgot 0 ''guest@example.org'' ''t2''] d2)) \<noteq> Inr ()"
proof -
  have "fst (AcceptInvite 5 ''t0'' ''h'' sample_db) = Inr ()" "fst (ResetPassword 5 ''t1'' ''h'' sample_db) = Inr ()"
    by (simp_all add: AcceptInvite_def ResetPassword_def run_statement_served accept_invite_body_def
        reset_password_body_def) (simp_all add: sample_defs invite_matches_def reset_matches_def unexpired_def)
  then obtain d1 d2 where run: "AcceptInvite 5 ''t0'' ''h'' sample_db = (Inr (), d1)"
    "ResetPassword 5 ''t1'' ''h'' sample_db = (Inr (), d2)" by (metis prod.collapse)
  then show ?thesis
    using tokens_once [OF sample_db_ok, of 5 "''t0''" "''h''" d1 "[Forgot 0 ''guest@example.org'' ''t2'']" 6 "''g''"]
      tokens_once [OF sample_db_ok, of 5 "''t1''" "''h''" d2 "[Forgot 0 ''guest@example.org'' ''t2'']" 6 "''g''"] by auto
qed

text \<open>
  C13. With the database in order, an invite becomes a login: the request that answers 201
  has mailed the link with its token to the invited address; whatever is done with other
  accounts in between, redeeming the token sets the password with which that address then
  logs in with the invited role, for seven days of the server's clock, and not after.
\<close>

theorem invited_logs_in:
  assumes "db_ok d" "faults d = []" "inviteUserHandler e rq sess d = (rs, d1, sent)" "rs_status rs = 201"
    and "invite_request rq = Some info" "RandomToken (e_entropy e) = Some tok"
    and "\<forall>op \<in> set ops. spares (er_Email info) op \<and> keeps_invite tok op"
    and "redeem_request rq1 = Some \<lparr>tp_Token = tok, tp_Password = pw\<rparr>" "8 \<le> length pw" "e_generate e1 pw = Some h"
    and "login_request rq2 = Some \<lparr>lr_Email = er_Email info, lr_Password = pw\<rparr>" "h \<noteq> []" "e_compare e2 h pw"
    and "acceptInviteHandler e1 rq1 (run_user_ops ops d1) = (r, d3, sent1)"
  shows "RcptTo (er_Email info) \<in> set sent
    \<and> (\<exists>a b. Message (a @ (e_baseURL e @ ''/accept-invite?token='' @ tok) @ b) \<in> set sent)
    \<and> (if e_pg_now e1 < timestamptz (e_now e + inviteTTL)
       then r = respond 200 NoBody \<and> fst (loginHandler e2 rq2 d3) = (respond 200 NoBody)\<lparr>rs_cookie :=
         Some (NewSessionCookie (e_mac e2) (e_now e2) (e_secret e2) (er_Email info) (er_Role info))\<rparr>
       else rs_status r = 400 \<and> account_view d3 = account_view (run_user_ops ops d1))"
proof -
  note made = invite_created [OF assms(3-6)]
  have pending: "invite_pending (er_Email info) (er_Role info) tok (timestamptz (e_now e + inviteTTL)) (account_view d1)"
    using invite_starts [OF assms(1,2) made(1)] made(2) by simp
  have "db_ok d1" "faults d1 = []" unfolding made(2) using assms(1,2) by (rule step_served)+
  from invited_login [OF this pending assms(7-14)] link_mailed [OF made(3)] show ?thesis by blast
qed

definition invite_of :: request where
  "invite_of = sample_request ''POST'' [''api'', ''users''] []
     (JObj [(''email'', JStr ''new@example.org''), (''role'', JStr ''viewer'')])"

definition redeem_of :: "string \<Rightarrow> request" where
  "redeem_of tok = sample_request ''POST'' [''api'', ''accept-invite''] []
     (JObj [(''token'', JStr tok), (''password'', JStr ''long enough'')])"

definition login_of :: "string \<Rightarrow> request" where
  "login_of em = sample_request ''POST'' [''api'', ''login''] []
     (JObj [(''email'', JStr em), (''password'', JStr ''long enough'')])"

lemma sample_token: "\<exists>tok. RandomToken (e_entropy (sample_env 0)) = Some tok \<and> length tok = 64"
  using RandomToken_ok [of "replicate 32 (CHR ''x'')"] by (auto simp: sample_env_def RandomToken_def)

lemma sample_flow_requests:
  "invite_request invite_of = Some \<lparr>er_Email = ''new@example.org'', er_Role = ''viewer''\<rparr>"
  "redeem_request (redeem_of tok) = Some \<lparr>tp_Token = tok, tp_Password = ''long enough''\<rparr>"
  "login_request (login_of em) = Some \<lparr>lr_Email = em, lr_Password = ''long enough''\<rparr>"
  by (simp_all add: invite_request_def redeem_request_def login_request_def invite_of_def redeem_of_def login_of_def
      sample_request_def decode_body_print email_role_fields_def token_password_fields_def login_fields_def find_field_def
      del: print_json.simps)

definition root_session :: Session where
  "root_session = \<lparr>s_Email = ''root@example.org'', s_Role = RoleAdmin, s_Exp = 9\<rparr>"

theorem invited_logs_in_witness:
  "\<exists>tok rs d1 sent r d3. inviteUserHandler (sample_env 0) invite_of root_session sample_db = (rs, d1, sent)
    \<and> RcptTo ''new@example.org'' \<in> set sent
    \<and> acceptInviteHandler (sample_env 5) (redeem_of tok) (run_user_ops [Remove ''guest@example.org''] d1) = (r, d3, [])
    \<and> rs_cookie (fst (loginHandler (sample_env 6) (login_of ''new@example.org'') d3)) \<noteq> None"
proof -
  let ?e = "sample_env 0"
  obtain tok where tok: "RandomToken (e_entropy ?e) = Some tok" "length tok = 64" using sample_token by blast
  have "valid_email ''new@example.org''" "validRole ''viewer''" by code_simp+
  moreover have "fst (CreateInvite (e_now ?e) (e_pg_now ?e) ''new@example.org'' ''viewer'' tok sample_db) = Inr ()"
    using tok(2) by (auto simp: CreateInvite_def run_statement_served create_invite_body_def sample_defs)
  moreover have "fst (Send (e_relay ?e) (e_smtp ?e) em sb bd) = Inr ()" for em sb bd
    by (simp add: Send_def Configured_def sample_env_def)
  ultimately have "rs_status (fst (inviteUserHandler ?e invite_of root_session sample_db)) = 201"
    using sample_flow_requests(1) tok(1)
    by (auto simp: inviteUserHandler_def invite_request_def respond_def split: prod.split sum.split)
       (metis fst_conv sum.distinct(1))+
  then obtain rs d1 sent where run: "inviteUserHandler ?e invite_of root_session sample_db = (rs, d1, sent)" "rs_status rs = 201"
    by (metis prod.collapse fst_conv)
  obtain r d3 where accept: "acceptInviteHandler (sample_env 5) (redeem_of tok) (run_user_ops [Remove ''guest@example.org''] d1) = (r, d3, [])"
    using accept_handler [OF sample_flow_requests(2), of "sample_env 5"] by (simp add: sample_env_def)
  have early: "e_pg_now (sample_env 5) < timestamptz (e_now ?e + inviteTTL)"
    by (simp add: sample_env_def timestamptz_def inviteTTL_def)
  have "RcptTo ''new@example.org'' \<in> set sent \<and> r = respond 200 NoBody
      \<and> rs_cookie (fst (loginHandler (sample_env 6) (login_of ''new@example.org'') d3)) \<noteq> None"
    using invited_logs_in [OF sample_db_ok sample_faults run sample_flow_requests(1) tok(1) _ sample_flow_requests(2) _ _
        sample_flow_requests(3) _ _ accept, where h = "''long enough''" and ?e2.0 = "sample_env 6"] early
    by (simp add: sample_env_def)
  with run(1) accept show ?thesis by blast
qed

text \<open>
  C14. With the database in order, a reset request becomes a login: when the request for an
  account answers 200, then, whatever is done with other accounts in between, redeeming its
  token sets the password with which the account then logs in, with its role, for an hour,
  and not after.
\<close>

theorem reset_logs_in:
  assumes "db_ok d" "faults d = []" "forgotPasswordHandler e rq d = (rs, d1, sent)" "rs_status rs = 200"
    and "forgot_request rq = Some em" "RandomToken (e_entropy e) = Some tok" "u \<in> set (users d)" "user_email u = em"
    and "\<forall>op \<in> set ops. spares em op \<and> keeps_reset em tok op"
    and "redeem_request rq1 = Some \<lparr>tp_Token = tok, tp_Password = pw\<rparr>" "8 \<le> length pw" "e_generate e1 pw = Some h"
    and "login_request rq2 = Some \<lparr>lr_Email = em, lr_Password = pw\<rparr>" "h \<noteq> []" "e_compare e2 h pw"
    and "resetPasswordHandler e1 rq1 (run_user_ops ops d1) = (r, d3, sent1)"
  shows "if e_pg_now e1 < timestamptz (e_now e + resetTTL)
    then r = respond 200 NoBody \<and> fst (loginHandler e2 rq2 d3) = (respond 200 NoBody)\<lparr>rs_cookie :=
      Some (NewSessionCookie (e_mac e2) (e_now e2) (e_secret e2) em (user_role u))\<rparr>
    else rs_status r = 400 \<and> account_view d3 = account_view (run_user_ops ops d1)"
proof -
  note made = reset_created [OF assms(3-6)]
  have "account_view d em = Some (account_of u)" using account_view_Some_iff [OF assms(1)] assms(7,8) by blast
  from reset_starts [OF assms(1,2) made(1) this]
  have pending: "reset_pending em (user_role u) tok (timestamptz (e_now e + resetTTL)) (account_view d1)"
    using made(2) by (simp add: account_of_def)
  have "db_ok d1" "faults d1 = []" unfolding made(2) using assms(1,2) by (rule step_served)+
  from reset_login_flow [OF this pending assms(9-16)] show ?thesis .
qed

theorem reset_logs_in_witness:
  "\<exists>tok rs d1 sent r d3. forgotPasswordHandler (sample_env 0) (forgot_of ''guest@example.org'') sample_db = (rs, d1, sent)
    \<and> resetPasswordHandler (sample_env 5) (redeem_of tok) (run_user_ops [Accept 4 ''t0'' ''h''] d1) = (r, d3, [])
    \<and> rs_cookie (fst (loginHandler (sample_env 6) (login_of ''guest@example.org'') d3)) \<noteq> None"
proof -
  let ?e = "sample_env 0" and ?em = "''guest@example.org''"
  obtain tok where tok: "RandomToken (e_entropy ?e) = Some tok" "length tok = 64" using sample_token by blast
  have rq: "forgot_request (forgot_of ?em) = Some ?em"
    by (simp add: forgot_request_def forgot_of_def sample_request_def decode_body_print one_string_def find_field_def
        del: print_json.simps)
  have "\<not> holds_token user_reset_token tok sample_db"
    using tok(2) by (auto simp: holds_token_def sample_defs list_ex_iff)
  from forgot_answer [OF sample_faults rq tok(1) this]
  obtain d1 sent where run: "forgotPasswordHandler ?e (forgot_of ?em) sample_db = (respond 200 NoBody, d1, sent)"
    by (metis prod.collapse)
  have ok: "rs_status (respond 200 NoBody) = 200" by (simp add: respond_def)
  have u: "guest_row \<in> set (users sample_db)" "user_email guest_row = ?em" by (simp_all add: sample_defs)
  obtain r d3 where reset: "resetPasswordHandler (sample_env 5) (redeem_of tok) (run_user_ops [Accept 4 ''t0'' ''h''] d1) = (r, d3, [])"
    using reset_handler [OF sample_flow_requests(2), of "sample_env 5"] by (simp add: sample_env_def)
  have early: "e_pg_now (sample_env 5) < timestamptz (e_now ?e + resetTTL)"
    by (simp add: sample_env_def timestamptz_def resetTTL_def)
  have "rs_cookie (fst (loginHandler (sample_env 6) (login_of ?em) d3)) \<noteq> None"
    using reset_logs_in [OF sample_db_ok sample_faults run ok rq tok(1) u _ sample_flow_requests(2) _ _
        sample_flow_requests(3) _ _ reset, where h = "''long enough''" and ?e2.0 = "sample_env 6"] early
    by (simp add: sample_env_def)
  with run reset show ?thesis by blast
qed

text \<open>
  C15. Who can take an account away: whatever the request, an account stays, with its role,
  unless it is named in one of the two routes for that by the session of an administrator
  with another address; so no administrator can remove or demote the own account.
\<close>

theorem account_kept:
  assumes "db_ok (srv_db s)" "serve so e rq s = (rs, s', sent)" "u \<in> set (users (srv_db s))"
  shows "(\<exists>u' \<in> set (users (srv_db s')). user_email u' = user_email u \<and> user_role u' = user_role u)
    \<or> ((\<exists>sess. session_of e rq = Some sess \<and> IsAdmin sess \<and> s_Email sess \<noteq> user_email u)
       \<and> mux (rq_method rq) (rq_path rq) \<in> {DeleteUserRoute (user_email u), PutRole (user_email u)})"
  using assms(2)
proof (rule serve_cases)
  assume "s' = HandleWS (so_alive so) (so_upgraded so) (so_remote so) (so_msgs so) s"
  then have "users (srv_db s') = users (srv_db s)" using HandleWS_nodes_only by (simp add: nodes_only_def)
  then show ?thesis using assms(3) by auto
next
  fix d' assume run: "api_serve e rq (srv_db s) = Some (rs, d', sent)" and s': "s' = with_db s d'"
  have "has_account (user_email u) (user_role u) (srv_db s)" using assms(3) by (auto simp: has_account_def)
  from serve_account [OF assms(1) run this] show ?thesis
    by (auto simp: s' has_account_def taken_by_other_def)
qed

theorem account_kept_witness:
  "\<exists>rs s' sent. serve sample_socket (sample_env 0) (forgot_of ''guest@example.org'') sample_server = (rs, s', sent)
    \<and> (\<exists>u' \<in> set (users (srv_db s')). user_email u' = ''root@example.org'' \<and> user_role u' = ''admin'')"
proof -
  obtain rs s' sent where run: "serve sample_socket (sample_env 0) (forgot_of ''guest@example.org'') sample_server = (rs, s', sent)"
    by (metis prod.collapse)
  have db: "srv_db sample_server = sample_db" by (simp add: sample_server_def new_server_def)
  then have "admin_row \<in> set (users (srv_db sample_server))" by (simp add: sample_db_def)
  moreover have "mux (rq_method (forgot_of ''guest@example.org'')) (rq_path (forgot_of ''guest@example.org'')) = ForgotRoute"
    by (simp add: forgot_of_def sample_request_def mux_def is_get_def)
  ultimately show ?thesis using account_kept [OF sample_db_ok [folded db] run, of admin_row] run by (auto simp: admin_row_def)
qed

text \<open>
  C16. The users table implements a map from addresses to accounts: with the database in
  order, after any history of invites, redemptions, role changes, removals and resets it
  holds the map the specification computes, the next operation is accepted exactly when the
  specification accepts it, and a login, an invite page and the count of accounts read that
  map.
\<close>

theorem accounts_refined:
  fixes ops :: "user_op list"
  assumes "db_ok d" "faults d = []"
  shows "let d' = run_user_ops ops d; m = fold account_step ops (account_view d) in
    account_view d' = m \<and> (user_accepts op d' \<longleftrightarrow> account_spec op m \<noteq> None)
    \<and> map_option (\<lambda>(u, h). (u_Role u, u_HasSetPassword u, h)) (fst (UserByEmail em d'))
      = map_option (\<lambda>a. (acc_role a, acc_hash a \<noteq> None, deref [] (acc_hash a))) (m em)
    \<and> (fst (UserByInviteToken now tok d') \<noteq> None \<longleftrightarrow> (\<exists>em a. m em = Some a \<and> live now tok (acc_invite a)))
    \<and> fst (CountUsers d') = Inr (card (dom m))"
proof -
  note history = history_as_specified [OF assms, of ops]
  then have "as_specified op (run_user_ops ops d)" by (intro step_as_specified) simp_all
  with history show ?thesis
    using UserByEmail_view [of "run_user_ops ops d" em] UserByInviteToken_view [of "run_user_ops ops d" now tok]
      CountUsers_view [of "run_user_ops ops d"]
    by (simp add: Let_def as_specified_def some_account_def)
qed

theorem accounts_refined_witness:
  "fst (CountUsers (run_user_ops [Remove ''root@example.org'', Accept 5 ''t0'' ''h''] sample_db)) = Inr 1
    \<and> \<not> user_accepts (Accept 6 ''t0'' ''h'') (run_user_ops [Remove ''root@example.org'', Accept 5 ''t0'' ''h''] sample_db)"
proof -
  let ?ops = "[Remove ''root@example.org'', Accept 5 ''t0'' ''h'']"
  have start: "account_view sample_db = [''root@example.org'' \<mapsto> account_of admin_row, ''guest@example.org'' \<mapsto> account_of guest_row]"
    by (auto simp: fun_eq_iff account_view_def sample_defs)
  define guest where "guest = (account_of guest_row)\<lparr>acc_hash := Some ''h'', acc_invite := None\<rparr>"
  have "live 5 ''t0'' (acc_invite (account_of guest_row))"
    by (simp add: account_of_def guest_row_def unexpired_def)
  then have m: "fold account_step ?ops (account_view sample_db) = [''guest@example.org'' \<mapsto> guest]"
    by (auto simp: start account_step_def some_account_def change_accounts_def guest_def fun_eq_iff)
  have "account_spec (Accept 6 ''t0'' ''h'') [''guest@example.org'' \<mapsto> guest] = None"
    by (auto simp: some_account_def guest_def)
  then show ?thesis
    using accounts_refined [OF sample_db_ok sample_faults, of ?ops "Accept 6 ''t0'' ''h''"] unfolding m Let_def by simp
qed

text \<open>
  C17. Mail is confidential on the wire: credentials, addresses and the message, which
  carries an invite or a reset link, are sent only after \<open>STARTTLS\<close> succeeded.
\<close>

theorem mail_confidential:
  assumes "Send relay cfg recipient subject body = (r, issued)" "c \<in> set issued" "confidential c"
  shows "\<exists>a b. issued = a @ StartTLS (cfg_Server cfg) # b \<and> relay (a @ [StartTLS (cfg_Server cfg)]) \<and> c \<in> set b"
  using nothing_in_clear [OF assms] by blast

theorem mail_confidential_witness:
  "\<exists>issued a b. Send (\<lambda>_. True) (e_smtp (sample_env 0)) ''x@y.z'' ''s'' ''b'' = (Inr (), issued)
    \<and> issued = a @ StartTLS ''mx'' # b \<and> RcptTo ''x@y.z'' \<in> set b"
proof -
  obtain issued where run: "Send (\<lambda>_. True) (e_smtp (sample_env 0)) ''x@y.z'' ''s'' ''b'' = (Inr (), issued)"
    "RcptTo ''x@y.z'' \<in> set issued"
    by (simp add: Send_def Configured_def sample_env_def)
  have "confidential (RcptTo ''x@y.z'')" by (simp add: confidential_def)
  from mail_confidential [OF run this] run(1) show ?thesis by (auto simp: sample_env_def)
qed

text \<open>
  C18. The lists of the dashboard are read back from their text: with the database in order,
  a parser of the body of the node list gets one object per row, in the order of the table,
  but null when there is no row; of the resource list it always gets an array, by name.
\<close>

theorem lists_read_back:
  assumes "db_ok d" "faults d = []"
  shows "(\<exists>txt. body_text fmt (rs_body (fst (listNodesHandler e rq sess d))) = Some txt
      \<and> parse_json txt = Some (if nodes d = [] then JNull else JArr (map (enc_node fmt) (nodes d))))
    \<and> (\<exists>txt. body_text fmt (rs_body (fst (listResourcesHandler e rq sess d))) = Some txt
      \<and> parse_json txt = Some (JArr (map (\<lambda>r. enc_resource fmt (listing d r))
          (filter (\<lambda>r. targets_of d r \<noteq> []) (sort_key res_name (resources d))))))"
proof
  have "listNodesHandler e rq sess d = (respond 200 (NodesBody (nodes d)), d, [])"
    using assms(2) by (simp add: listNodesHandler_def ListNodes_def run_statement_def)
  then show "\<exists>txt. body_text fmt (rs_body (fst (listNodesHandler e rq sess d))) = Some txt
      \<and> parse_json txt = Some (if nodes d = [] then JNull else JArr (map (enc_node fmt) (nodes d)))"
    by (intro body_parses) (simp add: respond_def enc_nil_slice_def)
  have "listResourcesHandler e rq sess d = (respond 200 (ResourcesBody (listed d)), d, [])"
    using list_served [OF assms(1) statement_served [OF assms(2)]] by (simp add: listResourcesHandler_def)
  then show "\<exists>txt. body_text fmt (rs_body (fst (listResourcesHandler e rq sess d))) = Some txt
      \<and> parse_json txt = Some (JArr (map (\<lambda>r. enc_resource fmt (listing d r))
          (filter (\<lambda>r. targets_of d r \<noteq> []) (sort_key res_name (resources d)))))"
    by (intro body_parses) (simp add: respond_def listed_def comp_def)
qed

definition plain_formats :: formats where
  "plain_formats = \<lparr>uuid = (\<lambda>i. Itoa (int i)), rfc3339 = Itoa\<rparr>"

theorem lists_read_back_witness:
  "parse_json (the (body_text plain_formats (rs_body (fst (listNodesHandler (sample_env 0) (forgot_of []) guest_session empty_db))))) = Some JNull
    \<and> parse_json (the (body_text plain_formats (rs_body (fst (listResourcesHandler (sample_env 0) (forgot_of []) guest_session empty_db)))))
      = Some (JArr [])"
  using lists_read_back [OF empty_db_ok empty_db_faults, of plain_formats "sample_env 0" "forgot_of []" guest_session]
  by (auto simp: empty_db_def)

end
