(* ===== verification/StoreServed.thy ===== *)
theory StoreServed
  imports ResourceStore
begin

text \<open>
  When a write of a resource succeeds: with every statement served, a create or update ends
  well exactly when its arguments are acceptable and each of its targets can be stored. A
  target can be stored when its port fits the column, its role is one of the two the column
  allows, and the node it names is registered.
\<close>

definition writable :: "db \<Rightarrow> TargetSpec \<Rightarrow> bool" where
  "writable d t \<longleftrightarrow> in_int4 (spec_Port t) \<and> role_check (default_role (spec_Role t))
     \<and> (spec_Address t \<noteq> [] \<or> spec_NodeName t \<in> node_Name ` set (nodes d))"

text \<open>What the insertion of one target does when it is served.\<close>

lemma insert_one_served:
  assumes "faults d = []" "rid \<in> res_id ` set (resources d)"
  shows "fst (insert_one rid t d) = Inr () \<longleftrightarrow> writable d t"
    and "faults (snd (insert_one rid t d)) = []"
    and "nodes (snd (insert_one rid t d)) = nodes d" "resources (snd (insert_one rid t d)) = resources d"
proof -
  have find: "node_named (spec_NodeName t) d = None \<longleftrightarrow> spec_NodeName t \<notin> node_Name ` set (nodes d)"
    by (rule node_named_None_iff)
  have mem: "node_named (spec_NodeName t) d = Some n \<Longrightarrow> n \<in> set (nodes d)" for n
    using find_SomeD [of "\<lambda>n. node_Name n = spec_NodeName t" "nodes d" n] by (simp add: node_named_def)
  show "fst (insert_one rid t d) = Inr () \<longleftrightarrow> writable d t"
    using assms find mem
    by (cases "node_named (spec_NodeName t) d")
       (auto simp: insert_one_def Let_def writable_def run_statement_served insert_target_body_def node_id_body_def)
  show "faults (snd (insert_one rid t d)) = []"
    "nodes (snd (insert_one rid t d)) = nodes d" "resources (snd (insert_one rid t d)) = resources d"
    using assms by (auto simp: insert_one_def Let_def run_statement_served insert_target_body_def node_id_body_def
        split: option.splits)
qed

lemma insertTargets_served:
  assumes "faults d = []" "rid \<in> res_id ` set (resources d)"
  shows "(fst (insertTargets rid ts d) = Inr () \<longleftrightarrow> (\<forall>t \<in> set ts. writable d t))
    \<and> faults (snd (insertTargets rid ts d)) = []"
  using assms
proof (induction ts arbitrary: d)
  case Nil
  then show ?case by simp
next
  case (Cons t ts)
  obtain r d1 where one: "insert_one rid t d = (r, d1)" by fastforce
  note served = insert_one_served [OF Cons.prems, of t, unfolded one fst_conv snd_conv]
  have w: "writable d1 = writable d" using served(3) by (simp add: fun_eq_iff writable_def)
  have "rid \<in> res_id ` set (resources d1)" using Cons.prems(2) served(4) by simp
  from Cons.IH [OF served(2) this] served(1,2) w one show ?case by (cases r) auto
qed

lemma in_transaction_served:
  assumes "faults d = []" "faults (snd (body d)) = []"
  shows "fst (in_transaction b c body d) = fst (body d)"
  using assms by (cases "body d") (auto simp: in_transaction_def split: sum.split)

lemma create_tx_served:
  assumes "faults d = []"
  shows "(fst (create_tx name a ts d) = Inr () \<longleftrightarrow>
      protocol_check (a_protocol a) \<and> name \<notin> res_name ` set (resources d) \<and> (\<forall>t \<in> set ts. writable d t))
    \<and> faults (snd (create_tx name a ts d)) = []"
proof -
  obtain q d1 where ins: "insert_resource_body name a d = (q, d1)" by fastforce
  show ?thesis
  proof (cases q)
    case (Inl e)
    then show ?thesis using ins assms
      by (auto simp: create_tx_def run_statement_served insert_resource_body_def split: if_splits)
  next
    case (Inr i)
    have d1: "faults d1 = []" "i \<in> res_id ` set (resources d1)" "nodes d1 = nodes d"
      "protocol_check (a_protocol a)" "name \<notin> res_name ` set (resources d)"
      using ins Inr assms by (auto simp: insert_resource_body_def split: if_splits)
    have "writable d1 = writable d" using d1(3) by (simp add: fun_eq_iff writable_def)
    then show ?thesis using insertTargets_served [OF d1(1,2), of ts] ins Inr assms d1(4,5)
      by (simp add: create_tx_def run_statement_served)
  qed
qed

lemma update_tx_served:
  assumes "faults d = []"
  shows "(fst (update_tx name a ts d) = Inr () \<longleftrightarrow>
      protocol_check (a_protocol a) \<and> name \<in> res_name ` set (resources d) \<and> (\<forall>t \<in> set ts. writable d t))
    \<and> faults (snd (update_tx name a ts d)) = []"
proof -
  obtain q d1 where upd: "update_resource_body name a d = (q, d1)" by fastforce
  show ?thesis
  proof (cases q)
    case (Inl e)
    then show ?thesis using upd assms
      by (auto simp: update_tx_def run_statement_served update_resource_body_def find_None_iff split: if_splits option.splits)
  next
    case (Inr i)
    obtain r where r: "List.find (\<lambda>r. res_name r = name) (resources d) = Some r" "res_id r = i"
      "protocol_check (a_protocol a)"
      and d1: "d1 = d\<lparr>resources := update_where (\<lambda>r. res_name r = name) (set_fields a) (resources d)\<rparr>"
      using upd Inr by (auto simp: update_resource_body_def split: if_splits option.splits)
    have rin: "r \<in> set (resources d)" "res_name r = name" using find_SomeD [OF r(1)] by auto
    define d2 where "d2 = snd (clear_targets_body i d1)"
    have d2: "clear_targets_body i d1 = (Inr (), d2)" "faults d2 = []" "nodes d2 = nodes d"
      by (simp_all add: d2_def clear_targets_body_def d1 assms)
    have "map res_id (resources d2) = map res_id (resources d)"
      by (simp add: d2_def clear_targets_body_def d1 map_update_where_same set_fields_def)
    then have i: "i \<in> res_id ` set (resources d2)" using rin r(2) by (metis image_eqI set_map)
    have "writable d2 = writable d" using d2(3) by (simp add: fun_eq_iff writable_def)
    then show ?thesis using insertTargets_served [OF d2(2) i, of ts] upd Inr assms d2(1) r(3) rin
      by (auto simp: update_tx_def run_statement_served d1)
  qed
qed

text \<open>
  What the package asks of the arguments: targets, each a node or an address and not both;
  for http any number of them, for tcp and udp one, or a primary and a backup; and a scheme
  that Traefik can use, or none.
\<close>

definition acceptable :: "ResourceArgs \<Rightarrow> TargetSpec list \<Rightarrow> bool" where
  "acceptable a ts \<longleftrightarrow> ts \<noteq> [] \<and> (\<forall>t \<in> set ts. (spec_NodeName t = []) \<noteq> (spec_Address t = []))
     \<and> (a_protocol a = ''http'' \<or> a_protocol a \<in> {''tcp'', ''udp''}
         \<and> (length ts = 1 \<or> length ts = 2 \<and> (default_role \<circ> spec_Role) ` set ts = {''primary'', ''backup''}))
     \<and> a_targetScheme a \<in> {[], ''http'', ''https''}"

lemma two_roles:
  "length ts = 2 \<Longrightarrow> f ` set ts = {x, y} \<longleftrightarrow> x \<in> f ` set ts \<and> y \<in> f ` set ts" if "x \<noteq> y" for f :: "'a \<Rightarrow> 'b"
  using that by (auto simp: numeral_2_eq_2 length_Suc_conv)

lemma validateTargets_iff:
  "validateTargets p ts = Inr () \<longleftrightarrow> ts \<noteq> [] \<and> (\<forall>t \<in> set ts. (spec_NodeName t = []) \<noteq> (spec_Address t = []))
     \<and> (p = ''http'' \<or> p \<in> {''tcp'', ''udp''}
         \<and> (length ts = 1 \<or> length ts = 2 \<and> (default_role \<circ> spec_Role) ` set ts = {''primary'', ''backup''}))"
proof -
  have two: "length ts = 2 \<Longrightarrow> (default_role \<circ> spec_Role) ` set ts = {''primary'', ''backup''}
      \<longleftrightarrow> ''primary'' \<in> (default_role \<circ> spec_Role) ` set ts \<and> ''backup'' \<in> (default_role \<circ> spec_Role) ` set ts"
    by (rule two_roles) simp_all
  have len: "ts \<noteq> [] \<Longrightarrow> \<not> 2 < length ts \<Longrightarrow> length ts \<noteq> 2 \<Longrightarrow> length ts = 1"
    by (cases ts; cases "tl ts") auto
  show ?thesis
    using two len unfolding validateTargets_def by (auto simp: list_ex_iff Let_def image_image)
qed

lemma accepted_iff: "accepted a ts \<longleftrightarrow> acceptable a ts"
  by (simp add: accepted_def acceptable_def validateTargets_iff conj_assoc)

lemma acceptable_protocol: "acceptable a ts \<Longrightarrow> protocol_check (a_protocol a)"
  by (auto simp: acceptable_def protocol_check_def)

text \<open>An operation that reports an error has changed nothing that can be seen.\<close>

lemma same_tables_view:
  "same_tables d d' \<Longrightarrow> store_view d' = store_view d \<and> nodes d' = nodes d \<and> users d' = users d"
  by (simp add: store_view_cong) (simp add: same_tables_def)

lemma CreateResource_unchanged:
  "CreateResource name a ts d = (Inl e, d') \<Longrightarrow> store_view d' = store_view d \<and> nodes d' = nodes d \<and> users d' = users d"
  by (intro same_tables_view CreateResource_error)

lemma UpdateResource_unchanged:
  "UpdateResource name a ts d = (Inl e, d') \<Longrightarrow> store_view d' = store_view d \<and> nodes d' = nodes d \<and> users d' = users d"
  by (intro same_tables_view UpdateResource_error)

lemma DeleteResource_unchanged:
  "DeleteResource name d = (Inl e, d') \<Longrightarrow> store_view d' = store_view d \<and> nodes d' = nodes d \<and> users d' = users d"
  by (rule same_tables_view, erule DeleteResource_cases) auto

text \<open>When every statement is served.\<close>

lemma CreateResource_served:
  assumes "faults d = []"
  shows "fst (CreateResource name a ts d) = Inr () \<longleftrightarrow>
    acceptable a ts \<and> store_view d name = None \<and> (\<forall>t \<in> set ts. writable d t)"
proof (cases "accepted a ts")
  case False
  then show ?thesis
    by (auto simp: accepted_iff [symmetric] accepted_def CreateResource_def normalizeTargetScheme_def split: sum.split)
next
  case True
  then obtain scheme where "normalizeTargetScheme (a_targetScheme a) = Inr scheme" "validateTargets (a_protocol a) ts = Inr ()"
    by (auto simp: accepted_def normalizeTargetScheme_def)
  moreover note create_tx_served [OF assms, of name "a\<lparr>a_targetScheme := scheme\<rparr>" ts]
  ultimately show ?thesis
    using True assms acceptable_protocol [of a ts]
    by (simp add: CreateResource_def in_transaction_served accepted_iff store_view_None_iff)
qed

lemma UpdateResource_served:
  assumes "faults d = []"
  shows "fst (UpdateResource name a ts d) = Inr () \<longleftrightarrow>
    acceptable a ts \<and> store_view d name \<noteq> None \<and> (\<forall>t \<in> set ts. writable d t)"
proof (cases "accepted a ts")
  case False
  then show ?thesis
    by (auto simp: accepted_iff [symmetric] accepted_def UpdateResource_def normalizeTargetScheme_def split: sum.split)
next
  case True
  then obtain scheme where "normalizeTargetScheme (a_targetScheme a) = Inr scheme" "validateTargets (a_protocol a) ts = Inr ()"
    by (auto simp: accepted_def normalizeTargetScheme_def)
  moreover note update_tx_served [OF assms, of name "a\<lparr>a_targetScheme := scheme\<rparr>" ts]
  ultimately show ?thesis
    using True assms acceptable_protocol [of a ts]
    by (simp add: UpdateResource_def in_transaction_served accepted_iff store_view_None_iff)
qed

lemma DeleteResource_served:
  assumes "faults d = []"
  shows "fst (DeleteResource name d) = Inr () \<longleftrightarrow> store_view d name \<noteq> None"
  using assms
  by (auto simp: DeleteResource_def run_statement_served delete_resource_body_def Let_def store_view_None_iff
      filter_empty_conv)

end
