(* ===== verification/MeshBounds.thy ===== *)
theory MeshBounds
  imports Mesh
begin

text \<open>
  How long the loop of \<open>AllocateIP\<close> (internal/controlplane/mesh/mesh.go) runs: it examines
  consecutive addresses, no address twice, and every address it passes over is in use, so
  it ends after at most one round more than there are used addresses.
\<close>

text \<open>The condition under which the loop goes on to the next address.\<close>

definition passes :: "ipnet \<Rightarrow> string list \<Rightarrow> ip \<Rightarrow> bool" where
  "passes net used a \<longleftrightarrow> net_contains net a \<and> a \<noteq> lastAddr net \<and> IP_String a \<in> set used"

lemma alloc_loop_rounds:
  "\<exists>k. (\<forall>j < k. passes net used ((incIP ^^ j) a)) \<and> \<not> passes net used ((incIP ^^ k) a)
     \<and> alloc_loop net used a = alloc_loop net used ((incIP ^^ k) a)"
proof (induction net used a rule: alloc_loop.induct)
  case (1 net used a)
  show ?case
  proof (cases "passes net used a")
    case True
    then obtain k where "\<forall>j < k. passes net used ((incIP ^^ j) (incIP a))" "\<not> passes net used ((incIP ^^ k) (incIP a))"
      "alloc_loop net used (incIP a) = alloc_loop net used ((incIP ^^ k) (incIP a))"
      using "1.IH" [of "IP_String a"] by (auto simp: passes_def)
    moreover have "alloc_loop net used a = alloc_loop net used (incIP a)"
      using True by (subst alloc_loop.simps) (simp add: passes_def)
    ultimately show ?thesis
      using True by (intro exI [of _ "Suc k"]) (auto simp: funpow_Suc_right less_Suc_eq_0_disj simp del: funpow.simps(2))
  qed (auto intro: exI [of _ 0])
qed

lemma passed_decreasing:
  assumes "\<forall>j < k. passes net used ((incIP ^^ j) a)" "i < j" "j \<le> k"
  shows "alloc_dist net ((incIP ^^ j) a) < alloc_dist net ((incIP ^^ i) a)"
  using assms(2,3)
proof (induction j)
  case (Suc j)
  have "alloc_dist net ((incIP ^^ Suc j) a) < alloc_dist net ((incIP ^^ j) a)"
    using assms(1) Suc.prems by (simp add: passes_def alloc_dist_decr)
  then show ?case using Suc by (cases "i = j") auto
qed simp

lemma passed_bound:
  assumes n: "net4 n net" and passed: "\<forall>j < k. passes net used ((incIP ^^ j) a)"
  shows "k \<le> card (set used)"
proof -
  let ?f = "\<lambda>j. IP_String ((incIP ^^ j) a)"
  have len: "length ((incIP ^^ j) a) = 4" if "j < k" for j
    using passed that net4_masked(1) [OF n] by (auto simp: passes_def net_contains_def)
  have "inj_on ?f {..<k}"
  proof (rule linorder_inj_onI)
    fix i j :: nat assume "i < j" "i \<in> {..<k}" "j \<in> {..<k}"
    then show "?f i \<noteq> ?f j" using passed_decreasing [OF passed, of i j] IP_String_inj [OF len len, of i j] by auto
  qed auto
  then have "card (?f ` {..<k}) = k" by (simp add: card_image)
  moreover have "?f ` {..<k} \<subseteq> set used" using passed by (auto simp: passes_def)
  ultimately show ?thesis using card_mono [of "set used" "?f ` {..<k}"] by simp
qed

lemma AllocateIP_rounds:
  assumes "ParseCIDR cidr = Inr net"
  shows "\<exists>k \<le> card (set used). let a = (incIP ^^ Suc k) (net_IP net) in
      (\<forall>j < k. passes net used ((incIP ^^ Suc j) (net_IP net))) \<and> \<not> passes net used a
      \<and> AllocateIP cidr used = (if net_contains net a \<and> a \<noteq> lastAddr net then Inr (IP_String a) else Inl (MeshExhausted cidr))"
proof -
  obtain n where n: "net4 n net" using ParseCIDR_net4 [OF assms] by blast
  obtain k where k: "\<forall>j < k. passes net used ((incIP ^^ j) (incIP (net_IP net)))"
    "\<not> passes net used ((incIP ^^ k) (incIP (net_IP net)))"
    "alloc_loop net used (incIP (net_IP net)) = alloc_loop net used ((incIP ^^ k) (incIP (net_IP net)))"
    using alloc_loop_rounds by blast
  have "alloc_loop net used b = (if net_contains net b \<and> b \<noteq> lastAddr net then Some (IP_String b) else None)"
    if "\<not> passes net used b" for b
    using that by (subst alloc_loop.simps) (auto simp: passes_def)
  then have "AllocateIP cidr used = (let a = (incIP ^^ k) (incIP (net_IP net)) in
      if net_contains net a \<and> a \<noteq> lastAddr net then Inr (IP_String a) else Inl (MeshExhausted cidr))"
    using k(2,3) by (simp add: AllocateIP_def assms net4_masked [OF n] Let_def)
  then show ?thesis
    using k(1,2) passed_bound [OF n k(1)]
    by (intro exI [of _ k]) (simp add: Let_def funpow_Suc_right del: funpow.simps(2))
qed

end
