(* ===== verification/HostPatterns.thy ===== *)
theory HostPatterns
  imports TraefikConfig
begin

text \<open>
  What the patterns of \<open>hostRule\<close> (internal/controlplane/traefikconfig) match. The pattern
  inside \<open>HostRegexp\<close> is a Go regular expression; this theory reads the part of that
  language the generator writes: anchors, the class of all characters but the dot, repeated
  one or more times, escaped punctuation, and characters that stand for themselves. A
  pattern outside this part has no reading (\<open>None\<close>).
\<close>

datatype piece = Literal char | NoDots

text \<open>The characters that Go's syntax gives a meaning to.\<close>

definition meta :: "char \<Rightarrow> bool" where
  "meta c \<longleftrightarrow> c \<in> {CHR 0x5C, CHR ''.'', CHR ''+'', CHR ''*'', CHR ''?'', CHR ''('', CHR '')'', CHR ''|'', CHR ''['',
     CHR '']'', CHR ''{'', CHR ''}'', CHR ''^'', CHR ''$''}"

fun read_pieces :: "string \<Rightarrow> piece list option" where
  "read_pieces [] = None"
| "read_pieces (c # cs) =
     (if c = CHR ''$'' then (if cs = [] then Some [] else None)
      else if c = CHR 0x5C then (case cs of [] \<Rightarrow> None
        | e # es \<Rightarrow> if meta e then map_option ((#) (Literal e)) (read_pieces es) else None)
      else if c = CHR ''['' then (case cs of
          a # b # d # f # es \<Rightarrow> if [a, b, d, f] = ''^.]+'' then map_option ((#) NoDots) (read_pieces es) else None
        | _ \<Rightarrow> None)
      else if meta c then None else map_option ((#) (Literal c)) (read_pieces cs))"

fun match_pieces :: "piece list \<Rightarrow> string \<Rightarrow> bool" where
  "match_pieces [] s \<longleftrightarrow> s = []"
| "match_pieces (Literal c # ps) s \<longleftrightarrow> (case s of [] \<Rightarrow> False | x # xs \<Rightarrow> x = c \<and> match_pieces ps xs)"
| "match_pieces (NoDots # ps) s \<longleftrightarrow>
     list_ex (\<lambda>k. CHR ''.'' \<notin> set (take k s) \<and> match_pieces ps (drop k s)) [1 ..< Suc (length s)]"

definition regexp_match :: "string \<Rightarrow> string \<Rightarrow> bool option" where
  "regexp_match pattern s = (case pattern of [] \<Rightarrow> None
     | c # cs \<Rightarrow> if c = CHR ''^'' then map_option (\<lambda>ps. match_pieces ps s) (read_pieces cs) else None)"

section \<open>Reading the generated patterns\<close>

text \<open>A suffix without characters of the syntax other than dots, as host names are.\<close>

definition host_text :: "string \<Rightarrow> bool" where
  "host_text s \<longleftrightarrow> (\<forall>c \<in> set s. c = CHR ''.'' \<or> \<not> meta c)"

lemma read_escaped:
  "host_text s \<Longrightarrow> read_pieces (ReplaceAll s (CHR ''.'') [CHR 0x5C, CHR ''.''] @ ''$'') = Some (map Literal s)"
proof (induction s)
  case (Cons c s)
  then have IH: "read_pieces (ReplaceAll s (CHR ''.'') [CHR 0x5C, CHR ''.''] @ ''$'') = Some (map Literal s)"
    by (simp add: host_text_def)
  show ?case
  proof (cases "c = CHR ''.''")
    case True
    then show ?thesis using IH by (simp add: ReplaceAll_def meta_def)
  next
    case False
    then have "\<not> meta c" using Cons.prems by (simp add: host_text_def)
    then have "c \<noteq> CHR ''$''" "c \<noteq> CHR 0x5C" "c \<noteq> CHR ''[''" by (auto simp: meta_def)
    then show ?thesis using IH False \<open>\<not> meta c\<close> by (simp add: ReplaceAll_def)
  qed
qed (simp add: ReplaceAll_def)

lemma match_literals: "match_pieces (map Literal s) t \<longleftrightarrow> t = s"
  by (induction s arbitrary: t) (auto split: list.split)

lemma match_label:
  "match_pieces (NoDots # map Literal (CHR ''.'' # s)) host \<longleftrightarrow>
    (\<exists>label. label \<noteq> [] \<and> CHR ''.'' \<notin> set label \<and> host = label @ CHR ''.'' # s)"
proof
  assume "match_pieces (NoDots # map Literal (CHR ''.'' # s)) host"
  then obtain k where k: "1 \<le> k" "k \<le> length host" "CHR ''.'' \<notin> set (take k host)" "drop k host = CHR ''.'' # s"
    by (auto simp: list_ex_iff match_literals simp flip: list.map)
  then have "host = take k host @ CHR ''.'' # s" "take k host \<noteq> []" by (metis append_take_drop_id) (use k in auto)
  with k(3) show "\<exists>label. label \<noteq> [] \<and> CHR ''.'' \<notin> set label \<and> host = label @ CHR ''.'' # s" by blast
next
  assume "\<exists>label. label \<noteq> [] \<and> CHR ''.'' \<notin> set label \<and> host = label @ CHR ''.'' # s"
  then obtain label where l: "label \<noteq> []" "CHR ''.'' \<notin> set label" "host = label @ CHR ''.'' # s" by blast
  have "match_pieces (map Literal (CHR ''.'' # s)) (drop (length label) host)" unfolding match_literals by (simp add: l)
  moreover have "take (length label) host = label" "1 \<le> length label" "length label < length host"
    using l by (simp_all add: Suc_le_eq)
  ultimately show "match_pieces (NoDots # map Literal (CHR ''.'' # s)) host"
    using l(2) by (auto simp: list_ex_iff intro!: bexI [of _ "length label"])
qed

text \<open>The rule of a wildcard, and what its pattern matches.\<close>

lemma wildcard_rule:
  assumes "host_text suffix"
  obtains pattern where "hostRule (''*.'' @ suffix) = ''HostRegexp(`'' @ pattern @ ''`)''"
    "\<And>host. regexp_match pattern host = Some (\<exists>label. label \<noteq> [] \<and> CHR ''.'' \<notin> set label \<and> host = label @ CHR ''.'' # suffix)"
proof
  let ?p = "''^[^.]+'' @ [CHR 0x5C] @ ''.'' @ ReplaceAll suffix (CHR ''.'') [CHR 0x5C, CHR ''.''] @ ''$''"
  show "hostRule (''*.'' @ suffix) = ''HostRegexp(`'' @ ?p @ ''`)''" by (simp add: hostRule_def)
  have "read_pieces (tl ?p) = Some (NoDots # map Literal (CHR ''.'' # suffix))"
    using read_escaped [OF assms] by (simp add: meta_def)
  then have "regexp_match ?p host = Some (match_pieces (NoDots # map Literal (CHR ''.'' # suffix)) host)" for host
    by (simp add: regexp_match_def)
  then show "regexp_match ?p host = Some (\<exists>label. label \<noteq> [] \<and> CHR ''.'' \<notin> set label \<and> host = label @ CHR ''.'' # suffix)" for host
    unfolding match_label .
qed

lemma exact_rule: "CutPrefix domain ''*.'' = None \<Longrightarrow> hostRule domain = ''Host(`'' @ domain @ ''`)''"
  by (simp add: hostRule_def)

end
