(* ===== verification/ConfigProperties.thy ===== *)
theory ConfigProperties
  imports Samples StoreServed ApiBodies MeshBounds HostPatterns
begin

text \<open>
  The properties of the stored resources (db/resources.go), of the configuration generated
  for Traefik (traefikconfig) and of the message payloads (protocol), each followed by an
  application at a concrete input.
\<close>

section \<open>Stored resources\<close>

text \<open>
  C19. Creating a resource refines adding a key to a map: with every statement served it
  succeeds exactly when the arguments are acceptable, the name is free and every target can
  be stored; then the name stands for exactly the arguments. An error, at whatever
  statement, leaves every resource as it was, and no node or account ever changes.
\<close>

theorem create_refines:
  assumes "db_ok d" "CreateResource name a ts d = (r, d')"
  shows "(r = Inr () \<longrightarrow> acceptable a ts \<and> store_view d name = None \<and> store_view d' = (store_view d)(name \<mapsto> stored a ts))
    \<and> (r \<noteq> Inr () \<longrightarrow> store_view d' = store_view d) \<and> nodes d' = nodes d \<and> users d' = users d
    \<and> (faults d = [] \<longrightarrow> (r = Inr () \<longleftrightarrow> acceptable a ts \<and> store_view d name = None \<and> (\<forall>t \<in> set ts. writable d t)))"
proof (cases r)
  case (Inl e)
  then show ?thesis using CreateResource_unchanged assms(2) CreateResource_served [of d name a ts] by simp
next
  case (Inr u)
  then show ?thesis using CreateResource_refines [OF assms(1)] assms(2) CreateResource_served [of d name a ts]
    by (simp add: accepted_iff)
qed

definition app_args :: ResourceArgs where
  "app_args = \<lparr>a_protocol = ''tcp'', a_domain = None, a_entryPoint = ''db'', a_certResolver = None,
     a_targetScheme = [], a_targetSkipVerify = False, a_sticky = False\<rparr>"

definition app_targets :: "TargetSpec list" where
  "app_targets = [\<lparr>spec_NodeName = ''a'', spec_Address = [], spec_Port = 5432, spec_Role = []\<rparr>]"

lemmas sample_transaction = CreateResource_def UpdateResource_def create_tx_def update_tx_def in_transaction_def
  and_then_def run_statement_served validateTargets_def normalizeTargetScheme_def insert_resource_body_def
  update_resource_body_def clear_targets_body_def insert_target_body_def node_id_body_def insert_one_def
  set_fields_def default_role_def node_named_def app_args_def app_targets_def

lemma create_runs: "fst (CreateResource ''app'' app_args app_targets sample_db) = Inr ()"
  by (simp add: sample_transaction sample_defs protocol_check_def role_check_def in_int4_def target_row_ok_def)

lemma update_runs: "fst (UpdateResource ''web'' app_args app_targets sample_db) = Inr ()"
  by (simp add: sample_transaction sample_defs protocol_check_def role_check_def in_int4_def target_row_ok_def)

theorem create_refines_witness:
  "\<exists>d'. CreateResource ''app'' app_args app_targets sample_db = (Inr (), d')
    \<and> store_view d' ''app'' = Some (app_args\<lparr>a_targetScheme := ''http''\<rparr>, [(Some ''a'', None, 5432, ''primary'')])"
proof -
  obtain d' where run: "CreateResource ''app'' app_args app_targets sample_db = (Inr (), d')"
    using create_runs by (metis prod.collapse)
  from create_refines [OF sample_db_ok this] run show ?thesis
    by (simp add: stored_def app_args_def app_targets_def spec_target_def default_role_def)
qed

text \<open>
  C20. Updating a resource refines replacing the value of a key: with every statement served
  it succeeds exactly when the name is known, the arguments are acceptable and every target
  can be stored; then the name stands for exactly the new arguments and the new target list.
  An error leaves every resource, its old targets included, as it was.
\<close>

theorem update_refines:
  assumes "db_ok d" "UpdateResource name a ts d = (r, d')"
  shows "(r = Inr () \<longrightarrow> acceptable a ts \<and> store_view d name \<noteq> None \<and> store_view d' = (store_view d)(name \<mapsto> stored a ts))
    \<and> (r \<noteq> Inr () \<longrightarrow> store_view d' = store_view d) \<and> nodes d' = nodes d \<and> users d' = users d
    \<and> (faults d = [] \<longrightarrow> (r = Inr () \<longleftrightarrow> acceptable a ts \<and> store_view d name \<noteq> None \<and> (\<forall>t \<in> set ts. writable d t)))"
proof (cases r)
  case (Inl e)
  then show ?thesis using UpdateResource_unchanged assms(2) UpdateResource_served [of d name a ts] by simp
next
  case (Inr u)
  then show ?thesis using UpdateResource_refines [OF assms(1)] assms(2) UpdateResource_served [of d name a ts]
    by (simp add: accepted_iff)
qed

theorem update_refines_witness:
  "\<exists>d'. UpdateResource ''web'' app_args app_targets sample_db = (Inr (), d')
    \<and> store_view d' ''web'' = Some (app_args\<lparr>a_targetScheme := ''http''\<rparr>, [(Some ''a'', None, 5432, ''primary'')])"
proof -
  obtain d' where run: "UpdateResource ''web'' app_args app_targets sample_db = (Inr (), d')"
    using update_runs by (metis prod.collapse)
  from update_refines [OF sample_db_ok this] run show ?thesis
    by (simp add: stored_def app_args_def app_targets_def spec_target_def default_role_def)
qed

text \<open>
  C21. Deleting a resource refines removing a key from the map: with the statement served it
  succeeds exactly when the name is known, and an error leaves every resource as it was.
\<close>

theorem delete_refines:
  assumes "db_ok d" "DeleteResource name d = (r, d')"
  shows "(r = Inr () \<longrightarrow> store_view d name \<noteq> None \<and> store_view d' = (store_view d)(name := None))
    \<and> (r \<noteq> Inr () \<longrightarrow> store_view d' = store_view d) \<and> nodes d' = nodes d \<and> users d' = users d
    \<and> (faults d = [] \<longrightarrow> (r = Inr () \<longleftrightarrow> store_view d name \<noteq> None))"
proof (cases r)
  case (Inl e)
  then show ?thesis using DeleteResource_unchanged assms(2) DeleteResource_served [of d name] by simp
next
  case (Inr u)
  then show ?thesis using DeleteResource_refines [OF assms(1)] assms(2) DeleteResource_served [of d name] by simp
qed

theorem delete_refines_witness:
  "\<exists>d'. DeleteResource ''web'' sample_db = (Inr (), d') \<and> store_view d' ''web'' = None \<and> store_view d' ''ssh'' \<noteq> None"
proof -
  have "fst (DeleteResource ''web'' sample_db) = Inr ()"
    by (simp add: DeleteResource_def run_statement_served delete_resource_body_def) (simp add: sample_defs)
  then obtain d' where run: "DeleteResource ''web'' sample_db = (Inr (), d')" by (metis prod.collapse)
  have "store_view sample_db ''ssh'' \<noteq> None" by (simp add: store_view_None_iff sample_defs)
  with delete_refines [OF sample_db_ok run] run show ?thesis by simp
qed

text \<open>
  C23. The listing is complete: with its query served, \<open>ListResourcesWithTargets\<close> returns
  every resource that has a target, once, in name order, with all of its targets, each
  resolved to its node's current mesh address or to its fixed address.
\<close>

theorem listing_complete:
  assumes "db_ok d" "statement d = (True, d1)"
  shows "ListResourcesWithTargets d
    = (Inr (map (listing d) (filter (\<lambda>r. targets_of d r \<noteq> []) (sort_key res_name (resources d)))), d1)"
  using list_served [OF assms] by (simp add: listed_def)

theorem listing_complete_witness:
  "map r_Name (case fst (ListResourcesWithTargets sample_db) of Inr rs \<Rightarrow> rs | Inl _ \<Rightarrow> []) = [''ssh'', ''web'']"
proof -
  have "statement sample_db = (True, sample_db)" by simp
  from listing_complete [OF sample_db_ok this] show ?thesis
    by (simp add: sample_defs targets_of_def listing_def scan_resource_def)
qed

section \<open>The configuration\<close>

text \<open>
  C24. Traefik is told every stored resource: with the database in order the text of the
  configuration endpoint parses, and under the name of each resource the parsed value has,
  for http, its rule and the URLs of all its targets in the order of their roles, and for
  tcp and udp the address of one of its own targets.
\<close>

theorem traefik_reads:
  assumes "db_ok d" "store_ok d" "faults d = []"
  shows "\<exists>txt v. body_text fmt (rs_body (fst (traefikConfigHandler e rq d))) = Some txt \<and> parse_json txt = Some v
    \<and> (\<forall>r \<in> set (resources d). traefik_finds v d r)"
  using assms by (rule config_read)

theorem traefik_reads_witness:
  "\<exists>txt v. body_text \<lparr>uuid = (\<lambda>_. []), rfc3339 = (\<lambda>_. [])\<rparr> (rs_body (fst (traefikConfigHandler (sample_env 0)
        (sample_request ''GET'' [] [] JNull) sample_db))) = Some txt \<and> parse_json txt = Some v
    \<and> json_at [''http'', ''services'', ''web'', ''loadBalancer'', ''servers''] v = Some (urls [''http://10.0.0.1:8080''])"
proof -
  have "web_row \<in> set (resources sample_db)" by (simp add: sample_db_def)
  moreover have "map (\<lambda>t. ''http://'' @ target_address sample_db t) (sort_key tgt_role (targets_of sample_db web_row))
      = [''http://10.0.0.1:8080'']"
  proof -
    have "digit_char 8 = CHR ''8''" "digit_char 0 = CHR ''0''" by code_simp+
    then have "Itoa 8080 = ''8080''" by (simp add: Itoa_def FormatNat.simps)
    then show ?thesis
      by (simp add: targets_of_def target_address_def resolve_def scan_target_def join_node_def node_by_id_def
          join_address_def sample_defs)
  qed
  moreover have "res_protocol web_row = ''http''" "res_name web_row = ''web''" "res_target_scheme web_row = ''http''"
    by (simp_all add: web_row_def)
  ultimately have "traefik_finds v sample_db web_row \<Longrightarrow>
      json_at [''http'', ''services'', ''web'', ''loadBalancer'', ''servers''] v = Some (urls [''http://10.0.0.1:8080''])" for v
    unfolding traefik_finds_def by simp
  then have found: "\<forall>r \<in> set (resources sample_db). traefik_finds v sample_db r \<Longrightarrow>
      json_at [''http'', ''services'', ''web'', ''loadBalancer'', ''servers''] v = Some (urls [''http://10.0.0.1:8080''])" for v
    using \<open>web_row \<in> set (resources sample_db)\<close> by simp
  from traefik_reads [OF sample_db_ok sample_store_ok sample_faults, of "\<lparr>uuid = (\<lambda>_. []), rfc3339 = (\<lambda>_. [])\<rparr>"
      "sample_env 0" "sample_request ''GET'' [] [] JNull"]
  show ?thesis by (elim exE conjE) (intro exI conjI found; assumption)
qed

text \<open>
  C26. The allocation loop ends soon: it examines consecutive addresses from the one after
  the network address, passes over addresses in use only, and stops after at most one more
  round than there are used addresses, with the address it stopped at or with an error.
\<close>

theorem allocation_ends:
  assumes "ParseCIDR cidr = Inr net"
  shows "\<exists>k \<le> card (set used). let a = (incIP ^^ Suc k) (net_IP net) in
      (\<forall>j < k. let b = (incIP ^^ Suc j) (net_IP net) in net_contains net b \<and> b \<noteq> lastAddr net \<and> IP_String b \<in> set used)
      \<and> AllocateIP cidr used = (if net_contains net a \<and> a \<noteq> lastAddr net then Inr (IP_String a) else Inl (MeshExhausted cidr))"
  using AllocateIP_rounds [OF assms, of used] by (auto simp: passes_def Let_def)

theorem allocation_ends_witness:
  "\<exists>k \<le> 2. AllocateIP ''10.0.0.0/30'' [''10.0.0.1'', ''10.0.0.2''] =
    (let a = (incIP ^^ Suc k) [10, 0, 0, 0] in
     if net_contains \<lparr>net_IP = [10, 0, 0, 0], net_Mask = [255, 255, 255, 252]\<rparr> a
       \<and> a \<noteq> lastAddr \<lparr>net_IP = [10, 0, 0, 0], net_Mask = [255, 255, 255, 252]\<rparr>
     then Inr (IP_String a) else Inl (MeshExhausted ''10.0.0.0/30''))"
proof -
  have "ParseCIDR ''10.0.0.0/30'' = Inr \<lparr>net_IP = [10, 0, 0, 0], net_Mask = [255, 255, 255, 252]\<rparr>" by code_simp
  from allocation_ends [OF this, of "[''10.0.0.1'', ''10.0.0.2'']", unfolded Let_def ipnet.select_convs]
  show ?thesis unfolding Let_def
  proof (elim exE conjE)
    fix k assume "k \<le> card (set [''10.0.0.1'', ''10.0.0.2''])"
    then have "k \<le> 2" by simp
    then show "AllocateIP ''10.0.0.0/30'' [''10.0.0.1'', ''10.0.0.2''] = r k \<Longrightarrow>
        \<exists>k \<le> 2. AllocateIP ''10.0.0.0/30'' [''10.0.0.1'', ''10.0.0.2''] = r k" for r :: "nat \<Rightarrow> _"
      by (intro exI [of _ k] conjI)
  qed
qed

text \<open>
  C27. Failover: of a primary and a backup, in either order, the primary is chosen exactly
  while it is external or its node was seen in the last 45 seconds.
\<close>

theorem failover:
  assumes "t_Role p = ''primary''" "t_Role b = ''backup''" "ts = [p, b] \<or> ts = [b, p]"
  shows "selectMasterBackupTarget now ts = (if t_External p \<or> (\<exists>seen. t_LastSeen p = Some seen \<and> now - seen \<le> 45 * 10 ^ 9)
    then p else b)"
  using select_pair [OF assms, of now] by (simp add: fresh_at_def primaryFreshness_def)

theorem failover_witness:
  "let p = zero_target\<lparr>t_Role := ''primary'', t_LastSeen := Some 0\<rparr>; b = zero_target\<lparr>t_Role := ''backup'', t_External := True\<rparr> in
    selectMasterBackupTarget (45 * 10 ^ 9) [b, p] = p \<and> selectMasterBackupTarget (45 * 10 ^ 9 + 1) [b, p] = b"
proof -
  let ?p = "zero_target\<lparr>t_Role := ''primary'', t_LastSeen := Some 0\<rparr>"
  let ?b = "zero_target\<lparr>t_Role := ''backup'', t_External := True\<rparr>"
  have "selectMasterBackupTarget now [?b, ?p] = (if now \<le> 45 * 10 ^ 9 then ?p else ?b)" for now
    using failover [of ?p ?b "[?b, ?p]" now] by (simp add: zero_target_def)
  then show ?thesis by (simp add: Let_def)
qed

text \<open>
  C28. A wildcard domain is served for the names with one more label and for no others: the
  rule is a pattern, read as the regular expression it is, that matches exactly the names
  made of a label, a dot and the suffix, and no other domain gets the same rule.
\<close>

theorem wildcard_matches:
  assumes "\<forall>c \<in> set suffix. c = CHR ''.'' \<or> \<not> meta c"
  shows "\<exists>pattern. hostRule (''*.'' @ suffix) = ''HostRegexp(`'' @ pattern @ ''`)''
    \<and> (\<forall>host. regexp_match pattern host = Some (\<exists>label. label \<noteq> [] \<and> CHR ''.'' \<notin> set label \<and> host = label @ CHR ''.'' # suffix))
    \<and> (\<forall>domain. hostRule domain = hostRule (''*.'' @ suffix) \<longrightarrow> domain = ''*.'' @ suffix)"
proof -
  have "host_text suffix" using assms by (simp add: host_text_def)
  then obtain pattern where "hostRule (''*.'' @ suffix) = ''HostRegexp(`'' @ pattern @ ''`)''"
    "\<And>host. regexp_match pattern host = Some (\<exists>label. label \<noteq> [] \<and> CHR ''.'' \<notin> set label \<and> host = label @ CHR ''.'' # suffix)"
    using wildcard_rule by blast
  then show ?thesis using hostRule_injective by (intro exI [of _ pattern]) blast
qed

theorem wildcard_matches_witness:
  "\<exists>pattern. hostRule ''*.example.org'' = ''HostRegexp(`'' @ pattern @ ''`)''
    \<and> regexp_match pattern ''www.example.org'' = Some True \<and> regexp_match pattern ''example.org'' = Some False"
proof -
  have "\<forall>c \<in> set ''example.org''. c = CHR ''.'' \<or> \<not> meta c" by (simp add: meta_def)
  from wildcard_matches [OF this] obtain pattern where
    p: "hostRule (''*.'' @ ''example.org'') = ''HostRegexp(`'' @ pattern @ ''`)''" and
    m: "\<And>host. regexp_match pattern host
      = Some (\<exists>label. label \<noteq> [] \<and> CHR ''.'' \<notin> set label \<and> host = label @ CHR ''.'' # ''example.org'')" by blast
  have "''www.example.org'' = ''www'' @ CHR ''.'' # ''example.org''" by simp
  then have yes: "\<exists>label. label \<noteq> [] \<and> CHR ''.'' \<notin> set label \<and> ''www.example.org'' = label @ CHR ''.'' # ''example.org''"
    by (intro exI [of _ "''www''"]) simp
  have "length (label @ CHR ''.'' # ''example.org'') > length ''example.org''" for label by simp
  then have no: "\<not> (\<exists>label. label \<noteq> [] \<and> CHR ''.'' \<notin> set label \<and> ''example.org'' = label @ CHR ''.'' # ''example.org'')"
    by (metis less_irrefl)
  show ?thesis using p by (intro exI [of _ pattern]) (simp only: m yes no append.simps simp_thms)
qed

text \<open>
  C29. The generated configuration is closed, whatever the resources: every router names a
  service of its section, and every transport a service names is defined. And skipping TLS
  verification is scoped: an insecure transport is defined only for a resource that asked
  for it and uses https, and each service names only its own.
\<close>

theorem insecure_scoped:
  assumes "distinct (map r_Name rs)" "r \<in> set rs" "r_Protocol r = ''http''"
  shows "config_closed (Generate now rs')
    \<and> (\<exists>c sv. HTTP (Generate now rs) = Some c \<and> Services c (r_Name r) = Some sv
      \<and> ServersTransport (LoadBalancer sv) = (if insecure r then r_Name r @ ''-insecure'' else [])
      \<and> (\<forall>m. ServersTransports c m \<noteq> None \<longleftrightarrow>
          (\<exists>q \<in> set rs. r_Protocol q = ''http'' \<and> r_TargetScheme q = ''https'' \<and> r_TargetSkipVerify q
             \<and> m = r_Name q @ ''-insecure'')))"
proof -
  obtain c where c: "HTTP (Generate now rs) = Some c" "Services c (r_Name r) = Some (http_service r)"
    using section_lookup(1) [OF assms] by blast
  have "c = foldl (\<lambda>c r. put_http r c) empty_protocol (of_protocol ''http'' rs)"
    using c(1) by (simp add: Generate_sections section_of_def split: if_splits)
  then have "ServersTransports c m \<noteq> None \<longleftrightarrow> (\<exists>q \<in> set rs. r_Protocol q = ''http'' \<and> insecure q \<and> transport_name q = m)" for m
    by (auto simp: foldl_put_transports set_of_protocol)
  moreover have "insecure q \<longleftrightarrow> r_TargetScheme q = ''https'' \<and> r_TargetSkipVerify q" for q
    by (auto simp: insecure_def http_scheme_def)
  ultimately show ?thesis using c Generate_closed by (auto simp: http_service_def transport_name_def)
qed

theorem insecure_scoped_witness:
  "let r = (listing sample_db web_row)\<lparr>r_TargetScheme := ''https'', r_TargetSkipVerify := True\<rparr> in
   \<exists>c sv. HTTP (Generate 0 [r]) = Some c \<and> Services c ''web'' = Some sv
    \<and> ServersTransport (LoadBalancer sv) = ''web-insecure''"
proof -
  let ?r = "(listing sample_db web_row)\<lparr>r_TargetScheme := ''https'', r_TargetSkipVerify := True\<rparr>"
  have r: "r_Name ?r = ''web''" "r_Protocol ?r = ''http''" "insecure ?r"
    by (simp_all add: listing_def scan_resource_def web_row_def insecure_def http_scheme_def)
  then show ?thesis using insecure_scoped [of "[?r]" ?r 0 "[]"] unfolding Let_def by auto
qed

section \<open>Messages\<close>

text \<open>
  C30. What one side marshals the other side decodes to the same payload: registrations with
  a port that a float represents, the answers to them, and peer lists.
\<close>

theorem payload_roundtrips:
  assumes "\<bar>reg_Port p\<bar> < 2 ^ 53"
  shows "DecodePayload register_fields zero_register \<lparr>env_Type = TypeRegister, env_Payload = enc_register p\<rparr> = Some p
    \<and> DecodePayload registered_fields zero_registered \<lparr>env_Type = TypeRegistered, env_Payload = enc_registered q\<rparr> = Some q
    \<and> DecodePayload peer_list_fields zero_peer_list \<lparr>env_Type = TypePeerList, env_Payload = enc_peer_list l\<rparr> = Some l"
  using register_roundtrip [OF assms] registered_roundtrip peer_list_roundtrip by blast

theorem payload_roundtrips_witness:
  "DecodePayload register_fields zero_register
     \<lparr>env_Type = TypeRegister, env_Payload = enc_register (sample_register ''a'' ''ka'')\<rparr> = Some (sample_register ''a'' ''ka'')"
  using payload_roundtrips [of "sample_register ''a'' ''ka''"] by (simp add: sample_register_def)

end
