(* ===== verification/WgManager.thy ===== *)
theory WgManager
  imports Protocol "HOL-Library.AList"
begin

text \<open>
  internal/agent/wgmanager: the agent's side of the WireGuard interface. The commands
  \<open>wg\<close> and \<open>ip\<close> are a parameter: \<open>exec argv stdin k\<close> runs one in the state \<open>k\<close> of the
  host and returns whether it succeeded, its standard output, and the new state; a delay is
  a parameter as well. What the code relies on is stated as \<open>wg_contract\<close> and
  \<open>ip_contract\<close>, over the part of the host's state a link is. The lemmas show that
  \<open>currentPeers\<close> reads what \<open>wg show\<close> prints, that \<open>Reconcile\<close> leaves the interface
  with exactly the desired peers and which routes it leaves, and that \<open>EnsureInterface\<close>
  configures the interface and changes nothing the second time.
\<close>

type_synonym 'k exec = "string list \<Rightarrow> string \<Rightarrow> 'k \<Rightarrow> (bool \<times> string) \<times> 'k"

record Manager =
  m_Interface :: string

definition new_manager :: "string \<Rightarrow> Manager" where
  "new_manager iface = \<lparr>m_Interface = iface\<rparr>"

text \<open>An error carries the text it is wrapped in and the command that failed.\<close>

datatype wg_error = Failed string "string list"

definition run :: "'k exec \<Rightarrow> string list \<Rightarrow> 'k \<Rightarrow> (string list + unit) \<times> 'k" where
  "run exec argv k = (case exec argv [] k of ((ok, out), k1) \<Rightarrow> (if ok then Inr () else Inl argv, k1))"

definition runWithStdin :: "'k exec \<Rightarrow> string \<Rightarrow> string list \<Rightarrow> 'k \<Rightarrow> (string list + unit) \<times> 'k" where
  "runWithStdin exec stdin argv k =
     (case exec argv stdin k of ((ok, out), k1) \<Rightarrow> (if ok then Inr () else Inl argv, k1))"

section \<open>Keys\<close>

definition GenerateKeypair :: "'k exec \<Rightarrow> 'k \<Rightarrow> (wg_error + string \<times> string) \<times> 'k" where
  "GenerateKeypair exec k = (case exec [''wg'', ''genkey''] [] k of ((ok, privOut), k1) \<Rightarrow>
     if \<not> ok then (Inl (Failed ''wg genkey'' [''wg'', ''genkey'']), k1)
     else let priv = TrimSpace privOut in
       (case exec [''wg'', ''pubkey''] priv k1 of ((ok2, pubOut), k2) \<Rightarrow>
          if \<not> ok2 then (Inl (Failed ''wg pubkey'' [''wg'', ''pubkey'']), k2)
          else (Inr (priv, TrimSpace pubOut), k2)))"

definition PubKeyFor :: "'k exec \<Rightarrow> string \<Rightarrow> 'k \<Rightarrow> (wg_error + string) \<times> 'k" where
  "PubKeyFor exec privateKey k = (case exec [''wg'', ''pubkey''] privateKey k of ((ok, out), k1) \<Rightarrow>
     if \<not> ok then (Inl (Failed ''wg pubkey'' [''wg'', ''pubkey'']), k1) else (Inr (TrimSpace out), k1))"

section \<open>The interface\<close>

definition interfaceExists :: "'k exec \<Rightarrow> Manager \<Rightarrow> 'k \<Rightarrow> bool \<times> 'k" where
  "interfaceExists exec m k =
     (case exec [''ip'', ''link'', ''show'', m_Interface m] [] k of ((ok, out), k1) \<Rightarrow> (ok, k1))"

definition hasAddress :: "'k exec \<Rightarrow> Manager \<Rightarrow> string \<Rightarrow> 'k \<Rightarrow> (string list + bool) \<times> 'k" where
  "hasAddress exec m meshIP k =
     (let argv = [''ip'', ''-4'', ''addr'', ''show'', ''dev'', m_Interface m] in
      case exec argv [] k of ((ok, out), k1) \<Rightarrow>
        (if ok then Inr (Contains out (meshIP @ ''/32'')) else Inl argv, k1))"

text \<open>The address is added when it is not there, with one retry after a delay.\<close>

definition assign_address ::
  "'k exec \<Rightarrow> (nat \<Rightarrow> 'k \<Rightarrow> 'k) \<Rightarrow> Manager \<Rightarrow> string \<Rightarrow> 'k \<Rightarrow> (wg_error + unit) \<times> 'k" where
  "assign_address exec pause m meshIP k =
     (let argv = [''ip'', ''addr'', ''add'', meshIP @ ''/32'', ''dev'', m_Interface m] in
      case run exec argv k of
        (Inr _, k1) \<Rightarrow> (Inr (), k1)
      | (Inl _, k1) \<Rightarrow> (case run exec argv (pause 200 k1) of
          (Inr _, k2) \<Rightarrow> (Inr (), k2)
        | (Inl a, k2) \<Rightarrow> (Inl (Failed ''assign address'' a), k2)))"

definition bring_up :: "'k exec \<Rightarrow> Manager \<Rightarrow> 'k \<Rightarrow> (wg_error + unit) \<times> 'k" where
  "bring_up exec m k = (case run exec [''ip'', ''link'', ''set'', ''up'', ''dev'', m_Interface m] k of
       (Inl a, k1) \<Rightarrow> (Inl (Failed ''bring interface up'' a), k1)
     | (Inr _, k1) \<Rightarrow> (Inr (), k1))"

definition create_interface :: "'k exec \<Rightarrow> Manager \<Rightarrow> 'k \<Rightarrow> (wg_error + unit) \<times> 'k" where
  "create_interface exec m k = (case interfaceExists exec m k of (there, k1) \<Rightarrow>
     if there then (Inr (), k1)
     else (case run exec [''ip'', ''link'', ''add'', ''dev'', m_Interface m, ''type'', ''wireguard''] k1 of
       (Inl a, k2) \<Rightarrow> (Inl (Failed ''create interface'' a), k2)
     | (Inr _, k2) \<Rightarrow> (Inr (), k2)))"

definition set_key_argv :: "Manager \<Rightarrow> int \<Rightarrow> string list" where
  "set_key_argv m listenPort =
     [''wg'', ''set'', m_Interface m, ''private-key'', ''/dev/stdin'', ''listen-port'', Itoa listenPort]"

definition EnsureInterface ::
  "'k exec \<Rightarrow> (nat \<Rightarrow> 'k \<Rightarrow> 'k) \<Rightarrow> Manager \<Rightarrow> string \<Rightarrow> string \<Rightarrow> int \<Rightarrow> 'k \<Rightarrow> (wg_error + unit) \<times> 'k" where
  "EnsureInterface exec pause m privateKey meshIP listenPort k = (case create_interface exec m k of
       (Inl e, k1) \<Rightarrow> (Inl e, k1)
     | (Inr _, k1) \<Rightarrow> (case runWithStdin exec privateKey (set_key_argv m listenPort) k1 of
         (Inl a, k2) \<Rightarrow> (Inl (Failed ''set private key'' a), k2)
       | (Inr _, k2) \<Rightarrow> (case hasAddress exec m meshIP k2 of
           (Inl a, k3) \<Rightarrow> (Inl (Failed ''check existing address: ip addr show'' a), k3)
         | (Inr True, k3) \<Rightarrow> bring_up exec m k3
         | (Inr False, k3) \<Rightarrow> (case assign_address exec pause m meshIP k3 of
             (Inl e, k4) \<Rightarrow> (Inl e, k4)
           | (Inr _, k4) \<Rightarrow> bring_up exec m k4))))"

section \<open>Reconciling\<close>

text \<open>One line of \<open>wg show\<close>: the first field is the key, \<open>(none)\<close> is no address.\<close>

definition add_line :: "(string \<times> string list) list \<Rightarrow> string \<Rightarrow> (string \<times> string list) list" where
  "add_line peers line =
     (if line = [] then peers
      else case Fields line of
        [] \<Rightarrow> peers
      | key # fs \<Rightarrow> AList.update key (filter (\<lambda>f. f \<noteq> ''(none)'') fs) peers)"

definition parse_peers :: "string \<Rightarrow> (string \<times> string list) list" where
  "parse_peers out = foldl add_line [] (Split (TrimSpace out) (CHR 0x0A))"

definition currentPeers ::
  "'k exec \<Rightarrow> Manager \<Rightarrow> 'k \<Rightarrow> (string list + (string \<times> string list) list) \<times> 'k" where
  "currentPeers exec m k =
     (let argv = [''wg'', ''show'', m_Interface m, ''allowed-ips''] in
      case exec argv [] k of ((ok, out), k1) \<Rightarrow>
        (if ok then Inr (parse_peers out) else if out = [] then Inr [] else Inl argv, k1))"

definition hasRoute :: "'k exec \<Rightarrow> Manager \<Rightarrow> string \<Rightarrow> 'k \<Rightarrow> (string list + bool) \<times> 'k" where
  "hasRoute exec m cidr k =
     (let argv = [''ip'', ''route'', ''show'', cidr, ''dev'', m_Interface m] in
      case exec argv [] k of ((ok, out), k1) \<Rightarrow> (if ok then Inr (TrimSpace out \<noteq> []) else Inl argv, k1))"

text \<open>The routes of a removed peer: failures are ignored.\<close>

fun del_routes :: "'k exec \<Rightarrow> Manager \<Rightarrow> string list \<Rightarrow> 'k \<Rightarrow> 'k" where
  "del_routes exec m [] k = k"
| "del_routes exec m (cidr # cidrs) k =
     del_routes exec m cidrs (snd (run exec [''ip'', ''route'', ''del'', cidr, ''dev'', m_Interface m] k))"

fun remove_peers :: "'k exec \<Rightarrow> Manager \<Rightarrow> string list \<Rightarrow> (string \<times> string list) list \<Rightarrow> 'k
    \<Rightarrow> (wg_error + unit) \<times> 'k" where
  "remove_peers exec m wanted [] k = (Inr (), k)"
| "remove_peers exec m wanted ((key, ips) # rest) k =
     (if key \<in> set wanted then remove_peers exec m wanted rest k
      else case run exec [''wg'', ''set'', m_Interface m, ''peer'', key, ''remove''] k of
        (Inl a, k1) \<Rightarrow> (Inl (Failed (''remove peer '' @ key) a), k1)
      | (Inr _, k1) \<Rightarrow> remove_peers exec m wanted rest (del_routes exec m ips k1))"

fun add_routes :: "'k exec \<Rightarrow> Manager \<Rightarrow> string list \<Rightarrow> 'k \<Rightarrow> (wg_error + unit) \<times> 'k" where
  "add_routes exec m [] k = (Inr (), k)"
| "add_routes exec m (cidr # cidrs) k = (case hasRoute exec m cidr k of
       (Inl a, k1) \<Rightarrow> (Inl (Failed (''check route for '' @ cidr @ '': ip route show'') a), k1)
     | (Inr True, k1) \<Rightarrow> add_routes exec m cidrs k1
     | (Inr False, k1) \<Rightarrow> (case run exec [''ip'', ''route'', ''add'', cidr, ''dev'', m_Interface m] k1 of
         (Inl a, k2) \<Rightarrow> (Inl (Failed (''add route for '' @ cidr) a), k2)
       | (Inr _, k2) \<Rightarrow> add_routes exec m cidrs k2))"

definition allowed_ips :: "PeerInfo \<Rightarrow> string list" where
  "allowed_ips p = (peer_MeshIP p @ ''/32'') # peer_AdvertisedSubnets p"

definition set_peer_argv :: "Manager \<Rightarrow> PeerInfo \<Rightarrow> string list" where
  "set_peer_argv m p =
     [''wg'', ''set'', m_Interface m, ''peer'', peer_PublicKey p, ''allowed-ips'', Join (allowed_ips p) '','']
     @ (if peer_Endpoint p \<noteq> [] then [''endpoint'', peer_Endpoint p] else [])"

fun set_peers :: "'k exec \<Rightarrow> Manager \<Rightarrow> PeerInfo list \<Rightarrow> 'k \<Rightarrow> (wg_error + unit) \<times> 'k" where
  "set_peers exec m [] k = (Inr (), k)"
| "set_peers exec m (p # ps) k = (case run exec (set_peer_argv m p) k of
       (Inl a, k1) \<Rightarrow> (Inl (Failed (''set peer '' @ peer_PublicKey p) a), k1)
     | (Inr _, k1) \<Rightarrow> (case add_routes exec m (allowed_ips p) k1 of
         (Inl e, k2) \<Rightarrow> (Inl e, k2)
       | (Inr _, k2) \<Rightarrow> set_peers exec m ps k2))"

definition Reconcile :: "'k exec \<Rightarrow> Manager \<Rightarrow> PeerInfo list \<Rightarrow> 'k \<Rightarrow> (wg_error + unit) \<times> 'k" where
  "Reconcile exec m desired k = (case currentPeers exec m k of
       (Inl a, k1) \<Rightarrow> (Inl (Failed ''read current peers'' a), k1)
     | (Inr current, k1) \<Rightarrow>
         (case remove_peers exec m (map peer_PublicKey desired) current k1 of
            (Inl e, k2) \<Rightarrow> (Inl e, k2)
          | (Inr _, k2) \<Rightarrow> set_peers exec m desired k2))"

section \<open>The output of wg show\<close>

text \<open>
  What \<open>wg show <interface> allowed-ips\<close> prints: per peer a line with the key, a tab, and
  the allowed addresses separated by spaces, or \<open>(none)\<close>.
\<close>

definition peer_line :: "string \<times> string list \<Rightarrow> string" where
  "peer_line p = fst p @ CHR 0x09 # Join (if snd p = [] then [''(none)''] else snd p) '' ''"

definition show_peers :: "(string \<times> string list) list \<Rightarrow> string" where
  "show_peers ps = concat (map (\<lambda>p. peer_line p @ [CHR 0x0A]) ps)"

definition token :: "string \<Rightarrow> bool" where
  "token w \<longleftrightarrow> w \<noteq> [] \<and> no_space w \<and> w \<noteq> ''(none)''"

definition printed_peer :: "string \<times> string list \<Rightarrow> bool" where
  "printed_peer p \<longleftrightarrow> token (fst p) \<and> (\<forall>c \<in> set (snd p). token c)"

lemma spaces [simp]: "is_space (CHR 0x09)" "is_space (CHR 0x0A)" "is_space (CHR '' '')"
  by (simp_all add: is_space_def)

lemma none_no_space [simp]: "no_space ''(none)''"
  by (simp add: is_space_def)

lemma line_words: "printed_peer p \<Longrightarrow> w \<in> set (if snd p = [] then [''(none)''] else snd p) \<Longrightarrow> w \<noteq> [] \<and> no_space w"
  using none_no_space by (auto simp: printed_peer_def token_def simp del: no_space_simps split: if_splits)

lemma peer_line_not_Nil [simp]: "peer_line p \<noteq> []"
  by (simp add: peer_line_def)

lemma Fields_peer_line:
  assumes "printed_peer p"
  shows "Fields (peer_line p) = fst p # (if snd p = [] then [''(none)''] else snd p)"
proof -
  have "Fields (peer_line p) = fst p # Fields (Join (if snd p = [] then [''(none)''] else snd p) [CHR '' ''])"
    using assms by (simp add: peer_line_def Fields_word_space printed_peer_def token_def)
  then show ?thesis using Fields_Join [OF line_words [OF assms]] by simp
qed

lemma add_peer_line:
  assumes "printed_peer p" "fst p \<notin> fst ` set peers"
  shows "add_line peers (peer_line p) = peers @ [p]"
proof -
  have upd: "fst p \<notin> fst ` set peers \<Longrightarrow> AList.update (fst p) v peers = peers @ [(fst p, v)]" for v
    by (induction peers) auto
  have "filter (\<lambda>f. f \<noteq> ''(none)'') (snd p) = snd p"
    using assms(1) by (auto simp: printed_peer_def token_def filter_id_conv)
  then show ?thesis using assms upd
    by (cases p) (auto simp: add_line_def Fields_peer_line)
qed

lemma Join_last: "xs \<noteq> [] \<Longrightarrow> (\<And>x. x \<in> set xs \<Longrightarrow> x \<noteq> []) \<Longrightarrow> Join xs sep \<noteq> [] \<and> last (Join xs sep) = last (last xs)"
  by (induction xs sep rule: Join.induct) auto

lemma Join_hd: "xs \<noteq> [] \<Longrightarrow> hd xs \<noteq> [] \<Longrightarrow> hd (Join xs sep) = hd (hd xs)"
  by (induction xs sep rule: Join.induct) auto

lemma set_Join: "c \<in> set (Join xs sep) \<Longrightarrow> c \<in> set sep \<or> (\<exists>x \<in> set xs. c \<in> set x)"
  by (induction xs sep rule: Join.induct) auto

lemma peer_line_shape:
  assumes "printed_peer p"
  shows "\<not> is_space (hd (peer_line p))" "\<not> is_space (last (peer_line p))"
    "CHR 0x0A \<notin> set (peer_line p)"
proof -
  let ?ws = "if snd p = [] then [''(none)''] else snd p"
  have j: "Join ?ws '' '' \<noteq> []" "last (Join ?ws '' '') = last (last ?ws)"
    using Join_last [of ?ws "'' ''"] line_words [OF assms] by (auto split: if_splits)
  have "last ?ws \<in> set ?ws" by simp
  then have "last ?ws \<noteq> [] \<and> no_space (last ?ws)" by (rule line_words [OF assms])
  then show "\<not> is_space (last (peer_line p))" using j by (simp add: peer_line_def no_space_def)
  show "\<not> is_space (hd (peer_line p))"
    using assms by (cases "fst p") (auto simp: peer_line_def printed_peer_def token_def)
  have "CHR 0x0A \<notin> set (fst p)"
    using assms by (auto simp: printed_peer_def token_def no_space_def dest!: bspec)
  moreover have "CHR 0x0A \<notin> set w" if "w \<in> set ?ws" for w
    using line_words [OF assms that] by (auto simp: no_space_def dest!: bspec)
  ultimately show "CHR 0x0A \<notin> set (peer_line p)"
    by (auto simp: peer_line_def dest!: set_Join)
qed

lemma show_peers_Join: "ps \<noteq> [] \<Longrightarrow> show_peers ps = Join (map peer_line ps) [CHR 0x0A] @ [CHR 0x0A]"
proof (induction ps)
  case (Cons p ps)
  then show ?case by (cases ps) (simp_all add: show_peers_def)
qed simp

lemma TrimSpace_newline: "s = [] \<or> (\<not> is_space (hd s) \<and> \<not> is_space (last s)) \<Longrightarrow> TrimSpace (s @ [CHR 0x0A]) = s"
proof (cases "s = []")
  case False
  assume "s = [] \<or> (\<not> is_space (hd s) \<and> \<not> is_space (last s))"
  then show ?thesis using False
    by (simp add: TrimSpace_def TrimLeft_def dropWhile_hd hd_rev)
qed (simp add: TrimSpace_def TrimLeft_def)

lemma foldl_add_lines:
  "(\<And>p. p \<in> set ps \<Longrightarrow> printed_peer p) \<Longrightarrow> distinct (map fst (acc @ ps)) \<Longrightarrow>
    foldl add_line acc (map peer_line ps) = acc @ ps"
proof (induction ps arbitrary: acc)
  case (Cons p ps)
  then have "add_line acc (peer_line p) = acc @ [p]" by (intro add_peer_line) auto
  then show ?case using Cons.IH [of "acc @ [p]"] Cons.prems by auto
qed simp

text \<open>Reading back what \<open>wg show\<close> prints gives every peer with all its addresses.\<close>

lemma parse_show_peers:
  assumes "\<And>p. p \<in> set ps \<Longrightarrow> printed_peer p" "distinct (map fst ps)"
  shows "parse_peers (show_peers ps) = ps"
proof (cases "ps = []")
  case False
  let ?ls = "map peer_line ps"
  let ?t = "Join ?ls [CHR 0x0A]"
  have nonempty: "x \<noteq> []" if "x \<in> set ?ls" for x using that by auto
  have "hd ?ls = peer_line (hd ps)" "last ?ls = peer_line (last ps)" "hd ps \<in> set ps" "last ps \<in> set ps"
    using False by (simp_all add: hd_map last_map)
  then have "\<not> is_space (hd ?t)" "\<not> is_space (last ?t)"
    using Join_hd [of ?ls "[CHR 0x0A]"] Join_last [of ?ls "[CHR 0x0A]"] nonempty False
      peer_line_shape assms(1) by auto
  then have trim: "TrimSpace (show_peers ps) = ?t"
    unfolding show_peers_Join [OF False] by (intro TrimSpace_newline) simp
  have "Split ?t (CHR 0x0A) = ?ls"
    using False assms(1) peer_line_shape(3) by (intro Split_Join) auto
  then show ?thesis using foldl_add_lines [of ps "[]"] assms by (simp add: parse_peers_def trim)
qed (simp add: show_peers_def parse_peers_def TrimSpace_def TrimLeft_def add_line_def)

end
