(* ===== verification/WgContract.thy ===== *)
theory WgContract
  imports WgManager
begin

text \<open>
  What the agent relies on of \<open>wg\<close> and \<open>ip\<close>, and what it then achieves. A \<open>link\<close> is the
  state of one WireGuard interface: its peers with their allowed addresses and endpoints,
  its addresses and the routes through it. \<open>wg_contract\<close> states the documented behaviour
  of the commands \<open>Reconcile\<close> issues, \<open>ip_contract\<close> that of the ones
  \<open>EnsureInterface\<close> issues, on the arguments the tools accept (\<open>wg_args\<close>).
\<close>

record link =
  lk_exists :: bool
  lk_up :: bool
  lk_key :: "string option"
  lk_port :: "string option"
  lk_addrs :: "string set"
  lk_peers :: "string \<rightharpoonup> string set \<times> string option"
  lk_routes :: "string set"

record wg_args =
  ok_key :: "string \<Rightarrow> bool"
  ok_cidr :: "string \<Rightarrow> bool"
  ok_endpoint :: "string \<Rightarrow> bool"

section \<open>The documented behaviour\<close>

text \<open>A command that succeeds wherever \<open>pre\<close> holds and changes the link by \<open>f\<close>.\<close>

definition effect :: "'k exec \<Rightarrow> ('k \<Rightarrow> link) \<Rightarrow> string list \<Rightarrow> string \<Rightarrow> (link \<Rightarrow> bool) \<Rightarrow> (link \<Rightarrow> link) \<Rightarrow> bool" where
  "effect exec view argv stdin pre f \<longleftrightarrow> (\<forall>k. pre (view k) \<longrightarrow>
     fst (fst (exec argv stdin k)) \<and> view (snd (exec argv stdin k)) = f (view k))"

definition without_peer :: "string \<Rightarrow> link \<Rightarrow> link" where
  "without_peer key l = l\<lparr>lk_peers := (lk_peers l)(key := None)\<rparr>"

text \<open>
  Setting a peer's allowed addresses takes them from every other peer (each address routes
  to one peer); without an endpoint argument the peer keeps the endpoint it has.
\<close>

definition with_peer :: "string \<Rightarrow> string set \<Rightarrow> string option \<Rightarrow> link \<Rightarrow> link" where
  "with_peer key ips ep l = l\<lparr>lk_peers := (\<lambda>k.
     if k = key then Some (ips, (case ep of Some e \<Rightarrow> Some e | None \<Rightarrow> Option.bind (lk_peers l key) snd))
     else map_option (\<lambda>(i, e). (i - ips, e)) (lk_peers l k))\<rparr>"

definition lists_peers :: "(string \<times> string list) list \<Rightarrow> link \<Rightarrow> bool" where
  "lists_peers ps l \<longleftrightarrow> distinct (map fst ps)
     \<and> (\<forall>key. map_option set (map_of ps key) = map_option fst (lk_peers l key))"

definition shows_peers :: "string \<Rightarrow> wg_args \<Rightarrow> 'k exec \<Rightarrow> ('k \<Rightarrow> link) \<Rightarrow> bool" where
  "shows_peers i A exec view \<longleftrightarrow> (\<forall>k. lk_exists (view k) \<longrightarrow>
     (\<exists>ps ok k'. exec [''wg'', ''show'', i, ''allowed-ips''] [] k = ((ok, show_peers ps), k') \<and> view k' = view k
        \<and> lists_peers ps (view k) \<and> (ok \<or> ps = [])
        \<and> (\<forall>(key, ips) \<in> set ps. token key \<and> (\<forall>c \<in> set ips. token c \<and> ok_cidr A c))))"

definition sets_peers :: "string \<Rightarrow> wg_args \<Rightarrow> 'k exec \<Rightarrow> ('k \<Rightarrow> link) \<Rightarrow> bool" where
  "sets_peers i A exec view \<longleftrightarrow>
     (\<forall>key. effect exec view [''wg'', ''set'', i, ''peer'', key, ''remove''] []
        (\<lambda>l. lk_exists l \<and> key \<in> dom (lk_peers l)) (without_peer key)) \<and>
     (\<forall>key ips. ok_key A key \<and> (\<forall>c \<in> set ips. ok_cidr A c) \<and> ips \<noteq> [] \<longrightarrow>
        effect exec view [''wg'', ''set'', i, ''peer'', key, ''allowed-ips'', Join ips '','']
          [] lk_exists (with_peer key (set ips) None) \<and>
        (\<forall>ep. ok_endpoint A ep \<longrightarrow>
          effect exec view [''wg'', ''set'', i, ''peer'', key, ''allowed-ips'', Join ips '','', ''endpoint'', ep]
            [] lk_exists (with_peer key (set ips) (Some ep))))"

text \<open>
  A route is shown by a line of output; one is added when the link is up; deleting one that
  is not there fails and changes nothing.
\<close>

definition keeps_routes :: "string \<Rightarrow> wg_args \<Rightarrow> 'k exec \<Rightarrow> ('k \<Rightarrow> link) \<Rightarrow> bool" where
  "keeps_routes i A exec view \<longleftrightarrow> (\<forall>c. ok_cidr A c \<longrightarrow>
     (\<forall>k. lk_exists (view k) \<longrightarrow>
        (\<exists>out k'. exec [''ip'', ''route'', ''show'', c, ''dev'', i] [] k = ((True, out), k') \<and> view k' = view k
          \<and> (TrimSpace out \<noteq> [] \<longleftrightarrow> c \<in> lk_routes (view k)))) \<and>
     effect exec view [''ip'', ''route'', ''add'', c, ''dev'', i] []
       (\<lambda>l. lk_exists l \<and> lk_up l \<and> c \<notin> lk_routes l) (\<lambda>l. l\<lparr>lk_routes := insert c (lk_routes l)\<rparr>) \<and>
     (\<forall>k. lk_exists (view k) \<longrightarrow> view (snd (exec [''ip'', ''route'', ''del'', c, ''dev'', i] [] k))
        = (view k)\<lparr>lk_routes := lk_routes (view k) - {c}\<rparr>))"

definition wg_contract :: "string \<Rightarrow> wg_args \<Rightarrow> 'k exec \<Rightarrow> ('k \<Rightarrow> link) \<Rightarrow> bool" where
  "wg_contract i A exec view \<longleftrightarrow>
     shows_peers i A exec view \<and> sets_peers i A exec view \<and> keeps_routes i A exec view"

section \<open>Each step of Reconcile\<close>

lemma snd_run [simp]: "snd (run exec argv k) = snd (exec argv [] k)"
  by (simp add: run_def split: prod.split)

lemma run_effect:
  assumes "effect exec view argv [] pre f" "pre (view k)"
  shows "\<exists>k'. run exec argv k = (Inr (), k') \<and> view k' = f (view k)"
  using assms by (cases "exec argv [] k") (auto simp: effect_def run_def)

lemma currentPeers_contract:
  assumes "wg_contract i A exec view" "m_Interface m = i" "lk_exists (view k)"
  obtains ps k' where "currentPeers exec m k = (Inr ps, k')" "view k' = view k" "lists_peers ps (view k)"
    "\<And>key ips c. (key, ips) \<in> set ps \<Longrightarrow> c \<in> set ips \<Longrightarrow> ok_cidr A c"
proof -
  from assms have "\<exists>ps ok k'. exec [''wg'', ''show'', i, ''allowed-ips''] [] k = ((ok, show_peers ps), k')
      \<and> view k' = view k \<and> lists_peers ps (view k) \<and> (ok \<or> ps = [])
      \<and> (\<forall>(key, ips) \<in> set ps. token key \<and> (\<forall>c \<in> set ips. token c \<and> ok_cidr A c))"
    by (simp add: wg_contract_def shows_peers_def)
  then obtain ps ok k' where ps: "exec [''wg'', ''show'', i, ''allowed-ips''] [] k = ((ok, show_peers ps), k')"
    "view k' = view k" "lists_peers ps (view k)" "ok \<or> ps = []"
    "\<forall>(key, ips) \<in> set ps. token key \<and> (\<forall>c \<in> set ips. token c \<and> ok_cidr A c)" by blast
  have "parse_peers (show_peers ps) = ps"
    using ps(3,5) by (intro parse_show_peers) (auto simp: printed_peer_def lists_peers_def)
  then have "currentPeers exec m k = (Inr ps, k')"
    using ps(1,4) assms(2) by (auto simp: currentPeers_def show_peers_def)
  then show thesis using that [OF _ ps(2,3)] ps(5) by blast
qed

lemma del_routes_contract:
  assumes "wg_contract i A exec view" "m_Interface m = i"
  shows "lk_exists (view k) \<Longrightarrow> (\<forall>c \<in> set cs. ok_cidr A c) \<Longrightarrow>
    view (del_routes exec m cs k) = (view k)\<lparr>lk_routes := lk_routes (view k) - set cs\<rparr>"
proof (induction cs arbitrary: k)
  case (Cons c cs)
  define k1 where "k1 = snd (run exec [''ip'', ''route'', ''del'', c, ''dev'', i] k)"
  have k1: "view k1 = (view k)\<lparr>lk_routes := lk_routes (view k) - {c}\<rparr>"
    using assms(1) Cons.prems by (simp add: k1_def wg_contract_def keeps_routes_def)
  have "view (del_routes exec m cs k1) = (view k1)\<lparr>lk_routes := lk_routes (view k1) - set cs\<rparr>"
    using Cons.prems by (intro Cons.IH) (simp_all add: k1)
  moreover have "lk_routes (view k) - {c} - set cs = lk_routes (view k) - set (c # cs)" by auto
  moreover have "del_routes exec m (c # cs) k = del_routes exec m cs k1" using assms(2) by (simp add: k1_def)
  ultimately show ?case by (simp add: k1)
qed simp

lemma add_routes_contract:
  assumes "wg_contract i A exec view" "m_Interface m = i"
  shows "lk_exists (view k) \<Longrightarrow> lk_up (view k) \<Longrightarrow> (\<forall>c \<in> set cs. ok_cidr A c) \<Longrightarrow>
    \<exists>k'. add_routes exec m cs k = (Inr (), k') \<and> view k' = (view k)\<lparr>lk_routes := lk_routes (view k) \<union> set cs\<rparr>"
proof (induction cs arbitrary: k)
  case (Cons c cs)
  have c: "ok_cidr A c" "\<forall>c \<in> set cs. ok_cidr A c" using Cons.prems by simp_all
  have routes: "keeps_routes i A exec view" using assms(1) by (simp add: wg_contract_def)
  obtain out k1 where shown: "exec [''ip'', ''route'', ''show'', c, ''dev'', i] [] k = ((True, out), k1)"
    "view k1 = view k" "TrimSpace out \<noteq> [] \<longleftrightarrow> c \<in> lk_routes (view k)"
    using routes c(1) Cons.prems(1) unfolding keeps_routes_def by blast
  have has: "hasRoute exec m c k = (Inr (c \<in> lk_routes (view k)), k1)"
    using shown assms(2) by (simp add: hasRoute_def)
  show ?case
  proof (cases "c \<in> lk_routes (view k)")
    case True
    have "\<exists>k'. add_routes exec m cs k1 = (Inr (), k') \<and> view k' = (view k1)\<lparr>lk_routes := lk_routes (view k1) \<union> set cs\<rparr>"
      using Cons.prems shown(2) c(2) by (intro Cons.IH) simp_all
    then show ?thesis using has True shown(2) by (simp add: insert_absorb)
  next
    case False
    have "effect exec view [''ip'', ''route'', ''add'', c, ''dev'', i] []
       (\<lambda>l. lk_exists l \<and> lk_up l \<and> c \<notin> lk_routes l) (\<lambda>l. l\<lparr>lk_routes := insert c (lk_routes l)\<rparr>)"
      using routes c(1) unfolding keeps_routes_def by blast
    from run_effect [OF this, of k1] obtain k2 where add: "run exec [''ip'', ''route'', ''add'', c, ''dev'', i] k1 = (Inr (), k2)"
      "view k2 = (view k)\<lparr>lk_routes := insert c (lk_routes (view k))\<rparr>"
      using Cons.prems shown(2) False by auto
    have "\<exists>k'. add_routes exec m cs k2 = (Inr (), k') \<and> view k' = (view k2)\<lparr>lk_routes := lk_routes (view k2) \<union> set cs\<rparr>"
      using Cons.prems add(2) c(2) by (intro Cons.IH) simp_all
    then show ?thesis using has False add assms(2) by simp
  qed
qed simp

text \<open>Removing every unwanted peer of a listing, with its routes.\<close>

definition dropped :: "string list \<Rightarrow> (string \<times> string list) list \<Rightarrow> string set" where
  "dropped wanted ps = \<Union> ((set \<circ> snd) ` {p \<in> set ps. fst p \<notin> set wanted})"

lemma remove_peers_contract:
  assumes "wg_contract i A exec view" "m_Interface m = i"
  shows "lk_exists (view k) \<Longrightarrow> distinct (map fst ps) \<Longrightarrow>
    (\<forall>(key, ips) \<in> set ps. (\<forall>c \<in> set ips. ok_cidr A c) \<and> (key \<in> set wanted \<or> key \<in> dom (lk_peers (view k)))) \<Longrightarrow>
    \<exists>k'. remove_peers exec m wanted ps k = (Inr (), k')
      \<and> view k' = (view k)\<lparr>lk_peers := lk_peers (view k) |` (- (fst ` set ps - set wanted)),
          lk_routes := lk_routes (view k) - dropped wanted ps\<rparr>"
proof (induction ps arbitrary: k)
  case Nil
  then show ?case by (simp add: dropped_def)
next
  case (Cons p ps)
  obtain key ips where p: "p = (key, ips)" by (cases p)
  show ?case
  proof (cases "key \<in> set wanted")
    case True
    moreover have "insert key (fst ` set ps) - set wanted = fst ` set ps - set wanted"
      "dropped wanted ((key, ips) # ps) = dropped wanted ps" using True by (auto simp: dropped_def)
    ultimately show ?thesis using Cons.IH [of k] Cons.prems by (simp add: p)
  next
    case False
    have "effect exec view [''wg'', ''set'', i, ''peer'', key, ''remove''] []
        (\<lambda>l. lk_exists l \<and> key \<in> dom (lk_peers l)) (without_peer key)"
      using assms(1) by (simp add: wg_contract_def sets_peers_def)
    from run_effect [OF this, of k] obtain k1 where k1: "run exec [''wg'', ''set'', i, ''peer'', key, ''remove''] k = (Inr (), k1)"
      "view k1 = without_peer key (view k)" using Cons.prems False by (auto simp: p)
    let ?k2 = "del_routes exec m ips k1"
    have k2: "view ?k2 = (view k1)\<lparr>lk_routes := lk_routes (view k1) - set ips\<rparr>"
      using Cons.prems k1(2) by (intro del_routes_contract [OF assms]) (simp_all add: p without_peer_def)
    have "\<exists>k'. remove_peers exec m wanted ps ?k2 = (Inr (), k')
      \<and> view k' = (view ?k2)\<lparr>lk_peers := lk_peers (view ?k2) |` (- (fst ` set ps - set wanted)),
          lk_routes := lk_routes (view ?k2) - dropped wanted ps\<rparr>"
    proof (intro Cons.IH)
      have prem: "(\<forall>c \<in> set b. ok_cidr A c) \<and> (a \<in> set wanted \<or> a \<in> dom (lk_peers (view k)))" "a \<noteq> key"
        if "(a, b) \<in> set ps" for a b using that Cons.prems by (auto simp: p image_iff)
      show "\<forall>(a, b) \<in> set ps. (\<forall>c \<in> set b. ok_cidr A c) \<and> (a \<in> set wanted \<or> a \<in> dom (lk_peers (view ?k2)))"
        using prem by (auto simp: k2 k1(2) without_peer_def) (metis domD)
    qed (use Cons.prems in \<open>simp_all add: k2 k1(2) without_peer_def p\<close>)
    moreover have "(lk_peers (view k))(key := None) |` (- (fst ` set ps - set wanted))
        = lk_peers (view k) |` (- (insert key (fst ` set ps) - set wanted))"
      using False by (auto simp: restrict_map_def fun_eq_iff)
    moreover have "lk_routes (view k) - set ips - dropped wanted ps = lk_routes (view k) - dropped wanted ((key, ips) # ps)"
      using False by (auto simp: dropped_def)
    ultimately show ?thesis using False k1 k2 assms(2) by (simp add: p without_peer_def)
  qed
qed

text \<open>Setting one desired peer: its addresses, its endpoint, its routes.\<close>

definition good_peer :: "wg_args \<Rightarrow> PeerInfo \<Rightarrow> bool" where
  "good_peer A p \<longleftrightarrow> ok_key A (peer_PublicKey p) \<and> (\<forall>c \<in> set (allowed_ips p). ok_cidr A c)
     \<and> (peer_Endpoint p = [] \<or> ok_endpoint A (peer_Endpoint p))"

definition endpoint_arg :: "PeerInfo \<Rightarrow> string option" where
  "endpoint_arg p = (if peer_Endpoint p = [] then None else Some (peer_Endpoint p))"

definition configure :: "link \<Rightarrow> PeerInfo \<Rightarrow> link" where
  "configure l p = (let l1 = with_peer (peer_PublicKey p) (set (allowed_ips p)) (endpoint_arg p) l in
     l1\<lparr>lk_routes := lk_routes l1 \<union> set (allowed_ips p)\<rparr>)"

lemma set_peer_effect:
  assumes "wg_contract i A exec view" "m_Interface m = i" "good_peer A p"
  shows "effect exec view (set_peer_argv m p) [] lk_exists
    (with_peer (peer_PublicKey p) (set (allowed_ips p)) (endpoint_arg p))"
proof -
  have "ok_key A (peer_PublicKey p) \<and> (\<forall>c \<in> set (allowed_ips p). ok_cidr A c) \<and> allowed_ips p \<noteq> []"
    using assms(3) by (simp add: good_peer_def allowed_ips_def)
  then have "effect exec view [''wg'', ''set'', i, ''peer'', peer_PublicKey p, ''allowed-ips'', Join (allowed_ips p) '','']
          [] lk_exists (with_peer (peer_PublicKey p) (set (allowed_ips p)) None)"
    "ok_endpoint A ep \<Longrightarrow> effect exec view
      [''wg'', ''set'', i, ''peer'', peer_PublicKey p, ''allowed-ips'', Join (allowed_ips p) '','', ''endpoint'', ep]
            [] lk_exists (with_peer (peer_PublicKey p) (set (allowed_ips p)) (Some ep))" for ep
    using assms(1) unfolding wg_contract_def sets_peers_def by blast+
  then show ?thesis using assms(2,3)
    by (auto simp: set_peer_argv_def endpoint_arg_def good_peer_def)
qed

lemma configure_keeps [simp]:
  "lk_exists (configure l p) = lk_exists l" "lk_up (configure l p) = lk_up l" "lk_key (configure l p) = lk_key l"
  "lk_port (configure l p) = lk_port l" "lk_addrs (configure l p) = lk_addrs l"
  "lk_routes (configure l p) = lk_routes l \<union> set (allowed_ips p)"
  by (simp_all add: configure_def with_peer_def)

text \<open>
  An entry that \<open>wg\<close> refuses: the command fails and leaves the interface as it was. The
  server does not look at the keys, endpoints and subnets it passes on, so a list may hold
  such entries; \<open>Reconcile\<close> returns at the first one.
\<close>

definition refused :: "string \<Rightarrow> 'k exec \<Rightarrow> ('k \<Rightarrow> link) \<Rightarrow> PeerInfo \<Rightarrow> bool" where
  "refused i exec view p \<longleftrightarrow> (\<forall>k. lk_exists (view k) \<longrightarrow>
     \<not> fst (fst (exec (set_peer_argv \<lparr>m_Interface = i\<rparr> p) [] k))
     \<and> view (snd (exec (set_peer_argv \<lparr>m_Interface = i\<rparr> p) [] k)) = view k)"

definition answered :: "string \<Rightarrow> wg_args \<Rightarrow> 'k exec \<Rightarrow> ('k \<Rightarrow> link) \<Rightarrow> PeerInfo \<Rightarrow> bool" where
  "answered i A exec view p \<longleftrightarrow> good_peer A p \<or> refused i exec view p"

text \<open>What a list comes to: its entries up to the first one that is not taken, and the error then.\<close>

definition taken :: "wg_args \<Rightarrow> PeerInfo list \<Rightarrow> PeerInfo list" where
  "taken A ds = takeWhile (good_peer A) ds"

definition list_outcome :: "wg_args \<Rightarrow> Manager \<Rightarrow> PeerInfo list \<Rightarrow> wg_error + unit" where
  "list_outcome A m ds = (case List.find (\<lambda>p. \<not> good_peer A p) ds of
     None \<Rightarrow> Inr () | Some p \<Rightarrow> Inl (Failed (''set peer '' @ peer_PublicKey p) (set_peer_argv m p)))"

lemma taken_all: "\<forall>p \<in> set ds. good_peer A p \<Longrightarrow> taken A ds = ds \<and> list_outcome A m ds = Inr ()"
proof -
  assume good: "\<forall>p \<in> set ds. good_peer A p"
  then have "List.find (\<lambda>p. \<not> good_peer A p) ds = None" by (auto simp: find_None_iff)
  then show ?thesis using good by (simp add: taken_def list_outcome_def takeWhile_eq_all_conv)
qed

lemma list_outcome_Inr: "list_outcome A m ds = Inr () \<longleftrightarrow> (\<forall>p \<in> set ds. good_peer A p)"
  by (auto simp: list_outcome_def find_None_iff dest: find_SomeD split: option.split)

lemma set_taken: "set (taken A ds) \<subseteq> set ds"
  by (auto simp: taken_def dest: set_takeWhileD)

lemma set_peers_contract:
  assumes "wg_contract i A exec view" "m_Interface m = i"
  shows "lk_exists (view k) \<Longrightarrow> lk_up (view k) \<Longrightarrow> (\<forall>p \<in> set ds. answered i A exec view p) \<Longrightarrow>
    \<exists>k'. set_peers exec m ds k = (list_outcome A m ds, k') \<and> view k' = foldl configure (view k) (taken A ds)"
proof (induction ds arbitrary: k)
  case Nil
  then show ?case by (simp add: list_outcome_def taken_def)
next
  case (Cons p ds)
  show ?case
  proof (cases "good_peer A p")
    case False
    then have no: "refused i exec view p" using Cons.prems(3) by (simp add: answered_def)
    have m: "\<lparr>m_Interface = i\<rparr> = m" using assms(2) by (cases m) simp
    have "run exec (set_peer_argv m p) k = (Inl (set_peer_argv m p), snd (exec (set_peer_argv m p) [] k))"
      "view (snd (exec (set_peer_argv m p) [] k)) = view k"
      using no Cons.prems(1) by (auto simp: refused_def m run_def split: prod.split)
    then show ?thesis using False by (simp add: list_outcome_def taken_def)
  next
    case True
    have good: "good_peer A p" "\<forall>c \<in> set (allowed_ips p). ok_cidr A c" using True by (simp_all add: good_peer_def)
    from run_effect [where pre = lk_exists, OF set_peer_effect [OF assms good(1)] Cons.prems(1)]
    obtain k1 where k1: "run exec (set_peer_argv m p) k = (Inr (), k1)"
      "view k1 = with_peer (peer_PublicKey p) (set (allowed_ips p)) (endpoint_arg p) (view k)" by blast
    obtain k2 where k2: "add_routes exec m (allowed_ips p) k1 = (Inr (), k2)" "view k2 = configure (view k) p"
    proof -
      have "lk_exists (view k1)" "lk_up (view k1)" using Cons.prems by (simp_all add: k1(2) with_peer_def)
      from add_routes_contract [OF assms this good(2)] show thesis
        by (auto simp: k1(2) configure_def Let_def intro: that)
    qed
    have "\<exists>k'. set_peers exec m ds k2 = (list_outcome A m ds, k') \<and> view k' = foldl configure (view k2) (taken A ds)"
      using Cons.prems by (intro Cons.IH) (simp_all add: k2(2))
    then show ?thesis using k1(1) k2 True by (simp add: list_outcome_def taken_def)
  qed
qed

section \<open>What Reconcile achieves\<close>

text \<open>The routes of the peers the link has and nobody wants.\<close>

definition unwanted_routes :: "PeerInfo list \<Rightarrow> link \<Rightarrow> string set" where
  "unwanted_routes desired l =
     \<Union> {ips. \<exists>key ep. lk_peers l key = Some (ips, ep) \<and> key \<notin> peer_PublicKey ` set desired}"

text \<open>
  A list of which only the entries \<open>ds\<close> are reached: every peer that is not in the list
  goes, those entries are configured, and the other peers of the list stay if they were there.
\<close>

definition reached :: "PeerInfo list \<Rightarrow> PeerInfo list \<Rightarrow> link \<Rightarrow> link" where
  "reached ds desired l = foldl configure
     (l\<lparr>lk_peers := lk_peers l |` (peer_PublicKey ` set desired), lk_routes := lk_routes l - unwanted_routes desired l\<rparr>) ds"

definition reconciled :: "PeerInfo list \<Rightarrow> link \<Rightarrow> link" where
  "reconciled desired l = reached desired desired l"

lemma listed_peer:
  assumes "lists_peers ps l"
  shows "lk_peers l key = Some (ips, ep) \<Longrightarrow> \<exists>xs. (key, xs) \<in> set ps \<and> set xs = ips"
    and "(key, xs) \<in> set ps \<Longrightarrow> \<exists>ep. lk_peers l key = Some (set xs, ep)"
proof -
  have d: "distinct (map fst ps)" "map_option set (map_of ps key) = map_option fst (lk_peers l key)"
    using assms by (simp_all add: lists_peers_def)
  show "lk_peers l key = Some (ips, ep) \<Longrightarrow> \<exists>xs. (key, xs) \<in> set ps \<and> set xs = ips"
    using d(2) by (auto dest: map_of_SomeD)
  show "(key, xs) \<in> set ps \<Longrightarrow> \<exists>ep. lk_peers l key = Some (set xs, ep)"
    using d by (cases "lk_peers l key") auto
qed

lemma listed_dom:
  assumes "lists_peers ps l"
  shows "fst ` set ps = dom (lk_peers l)"
proof -
  have "map_option set (map_of ps key) = map_option fst (lk_peers l key)" for key
    using assms by (simp add: lists_peers_def)
  then have "map_of ps key = None \<longleftrightarrow> lk_peers l key = None" for key
    by (metis map_option_is_None)
  then have "dom (map_of ps) = dom (lk_peers l)"
    unfolding dom_def by (simp del: not_None_eq)
  then show ?thesis by (simp add: dom_map_of_conv_image_fst)
qed

lemma listed_dropped:
  assumes "lists_peers ps l"
  shows "dropped (map peer_PublicKey desired) ps = unwanted_routes desired l"
proof -
  have "c \<in> dropped (map peer_PublicKey desired) ps \<longleftrightarrow> c \<in> unwanted_routes desired l" for c
  proof
    assume "c \<in> dropped (map peer_PublicKey desired) ps"
    then obtain key xs where "(key, xs) \<in> set ps" "key \<notin> peer_PublicKey ` set desired" "c \<in> set xs"
      by (auto simp: dropped_def)
    moreover from this(1) obtain ep where "lk_peers l key = Some (set xs, ep)"
      using listed_peer(2) [OF assms] by blast
    ultimately show "c \<in> unwanted_routes desired l" unfolding unwanted_routes_def by blast
  next
    assume "c \<in> unwanted_routes desired l"
    then obtain key ips ep where "lk_peers l key = Some (ips, ep)" "key \<notin> peer_PublicKey ` set desired" "c \<in> ips"
      by (auto simp: unwanted_routes_def)
    then show "c \<in> dropped (map peer_PublicKey desired) ps"
      using listed_peer(1) [OF assms] by (fastforce simp: dropped_def)
  qed
  then show ?thesis by blast
qed

lemma Reconcile_reaches:
  assumes C: "wg_contract i A exec view" and i: "m_Interface m = i"
    and up: "lk_exists (view k)" "lk_up (view k)" and entries: "\<forall>p \<in> set desired. answered i A exec view p"
  shows "\<exists>k'. Reconcile exec m desired k = (list_outcome A m desired, k')
    \<and> view k' = reached (taken A desired) desired (view k)"
proof -
  obtain ps k1 where ps: "currentPeers exec m k = (Inr ps, k1)" "view k1 = view k" "lists_peers ps (view k)"
    "\<And>key ips c. (key, ips) \<in> set ps \<Longrightarrow> c \<in> set ips \<Longrightarrow> ok_cidr A c"
    using currentPeers_contract [OF C i up(1)] by blast
  let ?w = "map peer_PublicKey desired"
  have "\<exists>k'. remove_peers exec m ?w ps k1 = (Inr (), k')
      \<and> view k' = (view k1)\<lparr>lk_peers := lk_peers (view k1) |` (- (fst ` set ps - set ?w)),
          lk_routes := lk_routes (view k1) - dropped ?w ps\<rparr>"
  proof (rule remove_peers_contract [OF C i])
    show "lk_exists (view k1)" "distinct (map fst ps)" using up ps by (simp_all add: lists_peers_def)
    show "\<forall>(key, ips) \<in> set ps. (\<forall>c \<in> set ips. ok_cidr A c) \<and> (key \<in> set ?w \<or> key \<in> dom (lk_peers (view k1)))"
      using ps(2,4) listed_peer(2) [OF ps(3)] by fastforce
  qed
  moreover have "lk_peers (view k) |` (- (fst ` set ps - set ?w)) = lk_peers (view k) |` (peer_PublicKey ` set desired)"
    unfolding listed_dom [OF ps(3)] by (auto simp: restrict_map_def fun_eq_iff)
  ultimately obtain k2 where k2: "remove_peers exec m ?w ps k1 = (Inr (), k2)"
    "view k2 = (view k)\<lparr>lk_peers := lk_peers (view k) |` (peer_PublicKey ` set desired),
          lk_routes := lk_routes (view k) - unwanted_routes desired (view k)\<rparr>"
    by (auto simp: ps(2) listed_dropped [OF ps(3)])
  from set_peers_contract [OF C i, of k2 desired] entries up
  obtain k3 where "set_peers exec m desired k2 = (list_outcome A m desired, k3)"
    "view k3 = foldl configure (view k2) (taken A desired)"
    by (auto simp: k2(2))
  then show ?thesis using ps(1) k2 by (simp add: Reconcile_def reached_def)
qed

text \<open>A list without an entry that is refused.\<close>

lemma Reconcile_refines:
  assumes "wg_contract i A exec view" "m_Interface m = i" "lk_exists (view k)" "lk_up (view k)"
    and good: "\<forall>p \<in> set desired. good_peer A p"
  shows "\<exists>k'. Reconcile exec m desired k = (Inr (), k') \<and> view k' = reconciled desired (view k)"
  using Reconcile_reaches [OF assms(1-4), of desired] good taken_all [OF good, of m]
  by (simp add: answered_def reconciled_def)

text \<open>The result in closed form.\<close>

lemma configure_other:
  "key \<noteq> peer_PublicKey p \<Longrightarrow>
    lk_peers (configure l p) key = map_option (\<lambda>(i, e). (i - set (allowed_ips p), e)) (lk_peers l key)"
  by (simp add: configure_def with_peer_def)

lemma configure_own:
  "lk_peers (configure l p) (peer_PublicKey p) = Some (set (allowed_ips p),
     (case endpoint_arg p of Some e \<Rightarrow> Some e | None \<Rightarrow> Option.bind (lk_peers l (peer_PublicKey p)) snd))"
  by (simp add: configure_def with_peer_def)

lemma configures_keep [simp]:
  "lk_exists (foldl configure l ds) = lk_exists l" "lk_up (foldl configure l ds) = lk_up l"
  "lk_key (foldl configure l ds) = lk_key l" "lk_port (foldl configure l ds) = lk_port l"
  "lk_addrs (foldl configure l ds) = lk_addrs l"
  by (induction ds arbitrary: l) simp_all

lemma configures_routes: "lk_routes (foldl configure l ds) = lk_routes l \<union> \<Union> ((set \<circ> allowed_ips) ` set ds)"
  by (induction ds arbitrary: l) auto

lemma configures_other:
  "key \<notin> peer_PublicKey ` set ds \<Longrightarrow> lk_peers (foldl configure l ds) key
     = map_option (\<lambda>(i, e). (i - \<Union> ((set \<circ> allowed_ips) ` set ds), e)) (lk_peers l key)"
proof (induction ds arbitrary: l)
  case (Cons p ds)
  then show ?case by (cases "lk_peers l key") (auto simp: configure_other)
qed (simp add: option.map_ident split_def)

lemma configures_own:
  assumes "distinct (map peer_PublicKey (xs @ p # ys))"
  shows "lk_peers (foldl configure l (xs @ p # ys)) (peer_PublicKey p)
    = Some (set (allowed_ips p) - \<Union> ((set \<circ> allowed_ips) ` set ys),
        (case endpoint_arg p of Some e \<Rightarrow> Some e | None \<Rightarrow> Option.bind (lk_peers l (peer_PublicKey p)) snd))"
proof -
  have "peer_PublicKey p \<notin> peer_PublicKey ` set xs" "peer_PublicKey p \<notin> peer_PublicKey ` set ys"
    using assms by auto
  moreover have "Option.bind (map_option (\<lambda>(i, e). (i - s, e)) x) snd = Option.bind x snd"
    for s :: "string set" and x :: "(string set \<times> string option) option"
    by (cases x) auto
  ultimately show ?thesis by (simp add: configures_other configure_own split: option.split)
qed

text \<open>
  The endpoint a peer ends up with: the desired one, or, when the control plane sends none,
  the one the peer has.
\<close>

definition final_endpoint :: "link \<Rightarrow> PeerInfo \<Rightarrow> string option" where
  "final_endpoint l p = (case endpoint_arg p of Some e \<Rightarrow> Some e | None \<Rightarrow> Option.bind (lk_peers l (peer_PublicKey p)) snd)"

lemma reached_own:
  assumes "es = xs @ p # ys" "distinct (map peer_PublicKey es)" "p \<in> set ds"
  shows "lk_peers (reached es ds l) (peer_PublicKey p)
    = Some (set (allowed_ips p) - \<Union> ((set \<circ> allowed_ips) ` set ys), final_endpoint l p)"
proof -
  have "peer_PublicKey p \<in> peer_PublicKey ` set ds" using assms(3) by simp
  then show ?thesis using configures_own [of xs p ys] assms(1,2)
    by (simp add: reached_def final_endpoint_def split: option.split)
qed

lemma reached_none:
  "set es \<subseteq> set ds \<Longrightarrow> key \<notin> peer_PublicKey ` set ds \<Longrightarrow> lk_peers (reached es ds l) key = None"
proof -
  assume "set es \<subseteq> set ds" "key \<notin> peer_PublicKey ` set ds"
  then have "key \<notin> peer_PublicKey ` set es" by blast
  with \<open>key \<notin> peer_PublicKey ` set ds\<close> show ?thesis by (simp add: reached_def configures_other)
qed

lemma reached_routes:
  "lk_routes (reached es ds l) = lk_routes l - unwanted_routes ds l \<union> \<Union> ((set \<circ> allowed_ips) ` set es)"
  by (simp add: reached_def configures_routes)

lemma reached_dom:
  assumes "set es \<subseteq> set ds"
  shows "dom (lk_peers (reached es ds l)) \<subseteq> peer_PublicKey ` set ds"
proof (rule subsetI, rule ccontr)
  fix key assume "key \<in> dom (lk_peers (reached es ds l))" "key \<notin> peer_PublicKey ` set ds"
  then show False using reached_none [OF assms] by (simp add: domIff)
qed

lemma reconciled_none:
  "key \<notin> peer_PublicKey ` set desired \<Longrightarrow> lk_peers (reconciled desired l) key = None"
  by (simp add: reconciled_def reached_none)

lemma reconciled_routes:
  "lk_routes (reconciled desired l) = lk_routes l - unwanted_routes desired l \<union> \<Union> ((set \<circ> allowed_ips) ` set desired)"
  by (simp add: reconciled_def reached_routes)

lemma reached_keeps [simp]:
  "lk_exists (reached es ds l) = lk_exists l" "lk_up (reached es ds l) = lk_up l"
  "lk_key (reached es ds l) = lk_key l" "lk_port (reached es ds l) = lk_port l"
  "lk_addrs (reached es ds l) = lk_addrs l"
  by (simp_all add: reached_def)

lemma reconciled_keeps [simp]:
  "lk_exists (reconciled ds l) = lk_exists l" "lk_up (reconciled ds l) = lk_up l"
  "lk_key (reconciled ds l) = lk_key l" "lk_port (reconciled ds l) = lk_port l"
  "lk_addrs (reconciled ds l) = lk_addrs l"
  by (simp_all add: reconciled_def)

text \<open>Peers whose addresses do not overlap: everyone gets exactly the desired ones.\<close>

definition disjoint_peers :: "PeerInfo list \<Rightarrow> bool" where
  "disjoint_peers ds \<longleftrightarrow> distinct (map peer_PublicKey ds)
     \<and> (\<forall>p \<in> set ds. \<forall>q \<in> set ds. p \<noteq> q \<longrightarrow> set (allowed_ips p) \<inter> set (allowed_ips q) = {})"

lemma reached_exact:
  assumes "disjoint_peers es" "set es \<subseteq> set ds" "p \<in> set es"
  shows "lk_peers (reached es ds l) (peer_PublicKey p) = Some (set (allowed_ips p), final_endpoint l p)"
proof -
  obtain xs ys where split: "es = xs @ p # ys" using assms(3) by (auto simp: in_set_conv_decomp)
  then have "\<forall>q \<in> set ys. p \<noteq> q" using assms(1) by (auto simp: disjoint_peers_def)
  then have "set (allowed_ips p) \<inter> \<Union> ((set \<circ> allowed_ips) ` set ys) = {}"
    using assms(1) unfolding disjoint_peers_def by (simp add: split) blast
  moreover have "distinct (map peer_PublicKey es)" using assms(1) by (simp add: disjoint_peers_def)
  ultimately show ?thesis using reached_own [OF split] assms(2,3) by (auto simp: Diff_triv)
qed

lemma reconciled_exact:
  assumes "disjoint_peers desired" "p \<in> set desired"
  shows "lk_peers (reconciled desired l) (peer_PublicKey p) = Some (set (allowed_ips p), final_endpoint l p)"
  using reached_exact [OF assms(1) _ assms(2)] by (simp add: reconciled_def)

lemma reconciled_dom: "dom (lk_peers (reconciled desired l)) \<subseteq> peer_PublicKey ` set desired"
  by (simp add: reconciled_def reached_dom)

lemma reconciled_own:
  assumes "desired = xs @ p # ys" "distinct (map peer_PublicKey desired)"
  shows "lk_peers (reconciled desired l) (peer_PublicKey p)
    = Some (set (allowed_ips p) - \<Union> ((set \<circ> allowed_ips) ` set ys), final_endpoint l p)"
  unfolding reconciled_def by (rule reached_own [OF assms]) (simp add: assms(1))

lemma reconciled_keys:
  assumes "distinct (map peer_PublicKey desired)"
  shows "dom (lk_peers (reconciled desired l)) = peer_PublicKey ` set desired"
proof (intro equalityI reconciled_dom subsetI)
  fix key assume "key \<in> peer_PublicKey ` set desired"
  then obtain xs p ys where "desired = xs @ p # ys" "key = peer_PublicKey p" by (auto simp: in_set_conv_decomp)
  then show "key \<in> dom (lk_peers (reconciled desired l))" using reconciled_own [OF _ assms] by blast
qed

text \<open>
  What an interface that has run through a list holds of it: no other peer; each entry
  before the first refused one with its allowed addresses, but for those that a later entry
  took over; and, when none was refused, every entry.
\<close>

definition holds_list :: "wg_args \<Rightarrow> PeerInfo list \<Rightarrow> link \<Rightarrow> bool" where
  "holds_list A ds l \<longleftrightarrow> dom (lk_peers l) \<subseteq> peer_PublicKey ` set ds
     \<and> (\<forall>xs p ys. takeWhile (good_peer A) ds = xs @ p # ys \<longrightarrow> map_option fst (lk_peers l (peer_PublicKey p))
          = Some (set (allowed_ips p) - \<Union> ((set \<circ> allowed_ips) ` set ys)))
     \<and> ((\<forall>p \<in> set ds. good_peer A p) \<longrightarrow> dom (lk_peers l) = peer_PublicKey ` set ds)"

lemma taken_distinct: "distinct (map peer_PublicKey ds) \<Longrightarrow> distinct (map peer_PublicKey (taken A ds))"
proof -
  assume ds: "distinct (map peer_PublicKey ds)"
  obtain n where n: "taken A ds = take n ds" using takeWhile_eq_take that unfolding taken_def by blast
  show ?thesis using ds by (simp add: n distinct_take take_map [symmetric])
qed

lemma reached_holds:
  assumes "distinct (map peer_PublicKey ds)"
  shows "holds_list A ds (reached (taken A ds) ds l)"
  unfolding holds_list_def
proof (intro conjI allI impI)
  show "dom (lk_peers (reached (taken A ds) ds l)) \<subseteq> peer_PublicKey ` set ds" by (rule reached_dom [OF set_taken])
next
  fix xs p ys assume es: "takeWhile (good_peer A) ds = xs @ p # ys"
  then have "p \<in> set ds" using set_taken [of A ds] unfolding taken_def by auto
  then show "map_option fst (lk_peers (reached (taken A ds) ds l) (peer_PublicKey p))
      = Some (set (allowed_ips p) - \<Union> ((set \<circ> allowed_ips) ` set ys))"
    using reached_own [OF es [folded taken_def] taken_distinct [OF assms]] by simp
next
  assume "\<forall>p \<in> set ds. good_peer A p"
  then have "taken A ds = ds" by (simp add: taken_all)
  then show "dom (lk_peers (reached (taken A ds) ds l)) = peer_PublicKey ` set ds"
    using reconciled_keys [OF assms] by (simp add: reconciled_def)
qed

lemma holds_exact:
  assumes "holds_list A ds l" "\<forall>p \<in> set ds. good_peer A p" "disjoint_peers ds" "p \<in> set ds"
  shows "map_option fst (lk_peers l (peer_PublicKey p)) = Some (set (allowed_ips p))"
proof -
  have all: "takeWhile (good_peer A) ds = ds" using taken_all [OF assms(2)] by (simp add: taken_def)
  obtain xs ys where split: "ds = xs @ p # ys" using assms(4) by (auto simp: in_set_conv_decomp)
  then have "\<forall>q \<in> set ys. p \<noteq> q" using assms(3) by (auto simp: disjoint_peers_def)
  then have "set (allowed_ips p) \<inter> \<Union> ((set \<circ> allowed_ips) ` set ys) = {}"
    using assms(3) unfolding disjoint_peers_def by (simp add: split) blast
  moreover have "map_option fst (lk_peers l (peer_PublicKey p)) = Some (set (allowed_ips p) - \<Union> ((set \<circ> allowed_ips) ` set ys))"
    using assms(1) all split unfolding holds_list_def by metis
  ultimately show ?thesis by (simp add: Diff_triv)
qed

text \<open>A second reconciliation with the same list changes nothing.\<close>

lemma reconciled_twice:
  assumes "distinct (map peer_PublicKey desired)"
  shows "reconciled desired (reconciled desired l) = reconciled desired l"
proof (rule link.equality)
  let ?l = "reconciled desired l"
  have "lk_peers (reconciled desired ?l) key = lk_peers ?l key" for key
  proof (cases "key \<in> peer_PublicKey ` set desired")
    case True
    then obtain xs p ys where p: "desired = xs @ p # ys" "key = peer_PublicKey p" by (auto simp: in_set_conv_decomp)
    have "final_endpoint ?l p = final_endpoint l p"
      using reconciled_own [OF p(1) assms, of l] by (simp add: final_endpoint_def split: option.split)
    then show ?thesis using reconciled_own [OF p(1) assms] by (simp add: p(2))
  qed (simp add: reconciled_none)
  then show "lk_peers (reconciled desired ?l) = lk_peers ?l" by (rule ext)
  have "unwanted_routes desired ?l = {}"
    using reconciled_none [of _ desired l] by (auto simp: unwanted_routes_def)
  then show "lk_routes (reconciled desired ?l) = lk_routes ?l" unfolding reconciled_routes by blast
qed simp_all

text \<open>
  Routes are only deleted with a removed peer: when a peer that stays stops advertising a
  subnet, the route remains although no peer takes its traffic any more.
\<close>

lemma relay_route_stays:
  assumes "lk_peers l key = Some (ips, ep)" "key \<in> peer_PublicKey ` set desired"
    and "c \<in> ips" "c \<in> lk_routes l" "\<And>k i e. lk_peers l k = Some (i, e) \<Longrightarrow> c \<in> i \<Longrightarrow> k = key"
    and "disjoint_peers desired" "\<forall>p \<in> set desired. c \<notin> set (allowed_ips p)"
  shows "c \<in> lk_routes (reconciled desired l)" "lk_peers (reconciled desired l) k = Some (i, e) \<Longrightarrow> c \<notin> i"
proof -
  have "c \<notin> unwanted_routes desired l" using assms(2,5) by (auto simp: unwanted_routes_def)
  then show "c \<in> lk_routes (reconciled desired l)" using assms(4) by (simp add: reconciled_routes)
  assume some: "lk_peers (reconciled desired l) k = Some (i, e)"
  then have "k \<in> peer_PublicKey ` set desired" using reconciled_none [of k desired l] by auto
  then obtain p where "p \<in> set desired" "k = peer_PublicKey p" by blast
  then show "c \<notin> i" using reconciled_exact [OF assms(6), of p l] some assms(7) by auto
qed

end
