(* ===== verification/WgInterface.thy ===== *)
theory WgInterface
  imports WgContract IPNet
begin

text \<open>
  \<open>EnsureInterface\<close> under the documented behaviour of \<open>ip\<close> and \<open>wg set\<close>
  (\<open>ip_contract\<close>): what the interface is like afterwards, that a second call changes
  nothing, and when the substring test of \<open>hasAddress\<close> mistakes one address for another.
\<close>

definition ends_with :: "string \<Rightarrow> string \<Rightarrow> bool" where
  "ends_with s t \<longleftrightarrow> HasPrefix (rev s) (rev t)"

definition fresh_link :: link where
  "fresh_link = \<lparr>lk_exists = True, lk_up = False, lk_key = None, lk_port = None, lk_addrs = {},
     lk_peers = (\<lambda>_. None), lk_routes = {}\<rparr>"

definition is_ip_text :: "string \<Rightarrow> bool" where
  "is_ip_text s \<longleftrightarrow> (case ParseAddr s of Inr a \<Rightarrow> IP_String a = s | Inl _ \<Rightarrow> False)"

definition makes_links :: "string \<Rightarrow> 'k exec \<Rightarrow> ('k \<Rightarrow> link) \<Rightarrow> bool" where
  "makes_links i exec view \<longleftrightarrow>
     (\<forall>k. \<exists>out k'. exec [''ip'', ''link'', ''show'', i] [] k = ((lk_exists (view k), out), k') \<and> view k' = view k) \<and>
     effect exec view [''ip'', ''link'', ''add'', ''dev'', i, ''type'', ''wireguard''] []
       (\<lambda>l. \<not> lk_exists l) (\<lambda>_. fresh_link) \<and>
     effect exec view [''ip'', ''link'', ''set'', ''up'', ''dev'', i] [] lk_exists (\<lambda>l. l\<lparr>lk_up := True\<rparr>)"

text \<open>
  The private key is read from standard input. A key whose public half is a peer would drop
  that peer, so the clause is about a link without it.
\<close>

definition sets_key :: "string \<Rightarrow> (string \<Rightarrow> bool) \<Rightarrow> (string \<Rightarrow> string) \<Rightarrow> 'k exec \<Rightarrow> ('k \<Rightarrow> link) \<Rightarrow> bool" where
  "sets_key i ok_private public_of exec view \<longleftrightarrow> (\<forall>priv port. ok_private priv \<and> 0 \<le> port \<and> port < 2 ^ 16 \<longrightarrow>
     effect exec view [''wg'', ''set'', i, ''private-key'', ''/dev/stdin'', ''listen-port'', Itoa port] priv
       (\<lambda>l. lk_exists l \<and> lk_peers l (public_of priv) = None)
       (\<lambda>l. l\<lparr>lk_key := Some priv, lk_port := Some (Itoa port)\<rparr>))"

text \<open>
  The output of \<open>ip -4 addr show\<close> contains an address with its prefix length after
  \<open>inet\<close> and a space. Adding an address may fail once on a fresh device and then succeeds
  after a delay.
\<close>

definition has_addresses :: "string \<Rightarrow> 'k exec \<Rightarrow> (nat \<Rightarrow> 'k \<Rightarrow> 'k) \<Rightarrow> ('k \<Rightarrow> link) \<Rightarrow> bool" where
  "has_addresses i exec pause view \<longleftrightarrow>
     (\<forall>n k. view (pause n k) = view k) \<and>
     (\<forall>k. lk_exists (view k) \<longrightarrow>
        (\<exists>out k'. exec [''ip'', ''-4'', ''addr'', ''show'', ''dev'', i] [] k = ((True, out), k') \<and> view k' = view k
          \<and> (\<forall>m. is_ip_text m \<longrightarrow> (Contains out (m @ ''/32'') \<longleftrightarrow> (\<exists>a \<in> lk_addrs (view k). ends_with a (m @ ''/32'')))))) \<and>
     (\<forall>m k. is_ip_text m \<and> lk_exists (view k) \<and> m @ ''/32'' \<notin> lk_addrs (view k) \<longrightarrow>
        (let add = exec [''ip'', ''addr'', ''add'', m @ ''/32'', ''dev'', i] []; r = add k in
         if fst (fst r) then view (snd r) = (view k)\<lparr>lk_addrs := insert (m @ ''/32'') (lk_addrs (view k))\<rparr>
         else view (snd r) = view k \<and> fst (fst (add (pause 200 (snd r))))
           \<and> view (snd (add (pause 200 (snd r)))) = (view k)\<lparr>lk_addrs := insert (m @ ''/32'') (lk_addrs (view k))\<rparr>))"

definition ip_contract ::
  "string \<Rightarrow> (string \<Rightarrow> bool) \<Rightarrow> (string \<Rightarrow> string) \<Rightarrow> 'k exec \<Rightarrow> (nat \<Rightarrow> 'k \<Rightarrow> 'k) \<Rightarrow> ('k \<Rightarrow> link) \<Rightarrow> bool" where
  "ip_contract i ok_private public_of exec pause view \<longleftrightarrow> makes_links i exec view
     \<and> sets_key i ok_private public_of exec view \<and> has_addresses i exec pause view"

section \<open>What EnsureInterface achieves\<close>

definition ensured :: "string \<Rightarrow> string \<Rightarrow> int \<Rightarrow> link \<Rightarrow> link" where
  "ensured priv meshIP port l = (let l1 = (if lk_exists l then l else fresh_link) in
     l1\<lparr>lk_key := Some priv, lk_port := Some (Itoa port), lk_up := True,
       lk_addrs := (if \<exists>a \<in> lk_addrs l1. ends_with a (meshIP @ ''/32'') then lk_addrs l1
                    else insert (meshIP @ ''/32'') (lk_addrs l1))\<rparr>)"

lemma ends_with_refl [simp]: "ends_with s s"
  using HasPrefix_iff [of "rev s" "rev s"] by (simp add: ends_with_def)

lemma runWithStdin_effect:
  assumes "effect exec view argv stdin pre f" "pre (view k)"
  shows "\<exists>k'. runWithStdin exec stdin argv k = (Inr (), k') \<and> view k' = f (view k)"
  using assms by (cases "exec argv stdin k") (auto simp: effect_def runWithStdin_def)

lemma create_interface_contract:
  assumes "makes_links i exec view" "m_Interface m = i"
  shows "\<exists>k'. create_interface exec m k = (Inr (), k')
    \<and> view k' = (if lk_exists (view k) then view k else fresh_link)"
proof -
  obtain out k1 where k1: "exec [''ip'', ''link'', ''show'', i] [] k = ((lk_exists (view k), out), k1)" "view k1 = view k"
    using assms(1) unfolding makes_links_def by blast
  show ?thesis
  proof (cases "lk_exists (view k)")
    case True
    then show ?thesis using k1 assms(2) by (simp add: create_interface_def interfaceExists_def)
  next
    case False
    have "effect exec view [''ip'', ''link'', ''add'', ''dev'', i, ''type'', ''wireguard''] []
       (\<lambda>l. \<not> lk_exists l) (\<lambda>_. fresh_link)" using assms(1) by (simp add: makes_links_def)
    from run_effect [OF this, of k1] show ?thesis
      using False k1 assms(2) by (auto simp: create_interface_def interfaceExists_def)
  qed
qed

lemma shown_addresses:
  assumes "has_addresses i exec pause view" "lk_exists (view k)" "is_ip_text ip"
  shows "\<exists>out k'. exec [''ip'', ''-4'', ''addr'', ''show'', ''dev'', i] [] k = ((True, out), k') \<and> view k' = view k
    \<and> (Contains out (ip @ ''/32'') \<longleftrightarrow> (\<exists>a \<in> lk_addrs (view k). ends_with a (ip @ ''/32'')))"
proof -
  have "\<forall>k. lk_exists (view k) \<longrightarrow>
        (\<exists>out k'. exec [''ip'', ''-4'', ''addr'', ''show'', ''dev'', i] [] k = ((True, out), k') \<and> view k' = view k
          \<and> (\<forall>m. is_ip_text m \<longrightarrow> (Contains out (m @ ''/32'') \<longleftrightarrow> (\<exists>a \<in> lk_addrs (view k). ends_with a (m @ ''/32'')))))"
    using assms(1) unfolding has_addresses_def by (elim conjE) assumption
  then show ?thesis using assms(2,3) by blast
qed

lemma assign_address_contract:
  assumes "has_addresses i exec pause view" "m_Interface m = i" "is_ip_text ip" "lk_exists (view k)"
    "ip @ ''/32'' \<notin> lk_addrs (view k)"
  shows "\<exists>k'. assign_address exec pause m ip k = (Inr (), k')
    \<and> view k' = (view k)\<lparr>lk_addrs := insert (ip @ ''/32'') (lk_addrs (view k))\<rparr>"
proof -
  define add where "add = exec [''ip'', ''addr'', ''add'', ip @ ''/32'', ''dev'', i] []"
  have "if fst (fst (add k)) then view (snd (add k)) = (view k)\<lparr>lk_addrs := insert (ip @ ''/32'') (lk_addrs (view k))\<rparr>
         else view (snd (add k)) = view k \<and> fst (fst (add (pause 200 (snd (add k)))))
           \<and> view (snd (add (pause 200 (snd (add k)))))
              = (view k)\<lparr>lk_addrs := insert (ip @ ''/32'') (lk_addrs (view k))\<rparr>"
    using assms(1,3-5) unfolding has_addresses_def add_def Let_def by blast
  moreover have "run exec [''ip'', ''addr'', ''add'', ip @ ''/32'', ''dev'', i] k
      = (if fst (fst (add k)) then Inr () else Inl [''ip'', ''addr'', ''add'', ip @ ''/32'', ''dev'', i], snd (add k))" for k
    by (simp add: run_def add_def split: prod.split)
  ultimately show ?thesis using assms(2) by (simp add: assign_address_def Let_def split: if_splits)
qed

lemma EnsureInterface_contract:
  assumes C: "ip_contract i ok_private public_of exec pause view" and i: "m_Interface m = i"
    and args: "ok_private priv" "0 \<le> port" "port < 2 ^ 16" "is_ip_text ip"
    and own: "lk_exists (view k) \<Longrightarrow> lk_peers (view k) (public_of priv) = None"
  shows "\<exists>k'. EnsureInterface exec pause m priv ip port k = (Inr (), k') \<and> view k' = ensured priv ip port (view k)"
proof -
  have parts: "makes_links i exec view" "sets_key i ok_private public_of exec view" "has_addresses i exec pause view"
    using C by (simp_all add: ip_contract_def)
  obtain k1 where k1: "create_interface exec m k = (Inr (), k1)"
    "view k1 = (if lk_exists (view k) then view k else fresh_link)"
    using create_interface_contract [OF parts(1) i] by blast
  have there: "lk_exists (view k1)" "lk_peers (view k1) (public_of priv) = None"
    using own by (simp_all add: k1(2) fresh_link_def)
  define l2 where "l2 = (view k1)\<lparr>lk_key := Some priv, lk_port := Some (Itoa port)\<rparr>"
  have "effect exec view (set_key_argv m port) priv (\<lambda>l. lk_exists l \<and> lk_peers l (public_of priv) = None)
       (\<lambda>l. l\<lparr>lk_key := Some priv, lk_port := Some (Itoa port)\<rparr>)"
    using parts(2) args i by (simp add: sets_key_def set_key_argv_def)
  then have "\<exists>k'. runWithStdin exec priv (set_key_argv m port) k1 = (Inr (), k') \<and> view k' = l2"
    unfolding l2_def by (rule runWithStdin_effect) (intro conjI there)
  then obtain k2 where k2: "runWithStdin exec priv (set_key_argv m port) k1 = (Inr (), k2)" "view k2 = l2" by blast
  have ex2: "lk_exists l2" "lk_addrs l2 = lk_addrs (view k1)" using there by (simp_all add: l2_def)
  obtain out k3 where k3: "exec [''ip'', ''-4'', ''addr'', ''show'', ''dev'', i] [] k2 = ((True, out), k3)" "view k3 = l2"
    "Contains out (ip @ ''/32'') \<longleftrightarrow> (\<exists>a \<in> lk_addrs l2. ends_with a (ip @ ''/32''))"
    using shown_addresses [OF parts(3), of k2 ip] ex2(1) args(4) k2(2) by auto
  let ?l4 = "l2\<lparr>lk_addrs := (if \<exists>a \<in> lk_addrs l2. ends_with a (ip @ ''/32'') then lk_addrs l2
                    else insert (ip @ ''/32'') (lk_addrs l2))\<rparr>"
  have up: "\<exists>k'. bring_up exec m k4 = (Inr (), k') \<and> view k' = ?l4\<lparr>lk_up := True\<rparr>" if "view k4 = ?l4" for k4
  proof -
    have "effect exec view [''ip'', ''link'', ''set'', ''up'', ''dev'', i] [] lk_exists (\<lambda>l. l\<lparr>lk_up := True\<rparr>)"
      using parts(1) by (simp add: makes_links_def)
    from run_effect [where pre = lk_exists, OF this, of k4] ex2(1) that show ?thesis
      by (auto simp: bring_up_def i)
  qed
  have "\<exists>k'. EnsureInterface exec pause m priv ip port k = (Inr (), k') \<and> view k' = ?l4\<lparr>lk_up := True\<rparr>"
  proof (cases "\<exists>a \<in> lk_addrs l2. ends_with a (ip @ ''/32'')")
    case True
    then have "EnsureInterface exec pause m priv ip port k = bring_up exec m k3"
      using k1(1) k2(1) k3 i by (simp add: EnsureInterface_def hasAddress_def)
    then show ?thesis using up [of k3] True k3(2) by simp
  next
    case False
    then have "ip @ ''/32'' \<notin> lk_addrs (view k3)" using k3(2) ends_with_refl by metis
    then obtain k4 where k4: "assign_address exec pause m ip k3 = (Inr (), k4)"
      "view k4 = l2\<lparr>lk_addrs := insert (ip @ ''/32'') (lk_addrs l2)\<rparr>"
      using assign_address_contract [OF parts(3) i args(4), of k3] ex2(1) k3(2) by auto
    have "EnsureInterface exec pause m priv ip port k = bring_up exec m k4"
      using k1(1) k2(1) k3 k4(1) i False by (simp add: EnsureInterface_def hasAddress_def)
    then show ?thesis using up [of k4] False k4(2) by simp
  qed
  moreover have "?l4\<lparr>lk_up := True\<rparr> = ensured priv ip port (view k)"
    by (simp add: ensured_def Let_def l2_def k1(2))
  ultimately show ?thesis by simp
qed

lemma ensured_twice: "ensured priv ip port (ensured priv ip port l) = ensured priv ip port l"
  by (auto simp: ensured_def Let_def fresh_link_def)

text \<open>
  The test finds \<open>10.0.0.1/32\<close> inside \<open>110.0.0.1/32\<close>: an interface with the second
  address is left without the first.
\<close>

lemma address_mistaken:
  assumes "lk_exists l" "lk_addrs l = {''110.0.0.1/32''}"
  shows "''10.0.0.1/32'' \<notin> lk_addrs (ensured priv ''10.0.0.1'' port l)"
  using assms by (simp add: ensured_def ends_with_def HasPrefix_def)

lemma address_assigned:
  assumes "lk_exists l \<Longrightarrow> \<forall>a \<in> lk_addrs l. ends_with a (ip @ ''/32'') \<longrightarrow> a = ip @ ''/32''"
  shows "ip @ ''/32'' \<in> lk_addrs (ensured priv ip port l)"
  using assms by (auto simp: ensured_def Let_def fresh_link_def)

end
