(* ===== verification/WsClient.thy ===== *)
theory WsClient
  imports WgInterface
begin

text \<open>
  internal/agent/wsclient: the agent's connection to the control plane. The messages of a
  connection are the list it reads before a read fails; a session is what the network does
  to one \<open>connectOnce\<close>. Only the register message and the heartbeats are written. The
  lemmas give the waits between attempts, the bounds on them, and the state of the
  interface after a list of messages.
\<close>

record Client =
  cl_URL :: string
  cl_Name :: string
  cl_PrivateKey :: string
  cl_PublicKey :: string
  cl_ListenPort :: int
  cl_HeartbeatInterval :: int
  cl_EndpointOverride :: string
  cl_WG :: Manager
  cl_AdvertisedSubnets :: "string list"

section \<open>Messages\<close>

definition register_payload :: "Client \<Rightarrow> RegisterPayload" where
  "register_payload c = \<lparr>reg_Name = cl_Name c, reg_PublicKey = cl_PublicKey c, reg_Port = cl_ListenPort c,
     reg_Endpoint = cl_EndpointOverride c, reg_AdvertisedSubnets = cl_AdvertisedSubnets c\<rparr>"

definition register_msg :: "Client \<Rightarrow> Envelope" where
  "register_msg c = \<lparr>env_Type = TypeRegister, env_Payload = enc_register (register_payload c)\<rparr>"

definition heartbeat_msg :: Envelope where
  "heartbeat_msg = \<lparr>env_Type = TypeHeartbeat, env_Payload = enc_heartbeat\<rparr>"

definition applyPeerList ::
  "'k exec \<Rightarrow> (nat \<Rightarrow> 'k \<Rightarrow> 'k) \<Rightarrow> Client \<Rightarrow> string \<Rightarrow> PeerInfo list \<Rightarrow> 'k \<Rightarrow> (wg_error + unit) \<times> 'k" where
  "applyPeerList exec pause c meshIP peers k =
     (case EnsureInterface exec pause (cl_WG c) (cl_PrivateKey c) meshIP (cl_ListenPort c) k of
        (Inl e, k1) \<Rightarrow> (Inl e, k1)
      | (Inr _, k1) \<Rightarrow> Reconcile exec (cl_WG c) peers k1)"

text \<open>One message: errors are logged and the loop reads on.\<close>

definition handle_envelope :: "'k exec \<Rightarrow> (nat \<Rightarrow> 'k \<Rightarrow> 'k) \<Rightarrow> Client \<Rightarrow> Envelope \<Rightarrow> 'k \<Rightarrow> 'k" where
  "handle_envelope exec pause c env k =
     (if env_Type env = TypeRegistered then
        (case DecodePayload registered_fields zero_registered env of
           None \<Rightarrow> k
         | Some p \<Rightarrow> snd (applyPeerList exec pause c (rgd_MeshIP p) (rgd_Peers p) k))
      else if env_Type env = TypePeerList then
        (case DecodePayload peer_list_fields zero_peer_list env of
           None \<Rightarrow> k
         | Some p \<Rightarrow> snd (Reconcile exec (cl_WG c) (pl_Peers p) k))
      else k)"

section \<open>Heartbeats\<close>

text \<open>
  The heartbeats of a connection: each tick writes one, until a write fails. A ticker for an
  interval that is not positive panics (\<open>None\<close>).
\<close>

fun heartbeats :: "bool list \<Rightarrow> Envelope list" where
  "heartbeats [] = []"
| "heartbeats (ok # ticks) = (if ok then heartbeat_msg # heartbeats ticks else [])"

definition heartbeatLoop :: "int \<Rightarrow> bool list \<Rightarrow> Envelope list option" where
  "heartbeatLoop interval ticks = (if interval \<le> 0 then None else Some (heartbeats ticks))"

section \<open>Connections\<close>

record session =
  ss_dial :: bool
  ss_write :: bool
  ss_read :: "Envelope list"
  ss_ticks :: "bool list"

text \<open>
  One connection: what it wrote, and the host's state when it is lost. A panic of the
  heartbeat goroutine ends the process (\<open>None\<close>).
\<close>

definition connectOnce ::
  "'k exec \<Rightarrow> (nat \<Rightarrow> 'k \<Rightarrow> 'k) \<Rightarrow> Client \<Rightarrow> session \<Rightarrow> 'k \<Rightarrow> (Envelope list \<times> 'k) option" where
  "connectOnce exec pause c s k =
     (if \<not> ss_dial s \<or> \<not> ss_write s then Some ([], k)
      else (case heartbeatLoop (cl_HeartbeatInterval c) (ss_ticks s) of
          None \<Rightarrow> None
        | Some beats \<Rightarrow> Some (register_msg c # beats, fold (handle_envelope exec pause c) (ss_read s) k)))"

definition second :: int where
  "second = 10 ^ 9"

definition maxBackoff :: int where
  "maxBackoff = 30 * second"

definition next_backoff :: "int \<Rightarrow> int" where
  "next_backoff b = (let b2 = b * 2 in if b2 > maxBackoff then maxBackoff else b2)"

text \<open>
  \<open>Run\<close>: a session per attempt until the context is cancelled (the end of the list), with
  the wait that follows each.
\<close>

fun run_loop :: "'k exec \<Rightarrow> (nat \<Rightarrow> 'k \<Rightarrow> 'k) \<Rightarrow> Client \<Rightarrow> int \<Rightarrow> session list \<Rightarrow> 'k
    \<Rightarrow> ((Envelope list \<times> int) list \<times> 'k) option" where
  "run_loop exec pause c backoff [] k = Some ([], k)"
| "run_loop exec pause c backoff (s # ss) k = (case connectOnce exec pause c s k of
       None \<Rightarrow> None
     | Some (sent, k1) \<Rightarrow> (case run_loop exec pause c (next_backoff backoff) ss k1 of
         None \<Rightarrow> None
       | Some (rest, k2) \<Rightarrow> Some ((sent, backoff) # rest, k2)))"

definition Run :: "'k exec \<Rightarrow> (nat \<Rightarrow> 'k \<Rightarrow> 'k) \<Rightarrow> Client \<Rightarrow> session list \<Rightarrow> 'k
    \<Rightarrow> ((Envelope list \<times> int) list \<times> 'k) option" where
  "Run exec pause c ss k = run_loop exec pause c (2 * second) ss k"

section \<open>The waits\<close>

definition nth_wait :: "nat \<Rightarrow> int" where
  "nth_wait n = min (2 ^ Suc n * second) maxBackoff"

lemma next_nth_wait: "next_backoff (nth_wait n) = nth_wait (Suc n)"
  by (simp add: next_backoff_def nth_wait_def maxBackoff_def second_def min_def)

lemma run_loop_waits:
  "run_loop exec pause c (nth_wait n) ss k = Some (trace, k') \<Longrightarrow>
    map snd trace = map nth_wait [n ..< n + length ss]"
proof (induction ss arbitrary: n k trace)
  case (Cons s ss)
  then obtain sent k1 rest where run: "connectOnce exec pause c s k = Some (sent, k1)"
    "run_loop exec pause c (nth_wait (Suc n)) ss k1 = Some (rest, k')" "trace = (sent, nth_wait n) # rest"
    by (auto simp: next_nth_wait split: option.splits prod.splits)
  have "[n ..< n + length (s # ss)] = n # [Suc n ..< Suc n + length ss]"
    by (simp add: upt_conv_Cons del: upt_Suc)
  then show ?case using Cons.IH [OF run(2)] run(3) by simp
qed simp

lemma Run_waits:
  assumes "Run exec pause c ss k = Some (trace, k')"
  shows "map snd trace = map nth_wait [0 ..< length ss]"
proof -
  have "nth_wait 0 = 2 * second" by (simp add: nth_wait_def maxBackoff_def second_def)
  then show ?thesis using run_loop_waits [of exec pause c 0 ss k trace k'] assms by (simp add: Run_def)
qed

lemma nth_wait_bounds: "2 * second \<le> nth_wait n" "nth_wait n \<le> maxBackoff" "4 \<le> n \<Longrightarrow> nth_wait n = maxBackoff"
proof -
  have "(2 :: int) ^ 1 \<le> 2 ^ Suc n" by (rule power_increasing) simp_all
  then show "2 * second \<le> nth_wait n" by (simp add: nth_wait_def maxBackoff_def second_def)
  show "nth_wait n \<le> maxBackoff" by (simp add: nth_wait_def)
  show "nth_wait n = maxBackoff" if "4 \<le> n"
  proof -
    have "(2 :: int) ^ 5 \<le> 2 ^ Suc n" using that by (intro power_increasing) simp_all
    then show ?thesis by (simp add: nth_wait_def maxBackoff_def second_def)
  qed
qed

text \<open>A positive interval never panics: the agent tries again after every session.\<close>

lemma Run_total:
  assumes "0 < cl_HeartbeatInterval c"
  shows "\<exists>trace k'. Run exec pause c ss k = Some (trace, k') \<and> length trace = length ss"
proof -
  have "\<exists>trace k'. run_loop exec pause c b ss k = Some (trace, k') \<and> length trace = length ss" for b
  proof (induction ss arbitrary: b k)
    case (Cons s ss)
    obtain sent k1 where "connectOnce exec pause c s k = Some (sent, k1)"
      using assms by (cases "\<not> ss_dial s \<or> \<not> ss_write s") (auto simp: connectOnce_def heartbeatLoop_def)
    then show ?case using Cons.IH [of "next_backoff b" k1] by auto
  qed simp
  then show ?thesis by (simp add: Run_def)
qed

text \<open>What a session writes: the registration first, then the heartbeats.\<close>

lemma run_loop_sent:
  "run_loop exec pause c b ss k = Some (trace, k') \<Longrightarrow>
    map fst trace = map (\<lambda>s. if ss_dial s \<and> ss_write s then register_msg c # heartbeats (ss_ticks s) else []) ss"
proof (induction ss arbitrary: b k trace)
  case (Cons s ss)
  then obtain sent k1 rest where run: "connectOnce exec pause c s k = Some (sent, k1)"
    "run_loop exec pause c (next_backoff b) ss k1 = Some (rest, k')" "trace = (sent, b) # rest"
    by (auto split: option.splits prod.splits)
  have "sent = (if ss_dial s \<and> ss_write s then register_msg c # heartbeats (ss_ticks s) else [])"
    using run(1) by (auto simp: connectOnce_def heartbeatLoop_def split: if_splits)
  then show ?case using Cons.IH [OF run(2)] run(3) by simp
qed simp

lemma heartbeat_panics:
  assumes "cl_HeartbeatInterval c \<le> 0" "ss_dial s" "ss_write s"
  shows "connectOnce exec pause c s k = None"
  using assms by (simp add: connectOnce_def heartbeatLoop_def)

section \<open>Applying what the control plane sends\<close>

lemma applyPeerList_contract:
  assumes wg: "wg_contract i A exec view" and ip: "ip_contract i ok_private public_of exec pause view"
    and c: "m_Interface (cl_WG c) = i" "ok_private (cl_PrivateKey c)" "0 \<le> cl_ListenPort c" "cl_ListenPort c < 2 ^ 16"
    and own: "lk_exists (view k) \<Longrightarrow> lk_peers (view k) (public_of (cl_PrivateKey c)) = None"
    and msg: "is_ip_text meshIP" "\<forall>p \<in> set peers. answered i A exec view p"
  shows "\<exists>k'. applyPeerList exec pause c meshIP peers k = (list_outcome A (cl_WG c) peers, k')
    \<and> view k' = reached (taken A peers) peers (ensured (cl_PrivateKey c) meshIP (cl_ListenPort c) (view k))"
proof -
  obtain k1 where k1: "EnsureInterface exec pause (cl_WG c) (cl_PrivateKey c) meshIP (cl_ListenPort c) k = (Inr (), k1)"
    "view k1 = ensured (cl_PrivateKey c) meshIP (cl_ListenPort c) (view k)"
    using EnsureInterface_contract [OF ip c msg(1) own] by blast
  have up: "lk_exists (view k1)" "lk_up (view k1)" by (simp_all add: k1(2) ensured_def Let_def fresh_link_def)
  from Reconcile_reaches [OF wg c(1) up msg(2)] show ?thesis using k1 by (simp add: applyPeerList_def)
qed

end
