(* ===== verification/AgentSystem.thy ===== *)
theory AgentSystem
  imports WsServer WsClient
begin

text \<open>
  The two sides together: what the server of wsserver sends is what the agent of wsclient
  applies. After a registration the agent's interface has the address the server assigned;
  with every list, what \<open>wg\<close> takes of it, and when it takes all of it one peer per other node.
\<close>

section \<open>Peer lists\<close>

lemma PeerListFor_map: "PeerListFor key ns = map peer_of_node (filter (\<lambda>n. node_PublicKey n \<noteq> key) ns)"
  by (induction ns) auto

lemma peer_of_node_key [simp]: "peer_PublicKey (peer_of_node n) = node_PublicKey n"
  by (simp add: peer_of_node_def)

lemma allowed_ips_node: "allowed_ips (peer_of_node n) = (node_MeshIP n @ ''/32'') # node_AdvertisedSubnets n"
  by (simp add: allowed_ips_def peer_of_node_def)

lemma PeerListFor_keys:
  "peer_PublicKey ` set (PeerListFor key ns) = node_PublicKey ` set ns - {key}"
proof -
  have "peer_PublicKey ` set (PeerListFor key ns) = node_PublicKey ` {n \<in> set ns. node_PublicKey n \<noteq> key}"
    by (simp add: PeerListFor_map image_image)
  then show ?thesis by auto
qed

lemma PeerListFor_distinct:
  "distinct (map node_PublicKey ns) \<Longrightarrow> distinct (map peer_PublicKey (PeerListFor key ns))"
  by (simp add: PeerListFor_map comp_def distinct_map_filter)

text \<open>
  No subnet is relayed by two nodes, and none is the mesh address of another node. The
  server does not check it; without it the allowed addresses of two peers overlap, and
  \<open>wg\<close> leaves an address to the last peer it was given to.
\<close>

definition unshared :: "Node list \<Rightarrow> bool" where
  "unshared ns \<longleftrightarrow> (\<forall>a \<in> set ns. \<forall>b \<in> set ns. a \<noteq> b \<longrightarrow>
     set (node_AdvertisedSubnets a) \<inter> set (node_AdvertisedSubnets b) = {}
     \<and> node_MeshIP b @ ''/32'' \<notin> set (node_AdvertisedSubnets a))"

lemma unshared_none: "\<forall>n \<in> set ns. node_AdvertisedSubnets n = [] \<Longrightarrow> unshared ns"
  by (simp add: unshared_def)

lemma unshared_disjoint:
  assumes "distinct (map node_PublicKey ns)" "distinct (map node_MeshIP ns)" "unshared ns"
  shows "disjoint_peers (PeerListFor key ns)"
proof -
  have "set (allowed_ips (peer_of_node n)) \<inter> set (allowed_ips (peer_of_node n')) = {}"
    if "n \<in> set ns" "n' \<in> set ns" "peer_of_node n \<noteq> peer_of_node n'" for n n'
  proof -
    have ne: "n \<noteq> n'" using that(3) by auto
    then have "node_MeshIP n \<noteq> node_MeshIP n'" using distinct_map_key [OF assms(2) that(1,2)] by blast
    moreover have "set (node_AdvertisedSubnets n) \<inter> set (node_AdvertisedSubnets n') = {}"
      "node_MeshIP n' @ ''/32'' \<notin> set (node_AdvertisedSubnets n)" "node_MeshIP n @ ''/32'' \<notin> set (node_AdvertisedSubnets n')"
      using assms(3) that(1,2) ne by (auto simp: unshared_def)
    ultimately show ?thesis by (simp add: allowed_ips_node)
  qed
  then show ?thesis using PeerListFor_distinct [OF assms(1)]
    unfolding disjoint_peers_def PeerListFor_map by (auto simp del: distinct_map)
qed

text \<open>The nodes of the tables have one key and one address each.\<close>

lemma nodes_unshared_disjoint:
  "nodes_ok d \<Longrightarrow> unshared (nodes d) \<Longrightarrow> disjoint_peers (PeerListFor key (nodes d))"
  by (rule unshared_disjoint) (simp_all add: nodes_ok_def)

section \<open>The register message\<close>

lemma register_understood:
  assumes "cl_ListenPort c \<in> {- (2 ^ 53) <..< 2 ^ 53}"
  shows "DecodePayload register_fields zero_register (register_msg c) = Some (register_payload c)"
  using assms register_roundtrip [of "register_payload c" TypeRegister]
  by (auto simp: register_msg_def register_payload_def abs_less_iff)

lemma register_handled:
  assumes "cl_ListenPort c \<in> {- (2 ^ 53) <..< 2 ^ 53}"
  shows "handle_message alive conn h (now, register_msg c) (key, s)
    = (cl_PublicKey c, snd (handleRegister alive now conn h (register_payload c) s))"
  using register_understood [OF assms]
  by (simp add: handle_message_def register_msg_def register_payload_def)

section \<open>The peer list\<close>

text \<open>A heartbeat that is handled sends every connected agent the list of the database, and nothing else.\<close>

lemma heartbeat_out:
  assumes "handleHeartbeat alive now key s = (Inr (), s')"
  shows "srv_out s' = srv_out s @ map (\<lambda>(k, conn). (conn, peer_list_msg k (nodes (srv_db s'))))
    (filter (\<lambda>(k, conn). alive conn) (srv_conns s))"
proof -
  obtain d1 ns d2 where l: "ListNodes d1 = (Inr ns, d2)" and s': "s' = broadcastPeerLists alive ns (with_db s d2)"
    using assms by (auto simp: handleHeartbeat_def split: prod.splits sum.splits)
  have "ns = nodes d2" using ListNodes_success [OF l] by (simp add: same_tables_def)
  then show ?thesis by (simp add: s' broadcast_out)
qed

lemma registered_applied:
  assumes wg: "wg_contract i A exec view" and ip: "ip_contract i ok_private public_of exec pause view"
    and c: "m_Interface (cl_WG c) = i" "ok_private (cl_PrivateKey c)" "0 \<le> cl_ListenPort c" "cl_ListenPort c < 2 ^ 16"
    and own: "lk_exists (view k) \<Longrightarrow> lk_peers (view k) (public_of (cl_PrivateKey c)) = None"
    and msg: "is_ip_text meshIP" "\<forall>p \<in> set (PeerListFor key ns). answered i A exec view p"
  shows "view (handle_envelope exec pause c (registered_msg meshIP key ns) k)
    = reached (taken A (PeerListFor key ns)) (PeerListFor key ns) (ensured (cl_PrivateKey c) meshIP (cl_ListenPort c) (view k))"
proof -
  have "env_Type (registered_msg meshIP key ns) = TypeRegistered" by (simp add: registered_msg_def)
  then have "handle_envelope exec pause c (registered_msg meshIP key ns) k
      = snd (applyPeerList exec pause c meshIP (PeerListFor key ns) k)"
    using registered_decoded [of meshIP key ns] by (simp add: handle_envelope_def)
  then show ?thesis using applyPeerList_contract [OF wg ip c own msg] by auto
qed

text \<open>What an interface that holds the list of the mesh has for each node of it.\<close>

lemma holds_nodes:
  assumes "holds_list A (PeerListFor key (nodes d)) l"
    and "\<forall>n \<in> set (nodes d). node_PublicKey n \<noteq> key \<longrightarrow> good_peer A (peer_of_node n)"
  shows "dom (lk_peers l) = node_PublicKey ` set (nodes d) - {key}"
    and "nodes_ok d \<Longrightarrow> unshared (nodes d) \<Longrightarrow> n \<in> set (nodes d) \<Longrightarrow> node_PublicKey n \<noteq> key \<Longrightarrow>
      map_option fst (lk_peers l (node_PublicKey n)) = Some (insert (node_MeshIP n @ ''/32'') (set (node_AdvertisedSubnets n)))"
proof -
  have good: "\<forall>p \<in> set (PeerListFor key (nodes d)). good_peer A p" using assms(2) by (auto simp: PeerListFor_map)
  then show "dom (lk_peers l) = node_PublicKey ` set (nodes d) - {key}"
    using assms(1) by (simp add: holds_list_def PeerListFor_keys)
  assume "nodes_ok d" "unshared (nodes d)" "n \<in> set (nodes d)" "node_PublicKey n \<noteq> key"
  then have "disjoint_peers (PeerListFor key (nodes d))" "peer_of_node n \<in> set (PeerListFor key (nodes d))"
    by (auto simp: PeerListFor_map [of key "nodes d"] intro: nodes_unshared_disjoint [unfolded PeerListFor_map])
  from holds_exact [OF assms(1) good this]
  show "map_option fst (lk_peers l (node_PublicKey n)) = Some (insert (node_MeshIP n @ ''/32'') (set (node_AdvertisedSubnets n)))"
    by (simp add: allowed_ips_node)
qed

text \<open>The keys of a list are those of different nodes.\<close>

lemma nodes_ok_keys: "nodes_ok d \<Longrightarrow> distinct (map peer_PublicKey (PeerListFor key (nodes d)))"
  by (rule PeerListFor_distinct) (simp add: nodes_ok_def)

end
