(* ===== verification/AgentMain.thy ===== *)
theory AgentMain
  imports WsClient
begin

text \<open>
  cmd/agent/main.go: the configuration from environment variables and the persistent key.
  \<open>env\<close> is \<open>os.Getenv\<close> (the empty string for an unset variable); the file system is a
  record of parameters. \<open>log.Fatalf\<close> is a \<open>fatal\<close> value. The lemmas show that a node's
  identity survives restarts, what the parsers of list and integer variables accept, and
  when the heartbeat interval overflows.
\<close>

datatype keypair_error = WgErr wg_error | MkdirErr string | WriteErr string

datatype fatal =
    EnvMissing string
  | EnvNotInteger string string
  | KeypairErr keypair_error

record 'k files =
  f_read :: "string \<Rightarrow> 'k \<Rightarrow> string option"
  f_mkdir :: "string \<Rightarrow> nat \<Rightarrow> 'k \<Rightarrow> bool \<times> 'k"
  f_write :: "string \<Rightarrow> string \<Rightarrow> nat \<Rightarrow> 'k \<Rightarrow> bool \<times> 'k"

section \<open>Environment variables\<close>

definition requireEnv :: "(string \<Rightarrow> string) \<Rightarrow> string \<Rightarrow> fatal + string" where
  "requireEnv env key = (if env key = [] then Inl (EnvMissing key) else Inr (env key))"

definition envOr :: "(string \<Rightarrow> string) \<Rightarrow> string \<Rightarrow> string \<Rightarrow> string" where
  "envOr env key fallback = (if env key \<noteq> [] then env key else fallback)"

definition envOrList :: "(string \<Rightarrow> string) \<Rightarrow> string \<Rightarrow> string list" where
  "envOrList env key = (if env key = [] then []
     else filter (\<lambda>p. p \<noteq> []) (map TrimSpace (Split (env key) (CHR '',''))))"

definition envOrInt :: "(string \<Rightarrow> string) \<Rightarrow> string \<Rightarrow> int \<Rightarrow> fatal + int" where
  "envOrInt env key fallback = (if env key = [] then Inr fallback
     else case Atoi (env key) of None \<Rightarrow> Inl (EnvNotInteger key (env key)) | Some n \<Rightarrow> Inr n)"

section \<open>The key file\<close>

text \<open>The loop of \<open>dirOf\<close>, from index \<open>n - 1\<close> down.\<close>

fun dir_loop :: "string \<Rightarrow> nat \<Rightarrow> string" where
  "dir_loop path 0 = ''.''"
| "dir_loop path (Suc i) = (if path ! i = CHR ''/'' then take i path else dir_loop path i)"

definition dirOf :: "string \<Rightarrow> string" where
  "dirOf path = dir_loop path (length path)"

text \<open>The permissions 0700 and 0600.\<close>

definition dir_mode :: nat where "dir_mode = 7 * 8 ^ 2"
definition key_mode :: nat where "key_mode = 6 * 8 ^ 2"

definition loadOrCreateKeypair ::
  "'k files \<Rightarrow> 'k exec \<Rightarrow> string \<Rightarrow> 'k \<Rightarrow> (keypair_error + string \<times> string) \<times> 'k" where
  "loadOrCreateKeypair fs exec path k = (case f_read fs path k of
       Some priv \<Rightarrow> (case PubKeyFor exec priv k of
           (Inl e, k1) \<Rightarrow> (Inl (WgErr e), k1)
         | (Inr pub, k1) \<Rightarrow> (Inr (priv, pub), k1))
     | None \<Rightarrow> (case GenerateKeypair exec k of
           (Inl e, k1) \<Rightarrow> (Inl (WgErr e), k1)
         | (Inr (priv, pub), k1) \<Rightarrow> (case f_mkdir fs (dirOf path) dir_mode k1 of
             (False, k2) \<Rightarrow> (Inl (MkdirErr (dirOf path)), k2)
           | (True, k2) \<Rightarrow> (case f_write fs path priv key_mode k2 of
               (False, k3) \<Rightarrow> (Inl (WriteErr path), k3)
             | (True, k3) \<Rightarrow> (Inr (priv, pub), k3)))))"

text \<open>A \<open>time.Duration\<close> is an int64 count of nanoseconds and the product wraps.\<close>

definition wrap64 :: "int \<Rightarrow> int" where
  "wrap64 i = sint (word_of_int i :: 64 word)"

definition seconds :: "int \<Rightarrow> int" where
  "seconds n = wrap64 (n * second)"

text \<open>\<open>main\<close> up to \<open>client.Run\<close>.\<close>

definition configure_agent ::
  "(string \<Rightarrow> string) \<Rightarrow> 'k files \<Rightarrow> 'k exec \<Rightarrow> 'k \<Rightarrow> (fatal + Client) \<times> 'k" where
  "configure_agent env fs exec k =
     (case requireEnv env ''RVTX_CONTROLPLANE_URL'' of Inl e \<Rightarrow> (Inl e, k) | Inr url \<Rightarrow>
      case requireEnv env ''RVTX_NODE_NAME'' of Inl e \<Rightarrow> (Inl e, k) | Inr name \<Rightarrow>
      case envOrInt env ''RVTX_LISTEN_PORT'' 51820 of Inl e \<Rightarrow> (Inl e, k) | Inr listenPort \<Rightarrow>
      case envOrInt env ''RVTX_HEARTBEAT_SECONDS'' 15 of Inl e \<Rightarrow> (Inl e, k) | Inr heartbeatSeconds \<Rightarrow>
      case loadOrCreateKeypair fs exec (envOr env ''RVTX_KEY_PATH'' ''/etc/rvtx/private.key'') k of
        (Inl e, k1) \<Rightarrow> (Inl (KeypairErr e), k1)
      | (Inr (privateKey, publicKey), k1) \<Rightarrow>
          (Inr \<lparr>cl_URL = url, cl_Name = name, cl_PrivateKey = privateKey, cl_PublicKey = publicKey,
             cl_ListenPort = listenPort, cl_HeartbeatInterval = seconds heartbeatSeconds,
             cl_EndpointOverride = envOr env ''RVTX_ENDPOINT_OVERRIDE'' [],
             cl_WG = new_manager (envOr env ''RVTX_INTERFACE'' ''rvtx0''),
             cl_AdvertisedSubnets = envOrList env ''RVTX_ADVERTISE_SUBNETS''\<rparr>, k1))"

text \<open>
  The whole process: it ends in a fatal error, or runs the client for the given sessions
  (\<open>None\<close> for a panic of its ticker).
\<close>

definition agent_main ::
  "(string \<Rightarrow> string) \<Rightarrow> 'k files \<Rightarrow> 'k exec \<Rightarrow> (nat \<Rightarrow> 'k \<Rightarrow> 'k) \<Rightarrow> session list \<Rightarrow> 'k
    \<Rightarrow> fatal + ((Envelope list \<times> int) list \<times> 'k) option" where
  "agent_main env fs exec pause ss k = (case configure_agent env fs exec k of
       (Inl e, k1) \<Rightarrow> Inl e
     | (Inr c, k1) \<Rightarrow> Inr (Run exec pause c ss k1))"

section \<open>Paths and lists\<close>

lemma dir_loop_found: "i < n \<Longrightarrow> path ! i = CHR ''/'' \<Longrightarrow> (\<forall>j. i < j \<and> j < n \<longrightarrow> path ! j \<noteq> CHR ''/'') \<Longrightarrow>
    dir_loop path n = take i path"
proof (induction n)
  case (Suc n)
  then show ?case by (cases "i = n") auto
qed simp

lemma dir_loop_none: "(\<forall>j < n. path ! j \<noteq> CHR ''/'') \<Longrightarrow> dir_loop path n = ''.''"
  by (induction n) auto

lemma dirOf_slash: "CHR ''/'' \<notin> set base \<Longrightarrow> dirOf (dir @ CHR ''/'' # base) = dir"
proof -
  assume "CHR ''/'' \<notin> set base"
  then have "\<forall>j. length dir < j \<and> j < length (dir @ CHR ''/'' # base) \<longrightarrow> (dir @ CHR ''/'' # base) ! j \<noteq> CHR ''/''"
    by (auto simp: nth_append nth_Cons in_set_conv_nth split: nat.splits)
  then show ?thesis
    using dir_loop_found [of "length dir" "length (dir @ CHR ''/'' # base)" "dir @ CHR ''/'' # base"]
    by (simp add: dirOf_def)
qed

lemma dirOf_plain: "CHR ''/'' \<notin> set path \<Longrightarrow> dirOf path = ''.''"
  unfolding dirOf_def by (rule dir_loop_none) (auto simp: in_set_conv_nth)

lemma envOrList_entries:
  "p \<in> set (envOrList env key) \<Longrightarrow> p \<noteq> [] \<and> \<not> is_space (hd p) \<and> \<not> is_space (last p)"
  using TrimSpace_outer by (auto simp: envOrList_def split: if_splits)

lemma envOrList_Join:
  assumes "env key = Join xs '',''" "\<And>x. x \<in> set xs \<Longrightarrow> x \<noteq> [] \<and> no_space x \<and> CHR '','' \<notin> set x"
  shows "envOrList env key = xs"
proof (cases "xs = []")
  case False
  then have "env key \<noteq> []" using assms by (cases xs rule: list.exhaust [case_names Nil Cons]) (auto elim: Join.elims)
  moreover have "Split (env key) (CHR '','') = xs"
    unfolding assms(1) using assms(2) False by (intro Split_Join) auto
  moreover have "map TrimSpace xs = xs" "filter (\<lambda>p. p \<noteq> []) xs = xs"
    using assms(2) by (auto simp: map_idI filter_id_conv)
  ultimately show ?thesis by (simp add: envOrList_def)
qed (use assms(1) in \<open>simp add: envOrList_def\<close>)

section \<open>Identity\<close>

text \<open>
  What the key file and \<open>wg pubkey\<close> are relied on for: a written file reads back, and the
  public key is a function of the private key and touches no file.
\<close>

definition key_contract :: "'k files \<Rightarrow> 'k exec \<Rightarrow> string \<Rightarrow> bool" where
  "key_contract fs exec path \<longleftrightarrow>
     (\<forall>priv k k'. f_write fs path priv key_mode k = (True, k') \<longrightarrow> f_read fs path k' = Some priv) \<and>
     (\<forall>priv k k'. fst (exec [''wg'', ''pubkey''] priv k) = fst (exec [''wg'', ''pubkey''] priv k')) \<and>
     (\<forall>priv k. f_read fs path (snd (exec [''wg'', ''pubkey''] priv k)) = f_read fs path k)"

lemma PubKeyFor_pure:
  assumes "key_contract fs exec path"
  shows "fst (PubKeyFor exec priv k) = fst (PubKeyFor exec priv k')"
    and "f_read fs path (snd (PubKeyFor exec priv k)) = f_read fs path k"
proof -
  have p: "fst (exec [''wg'', ''pubkey''] priv k) = fst (exec [''wg'', ''pubkey''] priv k')"
    "f_read fs path (snd (exec [''wg'', ''pubkey''] priv k)) = f_read fs path k"
    using assms unfolding key_contract_def by blast+
  show "fst (PubKeyFor exec priv k) = fst (PubKeyFor exec priv k')"
    using p(1) by (auto simp: PubKeyFor_def split: prod.splits)
  show "f_read fs path (snd (PubKeyFor exec priv k)) = f_read fs path k"
    using p(2) by (auto simp: PubKeyFor_def split: prod.splits)
qed

lemma generated_pair:
  assumes "GenerateKeypair exec k = (Inr (priv, pub), k')"
  shows "\<exists>k1. PubKeyFor exec priv k1 = (Inr pub, k')"
proof -
  obtain k1 out where "exec [''wg'', ''pubkey''] priv k1 = ((True, out), k')" "pub = TrimSpace out"
    using assms by (auto simp: GenerateKeypair_def Let_def split: prod.splits if_splits)
  then have "PubKeyFor exec priv k1 = (Inr pub, k')" by (simp add: PubKeyFor_def)
  then show ?thesis ..
qed

text \<open>
  After a start that succeeds, the file holds the private key and its public half is the one
  that was returned: every later start returns the same pair.
\<close>

lemma key_kept:
  assumes C: "key_contract fs exec path" and run: "loadOrCreateKeypair fs exec path k = (Inr (priv, pub), k')"
  shows "f_read fs path k' = Some priv \<and> fst (PubKeyFor exec priv k'') = Inr pub"
proof (cases "f_read fs path k")
  case (Some p)
  then have "PubKeyFor exec p k = (Inr pub, k')" "p = priv"
    using run by (auto simp: loadOrCreateKeypair_def split: prod.splits sum.splits)
  then show ?thesis using PubKeyFor_pure(1) [OF C, of p k k''] PubKeyFor_pure(2) [OF C, of p k] Some by simp
next
  case None
  then obtain k1 k2 where gen: "GenerateKeypair exec k = (Inr (priv, pub), k1)" "f_write fs path priv key_mode k2 = (True, k')"
    using run by (auto simp: loadOrCreateKeypair_def split: prod.splits sum.splits bool.splits)
  obtain k0 where "PubKeyFor exec priv k0 = (Inr pub, k1)" using generated_pair [OF gen(1)] by blast
  then have "fst (PubKeyFor exec priv k'') = Inr pub" using PubKeyFor_pure(1) [OF C, of priv k0 k''] by simp
  moreover have "f_read fs path k' = Some priv" using C gen(2) unfolding key_contract_def by blast
  ultimately show ?thesis by blast
qed

lemma identity_survives:
  assumes C: "key_contract fs exec path" and run: "loadOrCreateKeypair fs exec path k = (Inr (priv, pub), k')"
    and same: "f_read fs path k'' = f_read fs path k'"
  shows "fst (loadOrCreateKeypair fs exec path k'') = Inr (priv, pub)"
    and "f_read fs path (snd (loadOrCreateKeypair fs exec path k'')) = Some priv"
proof -
  have kept: "f_read fs path k'' = Some priv" "fst (PubKeyFor exec priv k'') = Inr pub"
    using key_kept [OF C run] same by auto
  then show "fst (loadOrCreateKeypair fs exec path k'') = Inr (priv, pub)"
    by (cases "PubKeyFor exec priv k''") (simp add: loadOrCreateKeypair_def)
  show "f_read fs path (snd (loadOrCreateKeypair fs exec path k'')) = Some priv"
    using kept PubKeyFor_pure(2) [OF C, of priv k'']
    by (cases "PubKeyFor exec priv k''") (simp add: loadOrCreateKeypair_def)
qed


text \<open>A restart: the same environment and key file give the same client.\<close>

lemma configure_again:
  assumes C: "key_contract fs exec path" and path: "path = envOr env ''RVTX_KEY_PATH'' ''/etc/rvtx/private.key''"
    and run: "configure_agent env fs exec k = (Inr c, k')" and same: "f_read fs path k'' = f_read fs path k'"
  shows "fst (configure_agent env fs exec k'') = Inr c"
    and "f_read fs path (snd (configure_agent env fs exec k'')) = f_read fs path k'"
proof -
  obtain url name port beats priv pub where vars: "requireEnv env ''RVTX_CONTROLPLANE_URL'' = Inr url"
      "requireEnv env ''RVTX_NODE_NAME'' = Inr name" "envOrInt env ''RVTX_LISTEN_PORT'' 51820 = Inr port"
      "envOrInt env ''RVTX_HEARTBEAT_SECONDS'' 15 = Inr beats"
    and first: "loadOrCreateKeypair fs exec path k = (Inr (priv, pub), k')"
    using run by (auto simp: configure_agent_def path split: sum.splits prod.splits)
  obtain k3 where again: "loadOrCreateKeypair fs exec path k'' = (Inr (priv, pub), k3)" "f_read fs path k3 = Some priv"
    using identity_survives [OF C first same] by (metis prod.collapse)
  then show "fst (configure_agent env fs exec k'') = Inr c"
    using run first vars by (simp add: configure_agent_def path)
  show "f_read fs path (snd (configure_agent env fs exec k'')) = f_read fs path k'"
    using again vars key_kept [OF C first] by (simp add: configure_agent_def path)
qed
text \<open>A key file that cannot be read, for whatever reason, is replaced by a new key.\<close>

lemma unreadable_replaced:
  assumes "key_contract fs exec path" "f_read fs path k = None" "GenerateKeypair exec k = (Inr (priv, pub), k1)"
    "loadOrCreateKeypair fs exec path k = (Inr r, k')"
  shows "r = (priv, pub) \<and> f_read fs path k' = Some priv"
proof -
  have "r = (priv, pub)"
    using assms(2-4) by (auto simp: loadOrCreateKeypair_def split: prod.splits bool.splits)
  then show ?thesis using key_kept [OF assms(1)] assms(4) by blast
qed

section \<open>The heartbeat interval\<close>

lemma seconds_small:
  assumes "\<bar>n\<bar> \<le> 9223372036"
  shows "seconds n = n * second"
proof -
  have "- (2 ^ 63) \<le> n * second \<and> n * second < 2 ^ 63" using assms by (auto simp: second_def)
  then have "signed_take_bit 63 (n * second) = n * second"
    by (simp add: signed_take_bit_int_eq_self)
  then show ?thesis unfolding seconds_def wrap64_def sint_sbintrunc' by simp
qed

text \<open>One second more wraps to a negative interval, for which the ticker panics.\<close>

lemma seconds_overflow: "seconds 9223372037 < 0"
  by (simp add: seconds_def wrap64_def second_def sint_sbintrunc' signed_take_bit_int_eq_self_iff)

end
