(* ===== verification/AgentSamples.thy ===== *)
theory AgentSamples
  imports AgentSystem AgentMain
begin

text \<open>
  A small host on which the theorems about the agent are applied: one interface \<open>rvtx0\<close>
  kept as lists, one key file, and the commands the agent issues, each doing what its
  documentation says. The lemmas show that it meets the contracts the theorems assume.
\<close>

record host =
  h_exists :: bool
  h_up :: bool
  h_key :: "string option"
  h_port :: "string option"
  h_addrs :: "string list"
  h_peers :: "(string \<times> string list \<times> string option) list"
  h_routes :: "string list"
  h_file :: "string option"

definition cidr_text :: "string \<Rightarrow> bool" where
  "cidr_text c \<longleftrightarrow> token c \<and> CHR '','' \<notin> set c"

definition addr_ok :: "string \<Rightarrow> bool" where
  "addr_ok a \<longleftrightarrow> is_ip_text (take (length a - 3) a) \<and> a = take (length a - 3) a @ ''/32''"

lemma addr_ok_iff [simp]: "addr_ok a \<longleftrightarrow> (\<exists>m. is_ip_text m \<and> a = m @ ''/32'')"
  by (auto simp: addr_ok_def)

definition host_ok :: "host \<Rightarrow> bool" where
  "host_ok h \<longleftrightarrow> h_exists h \<and> distinct (map fst (h_peers h))
     \<and> (\<forall>(key, ips, ep) \<in> set (h_peers h). token key \<and> (\<forall>c \<in> set ips. cidr_text c))
     \<and> (\<forall>a \<in> set (h_addrs h). addr_ok a)"

definition host_view :: "host \<Rightarrow> link" where
  "host_view h = \<lparr>lk_exists = host_ok h, lk_up = h_up h, lk_key = h_key h, lk_port = h_port h,
     lk_addrs = set (h_addrs h),
     lk_peers = (\<lambda>k. map_option (\<lambda>(ips, ep). (set ips, ep)) (map_of (h_peers h) k)),
     lk_routes = set (h_routes h)\<rparr>"

definition put_peer :: "string \<Rightarrow> string list \<Rightarrow> string option \<Rightarrow> host \<Rightarrow> host" where
  "put_peer key ips ep h = h\<lparr>h_peers :=
     (key, ips, (case ep of Some e \<Rightarrow> Some e | None \<Rightarrow> Option.bind (map_of (h_peers h) key) snd))
     # map (\<lambda>(k, i, e). (k, filter (\<lambda>c. c \<notin> set ips) i, e)) (filter (\<lambda>p. fst p \<noteq> key) (h_peers h))\<rparr>"

definition new_host :: "host \<Rightarrow> host" where
  "new_host h = h\<lparr>h_exists := True, h_up := False, h_key := None, h_port := None, h_addrs := [],
     h_peers := [], h_routes := []\<rparr>"

text \<open>
  A command answers whether it succeeded, what it printed, and the new state. The host
  refuses a key or an address that is not one word.
\<close>

definition peer_args :: "string \<Rightarrow> string list \<Rightarrow> bool" where
  "peer_args key ips \<longleftrightarrow> token key \<and> list_all cidr_text ips"

definition wg_set :: "string list \<Rightarrow> string \<Rightarrow> host \<Rightarrow> (bool \<times> string) \<times> host" where
  "wg_set args stdin h = (case args of
     [a, b, c, d] \<Rightarrow>
       if a = ''private-key'' \<and> c = ''listen-port'' then ((host_ok h, []), h\<lparr>h_key := Some stdin, h_port := Some d\<rparr>)
       else if a = ''peer'' \<and> c = ''allowed-ips'' \<and> peer_args b (Split d (CHR '','')) then ((host_ok h, []), put_peer b (Split d (CHR '','')) None h)
       else ((False, []), h)
   | [a, b, c] \<Rightarrow>
       if a = ''peer'' \<and> c = ''remove'' then ((host_ok h, []), h\<lparr>h_peers := filter (\<lambda>p. fst p \<noteq> b) (h_peers h)\<rparr>)
       else ((False, []), h)
   | [a, b, c, d, e, f] \<Rightarrow>
       if a = ''peer'' \<and> c = ''allowed-ips'' \<and> e = ''endpoint'' \<and> peer_args b (Split d (CHR '',''))
       then ((host_ok h, []), put_peer b (Split d (CHR '','')) (Some f) h)
       else ((False, []), h)
   | _ \<Rightarrow> ((False, []), h))"

definition ip_route :: "string \<Rightarrow> string \<Rightarrow> host \<Rightarrow> (bool \<times> string) \<times> host" where
  "ip_route verb c h =
     (if verb = ''show'' then ((True, if c \<in> set (h_routes h) then c @ '' scope link'' else []), h)
      else if verb = ''add'' then
        (if host_ok h \<and> h_up h \<and> c \<notin> set (h_routes h) then ((True, []), h\<lparr>h_routes := c # h_routes h\<rparr>) else ((False, []), h))
      else ((c \<in> set (h_routes h), []), h\<lparr>h_routes := filter (\<lambda>r. r \<noteq> c) (h_routes h)\<rparr>))"

definition host_exec :: "host exec" where
  "host_exec argv stdin h =
     (if argv = [''wg'', ''genkey''] then ((True, ''PRIV''), h)
      else if argv = [''wg'', ''pubkey''] then ((True, ''pub:'' @ stdin), h)
      else if argv = [''ip'', ''link'', ''show'', ''rvtx0''] then ((host_ok h, []), h)
      else if argv = [''ip'', ''link'', ''add'', ''dev'', ''rvtx0'', ''type'', ''wireguard''] then
        (if host_ok h then ((False, []), h) else ((True, []), new_host h))
      else if argv = [''ip'', ''link'', ''set'', ''up'', ''dev'', ''rvtx0''] then ((host_ok h, []), h\<lparr>h_up := True\<rparr>)
      else if argv = [''wg'', ''show'', ''rvtx0'', ''allowed-ips''] then
        ((True, show_peers (map (\<lambda>(k, i, e). (k, i)) (h_peers h))), h)
      else if argv = [''ip'', ''-4'', ''addr'', ''show'', ''dev'', ''rvtx0''] then
        ((True, concat (map (\<lambda>a. a @ [CHR 0x0A]) (h_addrs h))), h)
      else (case argv of
          w # s # i # rest \<Rightarrow>
            if w = ''wg'' \<and> s = ''set'' \<and> i = ''rvtx0'' then wg_set rest stdin h
            else if w = ''ip'' \<and> s = ''addr'' \<and> i = ''add'' then
              (case rest of a # _ \<Rightarrow> ((host_ok h, []), h\<lparr>h_addrs := a # h_addrs h\<rparr>) | [] \<Rightarrow> ((False, []), h))
            else if w = ''ip'' \<and> s = ''route'' then
              (case rest of c # _ \<Rightarrow> ip_route i c h | [] \<Rightarrow> ((False, []), h))
            else ((False, []), h)
        | _ \<Rightarrow> ((False, []), h)))"

definition host_pause :: "nat \<Rightarrow> host \<Rightarrow> host" where
  "host_pause n h = h"

definition host_args :: wg_args where
  "host_args = \<lparr>ok_key = token, ok_cidr = cidr_text, ok_endpoint = (\<lambda>_. True)\<rparr>"

definition host_public :: "string \<Rightarrow> string" where
  "host_public priv = ''pub:'' @ priv"

definition host_files :: "host files" where
  "host_files = \<lparr>f_read = (\<lambda>path h. h_file h), f_mkdir = (\<lambda>path mode h. (path \<noteq> [], h)),
     f_write = (\<lambda>path data mode h. (True, h\<lparr>h_file := Some data\<rparr>))\<rparr>"

definition empty_host :: host where
  "empty_host = \<lparr>h_exists = False, h_up = False, h_key = None, h_port = None, h_addrs = [], h_peers = [],
     h_routes = [], h_file = None\<rparr>"

section \<open>The contracts hold\<close>

lemma host_view_sel [simp]:
  "lk_exists (host_view h) = host_ok h" "lk_up (host_view h) = h_up h" "lk_routes (host_view h) = set (h_routes h)"
  "lk_addrs (host_view h) = set (h_addrs h)" "lk_key (host_view h) = h_key h" "lk_port (host_view h) = h_port h"
  by (simp_all add: host_view_def)

lemma host_key_contract: "key_contract host_files host_exec path"
  by (simp add: key_contract_def host_files_def host_exec_def)

lemma map_of_ips: "map_of (map (\<lambda>(k, i, e). (k, i)) ps) key = map_option fst (map_of ps key)"
  by (induction ps) auto

lemma host_shows: "shows_peers ''rvtx0'' host_args host_exec host_view"
  unfolding shows_peers_def
proof (intro allI impI)
  fix h assume "lk_exists (host_view h)"
  then have ok: "host_ok h" by simp
  let ?ps = "map (\<lambda>(k, i, e). (k, i)) (h_peers h)"
  have "map_option set (map_of ?ps key) = map_option fst (lk_peers (host_view h) key)" for key
    unfolding map_of_ips by (cases "map_of (h_peers h) key") (auto simp: host_view_def)
  moreover have "distinct (map fst ?ps)" using ok by (simp add: host_ok_def comp_def case_prod_unfold)
  ultimately have "lists_peers ?ps (host_view h)" by (simp add: lists_peers_def)
  moreover have "\<forall>(key, ips) \<in> set ?ps. token key \<and> (\<forall>c \<in> set ips. token c \<and> ok_cidr host_args c)"
    using ok by (fastforce simp: host_ok_def host_args_def cidr_text_def)
  ultimately show "\<exists>ps ok k'. host_exec [''wg'', ''show'', ''rvtx0'', ''allowed-ips''] [] h = ((ok, show_peers ps), k')
      \<and> host_view k' = host_view h \<and> lists_peers ps (host_view h) \<and> (ok \<or> ps = [])
      \<and> (\<forall>(key, ips) \<in> set ps. token key \<and> (\<forall>c \<in> set ips. token c \<and> ok_cidr host_args c))"
    by (intro exI [of _ ?ps] exI [of _ True] exI [of _ h]) (simp add: host_exec_def)
qed

lemma put_peer_map:
  "map_of (map (\<lambda>(k, i, e). (k, f i, e)) (filter (\<lambda>p. fst p \<noteq> key) ps)) k
    = (if k = key then None else map_option (\<lambda>(i, e). (f i, e)) (map_of ps k))"
  by (induction ps) auto

lemma put_peer_sel [simp]:
  "h_exists (put_peer key ips ep h) = h_exists h" "h_up (put_peer key ips ep h) = h_up h"
  "h_key (put_peer key ips ep h) = h_key h" "h_port (put_peer key ips ep h) = h_port h"
  "h_addrs (put_peer key ips ep h) = h_addrs h" "h_routes (put_peer key ips ep h) = h_routes h"
  by (simp_all add: put_peer_def)

lemma put_peer_ok: "host_ok h \<Longrightarrow> token key \<Longrightarrow> (\<forall>c \<in> set ips. cidr_text c) \<Longrightarrow> host_ok (put_peer key ips ep h)"
  by (auto simp: host_ok_def put_peer_def distinct_map_filter comp_def case_prod_unfold)

lemma put_peer_view:
  assumes "host_ok h" "token key" "\<forall>c \<in> set ips. cidr_text c"
  shows "host_view (put_peer key ips ep h) = with_peer key (set ips) ep (host_view h)"
proof (rule link.equality)
  have "lk_peers (host_view (put_peer key ips ep h)) k = lk_peers (with_peer key (set ips) ep (host_view h)) k" for k
    by (cases "map_of (h_peers h) k"; cases ep)
       (auto simp: host_view_def put_peer_def with_peer_def put_peer_map)
  then show "lk_peers (host_view (put_peer key ips ep h)) = lk_peers (with_peer key (set ips) ep (host_view h))" by (rule ext)
qed (simp_all add: put_peer_ok [OF assms] assms(1) with_peer_def)

lemma cidr_Split: "\<forall>c \<in> set ips. cidr_text c \<Longrightarrow> ips \<noteq> [] \<Longrightarrow> Split (Join ips '','') (CHR '','') = ips"
  by (rule Split_Join) (auto simp: cidr_text_def)

lemma host_sets: "sets_peers ''rvtx0'' host_args host_exec host_view"
  unfolding sets_peers_def
proof (intro conjI allI impI)
  fix key
  show "effect host_exec host_view [''wg'', ''set'', ''rvtx0'', ''peer'', key, ''remove''] []
      (\<lambda>l. lk_exists l \<and> key \<in> dom (lk_peers l)) (without_peer key)"
    unfolding effect_def
  proof (intro allI impI)
    fix h assume "lk_exists (host_view h) \<and> key \<in> dom (lk_peers (host_view h))"
    then have ok: "host_ok h" by simp
    let ?h = "h\<lparr>h_peers := filter (\<lambda>p. fst p \<noteq> key) (h_peers h)\<rparr>"
    have "map_of (filter (\<lambda>p. fst p \<noteq> key) ps) k = (if k = key then None else map_of ps k)"
      for k and ps :: "(string \<times> string list \<times> string option) list"
      by (induction ps) auto
    then have "host_view ?h = without_peer key (host_view h)"
      using ok by (auto simp: host_view_def without_peer_def host_ok_def distinct_map_filter fun_eq_iff)
    then show "fst (fst (host_exec [''wg'', ''set'', ''rvtx0'', ''peer'', key, ''remove''] [] h)) \<and>
        host_view (snd (host_exec [''wg'', ''set'', ''rvtx0'', ''peer'', key, ''remove''] [] h)) = without_peer key (host_view h)"
      using ok by (simp add: host_exec_def wg_set_def)
  qed
next
  fix key ips assume "ok_key host_args key \<and> (\<forall>c \<in> set ips. ok_cidr host_args c) \<and> ips \<noteq> []"
  then have arg: "token key" "\<forall>c \<in> set ips. cidr_text c" "ips \<noteq> []" by (simp_all add: host_args_def)
  note split = cidr_Split [OF arg(2,3)]
  have taken: "peer_args key ips" using arg by (simp add: peer_args_def list_all_iff)
  show "effect host_exec host_view [''wg'', ''set'', ''rvtx0'', ''peer'', key, ''allowed-ips'', Join ips '','']
        [] lk_exists (with_peer key (set ips) None)"
    using put_peer_view [OF _ arg(1,2)] taken by (simp add: effect_def host_exec_def wg_set_def split)
  fix ep
  show "effect host_exec host_view [''wg'', ''set'', ''rvtx0'', ''peer'', key, ''allowed-ips'', Join ips '','', ''endpoint'', ep]
        [] lk_exists (with_peer key (set ips) (Some ep))"
    using put_peer_view [OF _ arg(1,2)] taken by (simp add: effect_def host_exec_def wg_set_def split)
qed

lemma host_routes: "keeps_routes ''rvtx0'' host_args host_exec host_view"
  unfolding keeps_routes_def
proof (intro allI impI conjI)
  fix c h assume c: "ok_cidr host_args c" and "lk_exists (host_view h)"
  then have "c \<noteq> []" "\<not> is_space (hd c)" by (auto simp: host_args_def cidr_text_def token_def no_space_def)
  then have "TrimSpace (c @ '' scope link'') \<noteq> []"
    by (cases c) (auto simp: TrimSpace_def TrimLeft_def)
  then show "\<exists>out k'. host_exec [''ip'', ''route'', ''show'', c, ''dev'', ''rvtx0''] [] h = ((True, out), k')
      \<and> host_view k' = host_view h \<and> (TrimSpace out \<noteq> [] \<longleftrightarrow> c \<in> lk_routes (host_view h))"
    by (simp add: host_exec_def ip_route_def TrimSpace_def TrimLeft_def)
next
  fix c
  show "effect host_exec host_view [''ip'', ''route'', ''add'', c, ''dev'', ''rvtx0''] []
      (\<lambda>l. lk_exists l \<and> lk_up l \<and> c \<notin> lk_routes l) (\<lambda>l. l\<lparr>lk_routes := insert c (lk_routes l)\<rparr>)"
    by (auto simp: effect_def host_exec_def ip_route_def host_view_def host_ok_def)
  fix h assume "lk_exists (host_view h)"
  show "host_view (snd (host_exec [''ip'', ''route'', ''del'', c, ''dev'', ''rvtx0''] [] h))
      = (host_view h)\<lparr>lk_routes := lk_routes (host_view h) - {c}\<rparr>"
    by (auto simp: host_exec_def ip_route_def host_view_def host_ok_def)
qed

lemma host_wg: "wg_contract ''rvtx0'' host_args host_exec host_view"
  by (simp add: wg_contract_def host_shows host_sets host_routes)

lemma host_refuses: "\<not> token (peer_PublicKey p) \<Longrightarrow> refused ''rvtx0'' host_exec host_view p"
  by (auto simp: refused_def set_peer_argv_def host_exec_def wg_set_def peer_args_def)

section \<open>Addresses in the output\<close>

lemma append_inside:
  assumes "x @ s @ y = a @ c # r" "c \<notin> set s" "s \<noteq> []"
  shows "(\<exists>u v. a = u @ s @ v) \<or> (\<exists>u v. r = u @ s @ v)"
proof -
  from assms(1) consider u where "x @ u = a" "s @ y = u @ c # r" | u where "x = a @ u" "u @ s @ y = c # r"
    by (auto simp: append_eq_append_conv2)
  then show ?thesis
  proof cases
    case 1
    from 1(2) obtain v where "s @ v = u \<or> s = u @ v \<and> v @ y = c # r"
      by (auto simp: append_eq_append_conv2)
    then have "s @ v = u" using assms(2) 1(2) by (cases v) (auto simp: append_eq_append_conv2)
    then show ?thesis using 1(1) by blast
  next
    case 2
    show ?thesis
    proof (cases u)
      case Nil
      then show ?thesis using 2(2) assms(2,3) by (cases s) auto
    next
      case (Cons b u')
      then show ?thesis using 2(2) by auto
    qed
  qed
qed

lemma Contains_lines:
  assumes "c \<notin> set s" "s \<noteq> []"
  shows "Contains (concat (map (\<lambda>a. a @ [c]) as)) s \<longleftrightarrow> (\<exists>a \<in> set as. Contains a s)"
proof (induction as)
  case (Cons a as)
  have "Contains (a @ c # r) s \<longleftrightarrow> Contains a s \<or> Contains r s" for r
  proof
    assume "Contains (a @ c # r) s"
    then obtain x y where "x @ s @ y = a @ c # r" unfolding Contains_iff by metis
    from append_inside [OF this assms] show "Contains a s \<or> Contains r s" unfolding Contains_iff .
  next
    assume "Contains a s \<or> Contains r s"
    then show "Contains (a @ c # r) s" unfolding Contains_iff by (metis append.assoc append_Cons)
  qed
  then show ?case using Cons by simp
qed (use assms(2) in simp)

lemma ip_text_chars: "is_ip_text m \<Longrightarrow> \<not> is_digit c \<Longrightarrow> c \<noteq> CHR ''.'' \<Longrightarrow> c \<notin> set m"
proof
  assume "is_ip_text m" "\<not> is_digit c" "c \<noteq> CHR ''.''" "c \<in> set m"
  then obtain a where "c \<in> set (IP_String a)" by (auto simp: is_ip_text_def split: sum.splits)
  then show False using FormatNat_not_in [of c] \<open>\<not> is_digit c\<close> \<open>c \<noteq> CHR ''.''\<close>
    by (auto simp: IP_String_def dest!: set_Join)
qed

lemma address_end:
  assumes "is_ip_text m" "is_ip_text m'"
  shows "Contains (m' @ ''/32'') (m @ ''/32'') \<longleftrightarrow> ends_with (m' @ ''/32'') (m @ ''/32'')"
proof -
  have no_slash: "CHR ''/'' \<notin> set m" "CHR ''/'' \<notin> set m'"
    using ip_text_chars [OF assms(1)] ip_text_chars [OF assms(2)] by (simp_all add: is_digit_def)
  have "v = []" if "m' @ ''/32'' = u @ (m @ ''/32'') @ v" for u v
  proof -
    have "m' @ CHR ''/'' # ''32'' = (u @ m) @ CHR ''/'' # (''32'' @ v)" using that by simp
    then have "''32'' = ''32'' @ v"
      using no_slash(2) by (subst (asm) append_Cons_eq_iff) simp_all
    then show ?thesis by simp
  qed
  moreover have "ends_with (m' @ ''/32'') (m @ ''/32'') \<longleftrightarrow> (\<exists>u. m' @ ''/32'' = u @ m @ ''/32'')"
  proof
    assume "ends_with (m' @ ''/32'') (m @ ''/32'')"
    then obtain r where "rev (m' @ ''/32'') = rev (m @ ''/32'') @ r" by (auto simp: ends_with_def HasPrefix_iff)
    then have "m' @ ''/32'' = rev r @ m @ ''/32''" by (metis rev_append rev_rev_ident append.assoc)
    then show "\<exists>u. m' @ ''/32'' = u @ m @ ''/32''" by (intro exI [of _ "rev r"])
  next
    assume "\<exists>u. m' @ ''/32'' = u @ m @ ''/32''"
    then show "ends_with (m' @ ''/32'') (m @ ''/32'')" by (auto simp: ends_with_def HasPrefix_iff)
  qed
  ultimately show ?thesis unfolding Contains_iff by (metis append.right_neutral append.assoc)
qed

section \<open>The interface commands\<close>

lemma host_links: "makes_links ''rvtx0'' host_exec host_view"
  by (auto simp: makes_links_def effect_def host_exec_def host_view_def host_ok_def new_host_def fresh_link_def fun_eq_iff)

lemma host_sets_key: "sets_key ''rvtx0'' (\<lambda>_. True) host_public host_exec host_view"
  unfolding sets_key_def effect_def by (auto simp: host_exec_def wg_set_def host_view_def host_ok_def)

lemma host_addresses: "has_addresses ''rvtx0'' host_exec host_pause host_view"
  unfolding has_addresses_def
proof (intro conjI allI impI)
  fix h assume "lk_exists (host_view h)"
  then have ok: "host_ok h" by simp
  let ?out = "concat (map (\<lambda>a. a @ [CHR 0x0A]) (h_addrs h))"
  have "Contains ?out (m @ ''/32'') \<longleftrightarrow> (\<exists>a \<in> lk_addrs (host_view h). ends_with a (m @ ''/32''))" if m: "is_ip_text m" for m
  proof -
    have "CHR 0x0A \<notin> set (m @ ''/32'')" using ip_text_chars [OF m] by (simp add: is_digit_def)
    then have "Contains ?out (m @ ''/32'') \<longleftrightarrow> (\<exists>a \<in> set (h_addrs h). Contains a (m @ ''/32''))"
      by (rule Contains_lines) simp
    also have "\<dots> \<longleftrightarrow> (\<exists>a \<in> set (h_addrs h). ends_with a (m @ ''/32''))"
    proof (rule bex_cong [OF refl])
      fix a assume "a \<in> set (h_addrs h)"
      then obtain m' where "is_ip_text m'" "a = m' @ ''/32''" using ok by (auto simp: host_ok_def)
      then show "Contains a (m @ ''/32'') \<longleftrightarrow> ends_with a (m @ ''/32'')" using address_end [OF m] by simp
    qed
    finally show ?thesis by simp
  qed
  then show "\<exists>out k'. host_exec [''ip'', ''-4'', ''addr'', ''show'', ''dev'', ''rvtx0''] [] h = ((True, out), k')
      \<and> host_view k' = host_view h
      \<and> (\<forall>m. is_ip_text m \<longrightarrow> (Contains out (m @ ''/32'') \<longleftrightarrow> (\<exists>a \<in> lk_addrs (host_view h). ends_with a (m @ ''/32''))))"
    by (simp add: host_exec_def)
next
  fix m h assume "is_ip_text m \<and> lk_exists (host_view h) \<and> m @ ''/32'' \<notin> lk_addrs (host_view h)"
  then have "host_ok h" "is_ip_text m" by simp_all
  moreover from this have "host_ok (h\<lparr>h_addrs := (m @ ''/32'') # h_addrs h\<rparr>)" by (auto simp: host_ok_def)
  ultimately show "let add = host_exec [''ip'', ''addr'', ''add'', m @ ''/32'', ''dev'', ''rvtx0''] []; r = add h in
       if fst (fst r) then host_view (snd r) = (host_view h)\<lparr>lk_addrs := insert (m @ ''/32'') (lk_addrs (host_view h))\<rparr>
       else host_view (snd r) = host_view h \<and> fst (fst (add (host_pause 200 (snd r))))
         \<and> host_view (snd (add (host_pause 200 (snd r))))
            = (host_view h)\<lparr>lk_addrs := insert (m @ ''/32'') (lk_addrs (host_view h))\<rparr>"
    by (simp add: host_exec_def host_view_def)
qed (simp add: host_pause_def)

lemma host_ip: "ip_contract ''rvtx0'' (\<lambda>_. True) host_public host_exec host_pause host_view"
  by (simp add: ip_contract_def host_links host_sets_key host_addresses)

end
