(* ===== verification/AgentProperties.thy ===== *)
theory AgentProperties
  imports AgentSamples
begin

text \<open>
  The properties of the agent (wgmanager, wsclient, cmd/agent), under the documented
  behaviour of \<open>wg\<close>, \<open>ip\<close> and the key file, each followed by an application on the
  host of AgentSamples, which has that behaviour.
\<close>

section \<open>The interface\<close>

text \<open>
  C31. What \<open>Reconcile\<close> does to an interface that exists and is up, for a list without
  repeated keys of which \<open>wg\<close> takes each entry as it stands or refuses it as a whole. It
  returns the error of the first refused entry, and none if there is no such entry. Either
  way peers that are not in the list are gone, and of the routes that were there only those
  of removed peers; each entry before the first refused one has the desired endpoint, a
  route for every allowed address, and as allowed addresses its mesh address and subnets,
  an address that several of them list being the last one's. When no entry is refused the
  peers are exactly those of the list, and a second run succeeds and changes nothing.
\<close>

theorem reconcile_exact:
  assumes "wg_contract i A exec view" "m_Interface m = i" "lk_exists (view k)" "lk_up (view k)"
    and "distinct (map peer_PublicKey desired)" "\<forall>p \<in> set desired. good_peer A p \<or> refused i exec view p"
  shows "\<exists>k'. Reconcile exec m desired k = (case List.find (\<lambda>p. \<not> good_peer A p) desired of None \<Rightarrow> Inr ()
        | Some p \<Rightarrow> Inl (Failed (''set peer '' @ peer_PublicKey p) (set_peer_argv m p)), k')
    \<and> dom (lk_peers (view k')) \<subseteq> peer_PublicKey ` set desired
    \<and> lk_routes (view k') = lk_routes (view k) - unwanted_routes desired (view k)
        \<union> \<Union> ((set \<circ> allowed_ips) ` set (takeWhile (good_peer A) desired))
    \<and> (\<forall>xs p ys. takeWhile (good_peer A) desired = xs @ p # ys \<longrightarrow> lk_peers (view k') (peer_PublicKey p)
        = Some (set (allowed_ips p) - \<Union> ((set \<circ> allowed_ips) ` set ys),
            if peer_Endpoint p \<noteq> [] then Some (peer_Endpoint p) else Option.bind (lk_peers (view k) (peer_PublicKey p)) snd))
    \<and> ((\<forall>p \<in> set desired. good_peer A p) \<longrightarrow> dom (lk_peers (view k')) = peer_PublicKey ` set desired
        \<and> (\<exists>k''. Reconcile exec m desired k' = (Inr (), k'') \<and> view k'' = view k'))"
proof -
  let ?r = "reached (taken A desired) desired (view k)"
  obtain k' where k': "Reconcile exec m desired k = (list_outcome A m desired, k')" "view k' = ?r"
    using Reconcile_reaches [OF assms(1-4)] assms(6) by (auto simp: answered_def)
  have own: "lk_peers ?r (peer_PublicKey p) = Some (set (allowed_ips p) - \<Union> ((set \<circ> allowed_ips) ` set ys), final_endpoint (view k) p)"
    if es: "takeWhile (good_peer A) desired = xs @ p # ys" for xs p ys
  proof -
    have "p \<in> set desired" using set_taken [of A desired] es unfolding taken_def by auto
    then show ?thesis using reached_own [OF es [folded taken_def] taken_distinct [OF assms(5)]] by simp
  qed
  have all: "dom (lk_peers (view k')) = peer_PublicKey ` set desired
      \<and> (\<exists>k''. Reconcile exec m desired k' = (Inr (), k'') \<and> view k'' = view k')"
    if good: "\<forall>p \<in> set desired. good_peer A p"
  proof -
    have v: "view k' = reconciled desired (view k)" using k'(2) taken_all [OF good] by (simp add: reconciled_def)
    then have "lk_exists (view k')" "lk_up (view k')" using assms(3,4) by simp_all
    then obtain k'' where "Reconcile exec m desired k' = (Inr (), k'')" "view k'' = reconciled desired (view k')"
      using Reconcile_refines [OF assms(1,2) _ _ good] by blast
    then show ?thesis using reconciled_twice [OF assms(5)] reconciled_keys [OF assms(5)] by (auto simp: v)
  qed
  have "dom (lk_peers ?r) \<subseteq> peer_PublicKey ` set desired" by (rule reached_dom [OF set_taken])
  with k' own all show ?thesis
    by (intro exI [of _ k']) (simp add: list_outcome_def taken_def reached_routes final_endpoint_def endpoint_arg_def)
qed

definition old_peer :: "string \<times> string list \<times> string option" where
  "old_peer = (''kold'', [''10.0.0.9/32''], None)"

definition sample_host :: host where
  "sample_host = empty_host\<lparr>h_exists := True, h_up := True, h_peers := [old_peer], h_routes := [''10.0.0.9/32'']\<rparr>"

definition relay_peer :: PeerInfo where
  "relay_peer = \<lparr>peer_PublicKey = ''kb'', peer_MeshIP = ''10.0.0.2'', peer_Endpoint = ''192.0.2.2:51820'',
     peer_AdvertisedSubnets = [''192.168.7.0/24'']\<rparr>"

lemma sample_host_ok: "host_ok sample_host"
  by (simp add: host_ok_def sample_host_def empty_host_def old_peer_def token_def cidr_text_def is_space_def)

lemma sample_link: "lk_exists (host_view sample_host)" "lk_up (host_view sample_host)"
  by (simp_all add: sample_host_ok) (simp add: sample_host_def)

text \<open>The key of a node that registered with text that is no key.\<close>

definition bad_peer :: PeerInfo where
  "bad_peer = \<lparr>peer_PublicKey = ''no key'', peer_MeshIP = ''10.0.0.3'', peer_Endpoint = [], peer_AdvertisedSubnets = []\<rparr>"

lemma bad_refused: "\<not> good_peer host_args bad_peer" "refused ''rvtx0'' host_exec host_view bad_peer"
  by (simp_all add: good_peer_def host_args_def bad_peer_def token_def is_space_def host_refuses)

lemma relay_good: "good_peer host_args relay_peer"
  by (simp add: good_peer_def host_args_def relay_peer_def allowed_ips_def token_def cidr_text_def is_space_def)

lemma manager_interface [simp]: "m_Interface (new_manager i) = i"
  by (simp add: new_manager_def)

theorem reconcile_exact_witness:
  "\<exists>h'. Reconcile host_exec (new_manager ''rvtx0'') [relay_peer, bad_peer] sample_host
      = (Inl (Failed ''set peer no key'' (set_peer_argv (new_manager ''rvtx0'') bad_peer)), h')
    \<and> lk_peers (host_view h') ''kold'' = None
    \<and> lk_peers (host_view h') ''kb'' = Some ({''10.0.0.2/32'', ''192.168.7.0/24''}, Some ''192.0.2.2:51820'')
    \<and> lk_routes (host_view h') = {''10.0.0.2/32'', ''192.168.7.0/24''}"
proof -
  let ?ds = "[relay_peer, bad_peer]"
  have keys: "distinct (map peer_PublicKey ?ds)" by (simp add: relay_peer_def bad_peer_def)
  have entries: "\<forall>p \<in> set ?ds. good_peer host_args p \<or> refused ''rvtx0'' host_exec host_view p"
    using relay_good bad_refused(2) by simp
  have first: "takeWhile (good_peer host_args) ?ds = [] @ relay_peer # []"
    "List.find (\<lambda>p. \<not> good_peer host_args p) ?ds = Some bad_peer" by (simp_all add: relay_good bad_refused(1))
  obtain h' where run: "Reconcile host_exec (new_manager ''rvtx0'') ?ds sample_host
      = (Inl (Failed (''set peer '' @ peer_PublicKey bad_peer) (set_peer_argv (new_manager ''rvtx0'') bad_peer)), h')"
    and dom: "dom (lk_peers (host_view h')) \<subseteq> peer_PublicKey ` set ?ds"
    and routes: "lk_routes (host_view h') = lk_routes (host_view sample_host) - unwanted_routes ?ds (host_view sample_host)
        \<union> \<Union> ((set \<circ> allowed_ips) ` set (takeWhile (good_peer host_args) ?ds))"
    and own: "\<forall>xs p ys. takeWhile (good_peer host_args) ?ds = xs @ p # ys \<longrightarrow> lk_peers (host_view h') (peer_PublicKey p)
        = Some (set (allowed_ips p) - \<Union> ((set \<circ> allowed_ips) ` set ys),
            if peer_Endpoint p \<noteq> [] then Some (peer_Endpoint p)
            else Option.bind (lk_peers (host_view sample_host) (peer_PublicKey p)) snd)"
    using reconcile_exact [OF host_wg manager_interface sample_link keys entries] unfolding first(2) option.case
    by (elim exE conjE) (rule that; assumption)
  have old: "lk_peers (host_view sample_host) ''kold'' = Some ({''10.0.0.9/32''}, None)" "''kold'' \<notin> peer_PublicKey ` set ?ds"
    by (simp_all add: host_view_def sample_host_def old_peer_def relay_peer_def bad_peer_def)
  then have "''10.0.0.9/32'' \<in> unwanted_routes ?ds (host_view sample_host)"
    unfolding unwanted_routes_def by blast
  moreover have "lk_routes (host_view sample_host) = {''10.0.0.9/32''}" by (simp add: sample_host_def)
  ultimately have "lk_routes (host_view h') = set (allowed_ips relay_peer)" unfolding routes first(1) by simp
  moreover have "lk_peers (host_view h') ''kold'' = None" using dom old(2) by blast
  moreover note own [rule_format, OF first(1)]
  ultimately show ?thesis using run by (simp add: relay_peer_def allowed_ips_def) (simp add: bad_peer_def)
qed

text \<open>
  C33. \<open>EnsureInterface\<close> succeeds and leaves the interface up with the key, the port and
  the mesh address, its peers untouched, provided no other address on it ends in the same
  text; calling it again changes nothing.
\<close>

theorem interface_ensured:
  assumes "ip_contract i ok_private public_of exec pause view" "m_Interface m = i"
    and "ok_private priv" "0 \<le> port" "port < 2 ^ 16" "is_ip_text ip"
    and "lk_exists (view k) \<Longrightarrow> lk_peers (view k) (public_of priv) = None"
    and "lk_exists (view k) \<Longrightarrow> \<forall>a \<in> lk_addrs (view k). ends_with a (ip @ ''/32'') \<longrightarrow> a = ip @ ''/32''"
  shows "\<exists>k1 k2. EnsureInterface exec pause m priv ip port k = (Inr (), k1)
    \<and> lk_exists (view k1) \<and> lk_up (view k1) \<and> lk_key (view k1) = Some priv \<and> lk_port (view k1) = Some (Itoa port)
    \<and> ip @ ''/32'' \<in> lk_addrs (view k1) \<and> lk_peers (view k1) = (if lk_exists (view k) then lk_peers (view k) else (\<lambda>_. None))
    \<and> EnsureInterface exec pause m priv ip port k1 = (Inr (), k2) \<and> view k2 = view k1"
proof -
  obtain k1 where k1: "EnsureInterface exec pause m priv ip port k = (Inr (), k1)" "view k1 = ensured priv ip port (view k)"
    using EnsureInterface_contract [OF assms(1-7)] by blast
  have shape: "lk_exists (view k1)" "lk_up (view k1)" "lk_key (view k1) = Some priv" "lk_port (view k1) = Some (Itoa port)"
    "lk_peers (view k1) = (if lk_exists (view k) then lk_peers (view k) else (\<lambda>_. None))"
    by (simp_all add: k1(2) ensured_def Let_def fresh_link_def)
  then have "lk_peers (view k1) (public_of priv) = None" using assms(7) by simp
  then obtain k2 where "EnsureInterface exec pause m priv ip port k1 = (Inr (), k2)" "view k2 = ensured priv ip port (view k1)"
    using EnsureInterface_contract [OF assms(1-6)] by blast
  then show ?thesis using k1 shape address_assigned [OF assms(8)] by (simp add: ensured_twice)
qed

lemma sample_ip_text: "is_ip_text ''10.0.0.1''" "is_ip_text ''10.0.0.2''"
  by code_simp+

theorem interface_ensured_witness:
  "\<exists>h1. EnsureInterface host_exec host_pause (new_manager ''rvtx0'') ''PRIV'' ''10.0.0.1'' 51820 empty_host = (Inr (), h1)
    \<and> host_ok h1 \<and> h_up h1 \<and> ''10.0.0.1/32'' \<in> set (h_addrs h1)"
proof -
  have "\<not> lk_exists (host_view empty_host)" by (simp add: host_ok_def empty_host_def)
  then show ?thesis
    using interface_ensured [OF host_ip manager_interface TrueI _ _ sample_ip_text(1), of 51820 empty_host "''PRIV''"] by auto
qed

section \<open>The connection\<close>

text \<open>
  C34. With a positive heartbeat interval the agent never gives up: it makes one attempt per
  session, whatever each one ends with, registers first on every connection that opens, and
  waits 2, 4, 8, 16 and then always 30 seconds in between.
\<close>

theorem retry_waits:
  assumes "0 < cl_HeartbeatInterval c"
  shows "\<exists>trace k'. Run exec pause c ss k = Some (trace, k')
    \<and> map snd trace = map (\<lambda>n. min (2 ^ Suc n * second) (30 * second)) [0 ..< length ss]
    \<and> map fst trace = map (\<lambda>s. if ss_dial s \<and> ss_write s then register_msg c # heartbeats (ss_ticks s) else []) ss"
proof -
  obtain trace k' where run: "Run exec pause c ss k = Some (trace, k')" using Run_total [OF assms, of exec pause ss k] by blast
  have "map snd trace = map (\<lambda>n. min (2 ^ Suc n * second) (30 * second)) [0 ..< length ss]"
    using Run_waits [OF run] by (simp add: nth_wait_def [abs_def] maxBackoff_def)
  then show ?thesis using run run_loop_sent [OF run [unfolded Run_def]] by blast
qed

definition sample_client :: Client where
  "sample_client = \<lparr>cl_URL = ''wss://cp/ws/agent'', cl_Name = ''b'', cl_PrivateKey = ''PRIV'', cl_PublicKey = ''pub:PRIV'',
     cl_ListenPort = 51820, cl_HeartbeatInterval = 15 * second, cl_EndpointOverride = [],
     cl_WG = new_manager ''rvtx0'', cl_AdvertisedSubnets = []\<rparr>"

definition no_session :: session where
  "no_session = \<lparr>ss_dial = False, ss_write = False, ss_read = [], ss_ticks = []\<rparr>"

theorem retry_waits_witness:
  "\<exists>trace h'. Run host_exec host_pause sample_client (replicate 6 no_session) empty_host = Some (trace, h')
    \<and> map snd trace = map (\<lambda>s. s * second) [2, 4, 8, 16, 30, 30]"
proof -
  have "0 < cl_HeartbeatInterval sample_client" by (simp add: sample_client_def second_def)
  from retry_waits [OF this, of host_exec host_pause "replicate 6 no_session" empty_host] show ?thesis
    by (auto simp: upt_rec second_def)
qed

section \<open>Identity\<close>

text \<open>
  C35. A node keeps its identity: after a start that got as far as a client, every later
  start of the process with the same settings, which finds the key file as that start left
  it, builds the same client, leaves the file so, and opens every connection with the same
  registration, name and public key included.
\<close>

theorem identity_kept:
  assumes "key_contract fs exec path" "path = envOr env ''RVTX_KEY_PATH'' ''/etc/rvtx/private.key''"
    and "configure_agent env fs exec k = (Inr c, k')" "f_read fs path k'' = f_read fs path k'" "0 < cl_HeartbeatInterval c"
  shows "fst (configure_agent env fs exec k'') = Inr c
    \<and> f_read fs path (snd (configure_agent env fs exec k'')) = f_read fs path k'
    \<and> (\<exists>trace k3. agent_main env fs exec pause ss k'' = Inr (Some (trace, k3))
        \<and> map fst trace = map (\<lambda>s. if ss_dial s \<and> ss_write s then register_msg c # heartbeats (ss_ticks s) else []) ss)"
proof -
  note again = configure_again [OF assms(1-4)]
  obtain k1 where start: "configure_agent env fs exec k'' = (Inr c, k1)" using again(1) by (metis prod.collapse)
  obtain trace k3 where run: "Run exec pause c ss k1 = Some (trace, k3)" using Run_total [OF assms(5), of exec pause ss k1] by blast
  then show ?thesis using again run_loop_sent [OF run [unfolded Run_def]] start by (simp add: agent_main_def)
qed

definition agent_env :: "string \<Rightarrow> string" where
  "agent_env key = (if key = ''RVTX_CONTROLPLANE_URL'' then ''wss://cp/ws/agent'' else if key = ''RVTX_NODE_NAME'' then ''b'' else [])"

text \<open>The first start makes the key; the second one, on the same file, registers with it.\<close>

theorem identity_kept_witness:
  "\<exists>c h' trace h3. configure_agent agent_env host_files host_exec empty_host = (Inr c, h') \<and> cl_PublicKey c = ''pub:PRIV''
    \<and> agent_main agent_env host_files host_exec host_pause
        [\<lparr>ss_dial = True, ss_write = True, ss_read = [], ss_ticks = []\<rparr>] (h'\<lparr>h_up := True\<rparr>) = Inr (Some (trace, h3))
    \<and> map fst trace = [[register_msg c]]"
proof -
  let ?start = "configure_agent agent_env host_files host_exec empty_host"
  have facts: "\<not> isl (fst ?start)" "cl_PublicKey (projr (fst ?start)) = ''pub:PRIV''"
    "0 < cl_HeartbeatInterval (projr (fst ?start))" by code_simp+
  obtain r h' where start: "?start = (r, h')" by fastforce
  obtain c where "r = Inr c" using facts(1) by (cases r) (simp_all only: start fst_conv sum.disc simp_thms)
  then have run: "?start = (Inr c, h')" "cl_PublicKey c = ''pub:PRIV''" "0 < cl_HeartbeatInterval c"
    using start facts(2,3) by (simp_all only: start fst_conv sum.sel)
  have path: "''/etc/rvtx/private.key'' = envOr agent_env ''RVTX_KEY_PATH'' ''/etc/rvtx/private.key''"
    by (simp add: envOr_def agent_env_def)
  have same: "f_read host_files ''/etc/rvtx/private.key'' (h'\<lparr>h_up := True\<rparr>) = f_read host_files ''/etc/rvtx/private.key'' h'"
    by (simp add: host_files_def)
  from identity_kept [OF host_key_contract path run(1) same run(3), of host_pause
      "[\<lparr>ss_dial = True, ss_write = True, ss_read = [], ss_ticks = []\<rparr>]"]
  obtain trace h3 where "agent_main agent_env host_files host_exec host_pause
        [\<lparr>ss_dial = True, ss_write = True, ss_read = [], ss_ticks = []\<rparr>] (h'\<lparr>h_up := True\<rparr>) = Inr (Some (trace, h3))"
    "map fst trace = [[register_msg c]]" by auto
  then show ?thesis using run(1,2) by (intro exI conjI)
qed

end
