(* ===== verification/Failover.thy ===== *)
theory Failover
  imports System
begin

text \<open>
  Failover from end to end: a heartbeat that the WebSocket server handles
  (internal/controlplane/wsserver) refreshes a row of the nodes table, the listing resolves
  targets through that table, and the configuration generator picks a primary or a backup
  by the age of the row. The lemmas follow one tcp or udp resource with a primary on a mesh
  node and a backup through these components, to the address that Traefik is given.
\<close>

text \<open>A resource with two targets, the primary on node \<open>n\<close> and a backup anywhere.\<close>

definition failover_pair :: "db \<Rightarrow> ResourceRow \<Rightarrow> Node \<Rightarrow> TargetRow \<Rightarrow> TargetRow \<Rightarrow> bool" where
  "failover_pair d r n p b \<longleftrightarrow> r \<in> set (resources d) \<and> (res_protocol r = ''tcp'' \<or> res_protocol r = ''udp'')
     \<and> n \<in> set (nodes d) \<and> mset (targets_of d r) = {#p, b#}
     \<and> tgt_role p = ''primary'' \<and> tgt_node_id p = Some (node_ID n) \<and> tgt_role b = ''backup''"

text \<open>A node counts as alive for 45 seconds after it was seen.\<close>

definition seen_lately :: "int \<Rightarrow> Node \<Rightarrow> bool" where
  "seen_lately now n \<longleftrightarrow> (\<exists>seen. node_LastSeen n = Some seen \<and> now - seen \<le> 45 * 10 ^ 9)"

text \<open>The addresses of the servers that a configuration has for a tcp or udp resource.\<close>

definition service_addresses :: "service \<Rightarrow> string list" where
  "service_addresses sv = map Address (Servers (LoadBalancer sv))"

definition served_addresses :: "TraefikConfig.Config \<Rightarrow> ResourceRow \<Rightarrow> string list option" where
  "served_addresses cfg r = map_option service_addresses
     (if res_protocol r = ''tcp'' then Option.bind (TCP cfg) (\<lambda>c. Services c (res_name r))
      else Option.bind (UDP cfg) (\<lambda>c. udp_Services c (res_name r)))"

section \<open>What a heartbeat changes\<close>

definition touch :: "int \<Rightarrow> string \<Rightarrow> Node \<Rightarrow> Node" where
  "touch now key n = (if node_PublicKey n = key then n\<lparr>node_LastSeen := Some now\<rparr> else n)"

lemma touch_sel [simp]:
  "node_ID (touch now key n) = node_ID n" "node_MeshIP (touch now key n) = node_MeshIP n"
  "node_Name (touch now key n) = node_Name n"
  by (simp_all add: touch_def)

lemma heartbeat_db:
  assumes "faults (srv_db s) = []" "handleHeartbeat alive now key s = (r, s')"
  shows "srv_db s' = (srv_db s)\<lparr>nodes := map (touch now key) (nodes (srv_db s))\<rparr>"
  using assms
  by (auto simp: handleHeartbeat_def TouchLastSeen_def ListNodes_def run_statement_def statement_def touch_body_def
      with_db_def update_where_def touch_def)

lemma heartbeat_keeps:
  assumes "faults (srv_db s) = []" "handleHeartbeat alive now key s = (r, s')"
    and "db_ok (srv_db s)" "store_ok (srv_db s)"
  shows "db_ok (srv_db s')" "store_ok (srv_db s')" "faults (srv_db s') = []"
proof -
  note d = heartbeat_db [OF assms(1,2)]
  have "TouchLastSeen now key (srv_db s) = (Inr (), srv_db s')"
    using assms(1) by (simp add: d TouchLastSeen_def run_statement_def touch_body_def update_where_def touch_def [abs_def])
  from TouchLastSeen_grows [OF this, of "srv_cidr s"]
  show "db_ok (srv_db s')" "store_ok (srv_db s')" using assms(3,4) by (simp_all add: grows_def)
  show "faults (srv_db s') = []" using assms(1) by (simp add: d)
qed

section \<open>How its targets are resolved afterwards\<close>

lemma mset_pair: "mset xs = {#x, y#} \<Longrightarrow> xs = [x, y] \<or> xs = [y, x]"
proof -
  assume m: "mset xs = {#x, y#}"
  then have "length xs = 2" by (metis size_mset size_add_mset size_empty numeral_2_eq_2)
  then obtain a b where "xs = [a, b]" by (auto simp: length_Suc_conv numeral_2_eq_2)
  then show ?thesis using m by (auto simp: add_eq_conv_ex)
qed

lemma find_map_same: "(\<And>x. P (f x) = P x) \<Longrightarrow> List.find P (map f xs) = map_option f (List.find P xs)"
  by (induction xs) auto

lemma join_node_touched:
  "join_node (d\<lparr>nodes := map (touch now key) (nodes d)\<rparr>) t = map_option (touch now key) (join_node d t)"
  by (simp add: join_node_def node_by_id_def find_map_same split: option.split)

lemma targets_of_nodes [simp]: "targets_of (d\<lparr>nodes := ns\<rparr>) = targets_of d"
  by (simp add: targets_of_def fun_eq_iff)

lemma target_address_touched:
  "target_address (d\<lparr>nodes := map (touch now key) (nodes d)\<rparr>) t = target_address d t"
  by (simp add: target_address_def resolve_def scan_target_def join_node_touched join_address_def split: option.split)

lemma join_node_primary:
  assumes "db_ok d" "n \<in> set (nodes d)" "tgt_node_id t = Some (node_ID n)"
  shows "join_node d t = Some n"
  using assms by (simp add: join_node_def node_by_id_def db_ok_def nodes_ok_def distinct_map_find)

lemma resolve_role [simp]: "t_Role (resolve d t) = tgt_role t"
  by (simp add: resolve_def scan_target_def)

text \<open>The selection for such a resource, in any database.\<close>

lemma failover_selected:
  assumes "db_ok d" "failover_pair d r n p b"
  shows "selectMasterBackupTarget now (r_Targets (listing d r))
    = (if seen_lately now n then resolve d p else resolve d b)"
proof -
  let ?ts = "map (resolve d) (sort_key tgt_role (targets_of d r))"
  have f: "tgt_role p = ''primary''" "tgt_role b = ''backup''" "tgt_node_id p = Some (node_ID n)" "n \<in> set (nodes d)"
    "mset (targets_of d r) = {#p, b#}"
    using assms(2) by (simp_all add: failover_pair_def)
  have "mset (sort_key tgt_role (targets_of d r)) = {#p, b#}" using f(5) by simp
  then have "sort_key tgt_role (targets_of d r) = [p, b] \<or> sort_key tgt_role (targets_of d r) = [b, p]"
    by (rule mset_pair)
  then have "?ts = [resolve d p, resolve d b] \<or> ?ts = [resolve d b, resolve d p]" by auto
  moreover have "fresh_at now (resolve d p) \<longleftrightarrow> seen_lately now n"
    using join_node_primary [OF assms(1) f(4,3)] f(3)
    by (simp add: fresh_at_def resolve_def scan_target_def primaryFreshness_def seen_lately_def)
  ultimately show ?thesis using select_pair [of "resolve d p" "resolve d b" ?ts now] f(1,2) by simp
qed

lemma failover_served:
  assumes "db_ok d" "store_ok d" "failover_pair d r n p b"
  shows "served_addresses (Generate now (listed d)) r
    = Some [target_address d (if seen_lately now n then p else b)]"
proof -
  have r: "r \<in> set (resources d)" "res_protocol r = ''tcp'' \<or> res_protocol r = ''udp''"
    using assms(3) by (simp_all add: failover_pair_def)
  have sv: "service_addresses (l4_service now (listing d r))
      = [target_address d (if seen_lately now n then p else b)]"
    using failover_selected [OF assms(1,3), of now]
    by (cases "seen_lately now n") (simp_all add: service_addresses_def l4_service_def Let_def target_address_def)
  note look = section_lookup [OF listed_distinct [OF assms(1)] listing_in_listed [OF assms(1,2) r(1)], unfolded listing_sel, of now]
  show ?thesis using r(2) look(2,3) sv by (auto simp: served_addresses_def)
qed

section \<open>After a heartbeat, and without one\<close>

lemma failover_pair_touched:
  assumes "failover_pair d r n p b"
  shows "failover_pair (d\<lparr>nodes := map (touch now key) (nodes d)\<rparr>) r (touch now key n) p b"
  using assms by (simp add: failover_pair_def)

lemma config_of:
  assumes "db_ok d" "faults d = []"
  shows "traefikConfigHandler e rq d = (respond 200 (ConfigBody (Generate (e_now e) (listed d))), d, [])"
  using list_served [OF assms(1) statement_served [OF assms(2)]] by (simp add: traefikConfigHandler_def)

lemma heartbeat_failover:
  assumes "db_ok (srv_db s)" "store_ok (srv_db s)" "faults (srv_db s) = []"
    and "failover_pair (srv_db s) r n p b" "handleHeartbeat alive now key s = (res, s')"
  shows "\<exists>cfg. traefikConfigHandler e rq (srv_db s') = (respond 200 (ConfigBody cfg), srv_db s', [])
    \<and> served_addresses cfg r = Some [target_address (srv_db s)
        (if seen_lately (e_now e) (touch now key n) then p else b)]"
proof -
  note d = heartbeat_db [OF assms(3,5)] and keeps = heartbeat_keeps [OF assms(3,5,1,2)]
  have "failover_pair (srv_db s') r (touch now key n) p b" unfolding d using assms(4) by (rule failover_pair_touched)
  then have "served_addresses (Generate (e_now e) (listed (srv_db s'))) r
      = Some [target_address (srv_db s') (if seen_lately (e_now e) (touch now key n) then p else b)]"
    by (rule failover_served [OF keeps(1,2)])
  then have "served_addresses (Generate (e_now e) (listed (srv_db s'))) r
      = Some [target_address (srv_db s) (if seen_lately (e_now e) (touch now key n) then p else b)]"
    by (simp only: d target_address_touched)
  then show ?thesis using config_of [OF keeps(1,3), of e rq] by (intro exI conjI)
qed

lemma primary_address:
  assumes "db_ok d" "failover_pair d r n p b"
  shows "target_address d p = node_MeshIP n @ '':'' @ Itoa (tgt_port p)"
  using join_node_primary [OF assms(1), of n p] assms(2)
  by (simp add: failover_pair_def target_address_def resolve_def scan_target_def join_address_def)

end
