(* ===== verification/Conversation.thy ===== *)
theory Conversation
  imports System
begin

text \<open>
  A whole conversation (\<open>HandleWS\<close> of internal/controlplane/wsserver) as a run of the step
  relation: every message it reads, whether or not it can be decoded and whatever its
  handler returns, and the end of the connection.
\<close>

lemma handled_trans:
  assumes "handled alive host c key s w"
    and "\<And>w'. w_srv w' = s \<Longrightarrow> w_pc w' c = Ready \<Longrightarrow> w_key w' c = key \<Longrightarrow> handled alive host c key' s' w'"
  shows "handled alive host c key' s' w"
proof -
  obtain w1 where w1: "(ws_step alive host)\<^sup>*\<^sup>* w w1" "w_srv w1 = s" "w_pc w1 = (w_pc w)(c := Ready)" "w_key w1 = (w_key w)(c := key)"
    using assms(1) by (auto simp: handled_def)
  then have "handled alive host c key' s' w1" by (intro assms(2)) simp_all
  then obtain w2 where w2: "(ws_step alive host)\<^sup>*\<^sup>* w1 w2" "w_srv w2 = s'" "w_pc w2 = (w_pc w1)(c := Ready)"
    "w_key w2 = (w_key w1)(c := key')" by (auto simp: handled_def)
  have "(ws_step alive host)\<^sup>*\<^sup>* w w2" using w1(1) w2(1) by (rule rtranclp_trans)
  then show ?thesis unfolding handled_def using w2(2-4) w1(3,4) by (intro exI [of _ w2]) simp
qed

lemma message_is_run:
  assumes pc: "w_pc w c = Ready" and run: "handle_message alive c (host c) msg (w_key w c, w_srv w) = (key, s')"
  shows "handled alive host c key s' w"
proof -
  obtain now e where msg: "msg = (now, e)" by fastforce
  consider p where "env_Type e = TypeRegister" "DecodePayload register_fields zero_register e = Some p"
    | "env_Type e = TypeHeartbeat" "env_Type e \<noteq> TypeRegister" "w_key w c \<noteq> []"
    | "key = w_key w c" "s' = w_srv w"
    using run by (auto simp: handle_message_def msg split: option.splits if_splits)
  then show ?thesis
  proof cases
    case 1
    obtain r where "handleRegister alive now c (host c) p (w_srv w) = (r, s')" "key = reg_PublicKey p"
      using run 1 by (cases "handleRegister alive now c (host c) p (w_srv w)") (auto simp: handle_message_def msg)
    then show ?thesis using register_is_run [OF pc] by blast
  next
    case 2
    obtain r where "handleHeartbeat alive now (w_key w c) (w_srv w) = (r, s')" "key = w_key w c"
      using run 2 by (cases "handleHeartbeat alive now (w_key w c) (w_srv w)") (auto simp: handle_message_def msg)
    then show ?thesis using heartbeat_is_run [OF pc 2(3)] by blast
  next
    case 3
    then show ?thesis using pc by (intro handled_now) simp_all
  qed
qed

lemma messages_are_run:
  assumes "w_pc w c = Ready" "fold (handle_message alive c (host c)) msgs (w_key w c, w_srv w) = (key, s')"
  shows "handled alive host c key s' w"
  using assms
proof (induction msgs arbitrary: w)
  case Nil
  then show ?case by (intro handled_now) simp_all
next
  case (Cons msg msgs)
  obtain key1 s1 where one: "handle_message alive c (host c) msg (w_key w c, w_srv w) = (key1, s1)" by fastforce
  show ?case
  proof (rule handled_trans [OF message_is_run [where host = host, OF Cons.prems(1) one]])
    fix w' :: world assume "w_srv w' = s1" "w_pc w' c = Ready" "w_key w' c = key1"
    then show "handled alive host c key s' w'" using Cons.prems(2) one by (intro Cons.IH) simp_all
  qed
qed

lemma conversation_is_run:
  assumes "w_pc w c = Ready" "w_key w c = []"
  shows "\<exists>w'. (ws_step alive (remote_host \<circ> addr))\<^sup>*\<^sup>* w w' \<and> w_srv w' = HandleWS alive (Some c) (addr c) msgs (w_srv w)
    \<and> w_pc w' = (w_pc w)(c := Closed) \<and> (\<forall>x. x \<noteq> c \<longrightarrow> w_key w' x = w_key w x)"
proof -
  let ?host = "remote_host \<circ> addr"
  obtain key s' where msgs: "fold (handle_message alive c (?host c)) msgs (w_key w c, w_srv w) = (key, s')" by fastforce
  obtain w1 where w1: "(ws_step alive ?host)\<^sup>*\<^sup>* w w1" "w_srv w1 = s'" "w_pc w1 = (w_pc w)(c := Ready)"
    "w_key w1 = (w_key w)(c := key)"
    using messages_are_run [where host = ?host, OF assms(1) msgs] by (auto simp: handled_def)
  have "ws_step alive ?host w1 (goto c Closed (close_conn (w_key w1 c, w_srv w1)) w1)"
    using w1(3) by (intro ws_step.close) simp
  with w1(1) have "(ws_step alive ?host)\<^sup>*\<^sup>* w (goto c Closed (close_conn (w_key w1 c, w_srv w1)) w1)"
    by (rule rtranclp.rtrancl_into_rtrancl)
  moreover have "HandleWS alive (Some c) (addr c) msgs (w_srv w) = close_conn (key, s')"
    using msgs assms(2) by (simp add: HandleWS_def)
  ultimately show ?thesis using w1(2-4)
    by (intro exI [of _ "goto c Closed (close_conn (w_key w1 c, w_srv w1)) w1"]) simp
qed

text \<open>A connection that has ended takes no further step.\<close>

inductive_cases ws_stepE: "ws_step alive host w w'"

lemma closed_stays:
  assumes "ws_step alive host w w'" "w_pc w c = Closed"
  shows "w_pc w' c = Closed \<and> w_key w' c = w_key w c"
  using assms(1) by (rule ws_stepE) (use assms(2) in \<open>auto simp: goto_def\<close>)

lemma closed_forever:
  "(ws_step alive host)\<^sup>*\<^sup>* w w' \<Longrightarrow> w_pc w c = Closed \<Longrightarrow> w_pc w' c = Closed \<and> w_key w' c = w_key w c"
  by (induction rule: rtranclp_induct) (auto dest: closed_stays)

section \<open>Keys that are not a connection's own\<close>

text \<open>
  The loop remembers the key of every register message it can decode, also of one that is
  refused because the key belongs to another node; its end removes that key's entry.
\<close>

lemma named_key_removed:
  assumes "env_Type e = TypeRegister" "DecodePayload register_fields zero_register e = Some p" "reg_PublicKey p \<noteq> []"
  shows "conn_for (HandleWS alive (Some c) addr [(now, e)] s) (reg_PublicKey p) = None"
proof -
  obtain r s' where "handleRegister alive now c (remote_host addr) p s = (r, s')" by fastforce
  then have "HandleWS alive (Some c) addr [(now, e)] s = delete_conn (reg_PublicKey p) s'"
    using assms by (simp add: HandleWS_def handle_message_def close_conn_def)
  then show ?thesis by (simp add: conn_for_delete)
qed

text \<open>A connection that registered a second key leaves the entry of the first one behind.\<close>

lemma earlier_key_stays:
  assumes "handleRegister alive now c h p s = (Inr (), s1)" "handleRegister alive now' c h p' s1 = (Inr (), s2)"
    and "reg_PublicKey p' \<noteq> reg_PublicKey p" "nodes_ok (srv_db s)" "nodes_ok (srv_db s1)"
  shows "conn_for (close_conn (reg_PublicKey p', s2)) (reg_PublicKey p) = Some c"
  using assms(3) handleRegister_success(2) [OF assms(4,1)] handleRegister_success(2) [OF assms(5,2)]
  by (simp add: close_conn_def conn_for_delete)

end
