(* ===== verification/WireTypes.thy ===== *)
theory WireTypes
  imports System
begin

text \<open>
  The types of the messages on the wire. Over all interleavings, every envelope the control
  plane has written has one of the two types the agent switches on, its payload decodes into
  that type's struct, and its contents are usable: host addresses of the mesh, no key and no
  address twice. The invariant says the same of the node lists that a connection's goroutine
  holds between two steps.
\<close>

definition nodes_fit :: "string \<Rightarrow> Node list \<Rightarrow> bool" where
  "nodes_fit cidr ns \<longleftrightarrow> distinct (map node_PublicKey ns) \<and> distinct (map node_MeshIP ns)
     \<and> (\<forall>n \<in> set ns. mesh_host cidr (node_MeshIP n))"

definition peers_fit :: "string \<Rightarrow> PeerInfo list \<Rightarrow> bool" where
  "peers_fit cidr ps \<longleftrightarrow> distinct (map peer_PublicKey ps) \<and> distinct (map peer_MeshIP ps)
     \<and> (\<forall>p \<in> set ps. mesh_host cidr (peer_MeshIP p))"

text \<open>What the agent's switch and decoding make of an envelope.\<close>

datatype typed_message = Registered RegisteredPayload | PeerList PeerListPayload

definition agent_reads :: "Envelope \<Rightarrow> typed_message option" where
  "agent_reads e =
     (if env_Type e = TypeRegistered then map_option Registered (DecodePayload registered_fields zero_registered e)
      else if env_Type e = TypePeerList then map_option PeerList (DecodePayload peer_list_fields zero_peer_list e)
      else None)"

fun message_fits :: "string \<Rightarrow> typed_message \<Rightarrow> bool" where
  "message_fits cidr (Registered p) \<longleftrightarrow> mesh_host cidr (rgd_MeshIP p) \<and> peers_fit cidr (rgd_Peers p)"
| "message_fits cidr (PeerList p) \<longleftrightarrow> peers_fit cidr (pl_Peers p)"

definition well_typed :: "string \<Rightarrow> Envelope \<Rightarrow> bool" where
  "well_typed cidr e \<longleftrightarrow> (case agent_reads e of None \<Rightarrow> False | Some m \<Rightarrow> message_fits cidr m)"

section \<open>The messages the server builds\<close>

lemma peers_fit_for: "nodes_fit cidr ns \<Longrightarrow> peers_fit cidr (PeerListFor key ns)"
  by (auto simp: peers_fit_def nodes_fit_def PeerListFor_filter peer_of_node_def comp_def distinct_map_filter)

lemma agent_reads_answer:
  "agent_reads (registered_msg ip key ns) = Some (Registered \<lparr>rgd_MeshIP = ip, rgd_Peers = PeerListFor key ns\<rparr>)"
  using registered_decoded [of ip key ns] by (simp add: agent_reads_def) (simp add: registered_msg_def)

lemma agent_reads_list: "agent_reads (peer_list_msg key ns) = Some (PeerList \<lparr>pl_Peers = PeerListFor key ns\<rparr>)"
  using peer_list_decoded [of key ns] by (simp add: agent_reads_def) (simp add: peer_list_msg_def message_types)

lemma well_typed_registered: "mesh_host cidr ip \<Longrightarrow> nodes_fit cidr ns \<Longrightarrow> well_typed cidr (registered_msg ip key ns)"
  by (simp add: well_typed_def agent_reads_answer peers_fit_for)

lemma well_typed_peer_list: "nodes_fit cidr ns \<Longrightarrow> well_typed cidr (peer_list_msg key ns)"
  by (simp add: well_typed_def agent_reads_list peers_fit_for)

section \<open>The invariant\<close>

fun pc_nodes :: "pc \<Rightarrow> Node list" where
  "pc_nodes (Listed p ip ns) = ns"
| "pc_nodes (Broadcasting ns) = ns"
| "pc_nodes _ = []"

definition typed_inv :: "string \<Rightarrow> world \<Rightarrow> bool" where
  "typed_inv cidr w \<longleftrightarrow> (\<forall>(c, e) \<in> set (srv_out (w_srv w)). well_typed cidr e)
     \<and> (\<forall>c. nodes_fit cidr (pc_nodes (w_pc w c)))"

lemma nodes_fit_Nil [simp]: "nodes_fit cidr []"
  by (simp add: nodes_fit_def)

lemma sys_inv_nodes_fit: "sys_inv cidr w \<Longrightarrow> nodes_fit cidr (nodes (w_db w))"
  by (auto simp: sys_inv_def db_ok_def nodes_ok_def nodes_fit_def names_ips_def)

lemma typed_goto:
  assumes "typed_inv cidr w" "\<forall>(c, e) \<in> set (srv_out s) - set (srv_out (w_srv w)). well_typed cidr e" "nodes_fit cidr (pc_nodes q)"
  shows "typed_inv cidr (goto c q s (w\<lparr>w_key := k, w_told := t\<rparr>))"
  using assms by (auto simp: typed_inv_def goto_def)

lemmas typed_step = typed_goto [where k = "w_key w" and t = "w_told w" and w = w for w, folded goto_same_key, simplified]

lemma ListNodes_fit:
  assumes "sys_inv cidr w" "ListNodes (w_db w) = (Inr ns, d1)"
  shows "nodes_fit cidr ns"
  using sys_inv_nodes_fit [OF assms(1)] ListNodes_success [OF assms(2)] by simp

lemma step_typed:
  assumes "ws_step alive host w w'" and sys: "sys_inv cidr w" and inv: "typed_inv cidr w"
  shows "typed_inv cidr w'"
proof -
  have nodes: "nodes_fit cidr (pc_nodes (w_pc w c))" for c using inv by (simp add: typed_inv_def)
  show ?thesis
    using assms(1)
  proof cases
    case (register c r d1 p)
    have "typed_inv cidr (goto c (after_used (srv_cidr (w_srv w)) p r) (with_db (w_srv w) d1)
        (w\<lparr>w_key := (w_key w)(c := reg_PublicKey p), w_told := w_told w\<rparr>))"
      by (intro typed_goto [OF inv]) (auto simp: after_used_def split: sum.split)
    then show ?thesis unfolding register(1) by simp
  next
    case (upsert c p cand now r d1)
    show ?thesis unfolding upsert(1) by (intro typed_step [OF inv]) (auto split: sum.split)
  next
    case (enter c p ip)
    show ?thesis unfolding enter(1) by (intro typed_step [OF inv]) auto
  next
    case (list c p ip r d1)
    then show ?thesis unfolding list(1)
      by (intro typed_step [OF inv]) (auto split: sum.split dest: ListNodes_fit [OF sys])
  next
    case (reply c p ip ns ok s1)
    have "mesh_host cidr ip" using sys sys_inv_sel(5) [OF sys, of c] reply(2) by (auto simp: sys_inv_def)
    moreover have fit: "nodes_fit cidr ns" using nodes [of c] reply(2) by simp
    ultimately have "\<forall>(x, e) \<in> set (srv_out s1) - set (srv_out (w_srv w)). well_typed cidr e"
      using reply(3) by (auto simp: WriteJSON_def well_typed_registered)
    then show ?thesis
      unfolding reply(1) using fit
        typed_goto [OF inv, of s1 "if ok then Broadcasting ns else Ready" c "if ok then w_told w @ [(reg_Name p, ip)] else w_told w" "w_key w"]
      by (cases ok) simp_all
  next
    case (broadcast c ns)
    have "nodes_fit cidr ns" using nodes [of c] broadcast(2) by simp
    then show ?thesis unfolding broadcast(1)
      by (intro typed_step [OF inv]) (auto simp: broadcast_out well_typed_peer_list)
  next
    case (heartbeat c now r d1)
    show ?thesis unfolding heartbeat(1) by (intro typed_step [OF inv]) (auto split: sum.split)
  next
    case (heartbeat_list c r d1)
    then show ?thesis unfolding heartbeat_list(1)
      by (intro typed_step [OF inv]) (auto split: sum.split dest: ListNodes_fit [OF sys])
  next
    case (close c)
    show ?thesis unfolding close(1) by (intro typed_step [OF inv]) (auto simp: close_conn_def)
  next
    case (api e rq rs d1 sent)
    then show ?thesis using inv by (auto simp: typed_inv_def)
  qed
qed

lemma start_typed: "typed_inv cidr (start_world d cidr)"
  by (simp add: typed_inv_def start_world_def new_server_def)

lemma reachable_typed:
  assumes "mesh_db cidr d" "reachable alive host d cidr w"
  shows "typed_inv cidr w"
proof -
  have "(ws_step alive host)\<^sup>*\<^sup>* (start_world d cidr) w" using assms(2) by (simp add: reachable_def)
  then have "sys_inv cidr w \<and> typed_inv cidr w"
    by (induction rule: rtranclp_induct) (auto intro: start_inv [OF assms(1)] start_typed step_inv step_typed)
  then show ?thesis ..
qed

end
