(* ===== verification/AgentSession.thy ===== *)
theory AgentSession
  imports AgentSystem WireTypes
begin

text \<open>
  A whole session of an agent against everything the control plane sent on its connection,
  in any interleaving of the server. After the answer to its registration and any number of
  peer lists, the agent's interface is what the last of these messages says.
\<close>

section \<open>What one message asks for\<close>

definition received :: "nat \<Rightarrow> world \<Rightarrow> Envelope list" where
  "received c w = map snd (filter (\<lambda>(x, e). x = c) (srv_out (w_srv w)))"

definition peers_in :: "Envelope \<Rightarrow> PeerInfo list" where
  "peers_in e = (case agent_reads e of
     None \<Rightarrow> [] | Some (Registered p) \<Rightarrow> rgd_Peers p | Some (PeerList p) \<Rightarrow> pl_Peers p)"

lemma agent_reads_acts:
  "agent_reads e = Some (Registered p) \<Longrightarrow>
    handle_envelope exec pause cl e k = snd (applyPeerList exec pause cl (rgd_MeshIP p) (rgd_Peers p) k)"
  "agent_reads e = Some (PeerList q) \<Longrightarrow> handle_envelope exec pause cl e k = snd (Reconcile exec (cl_WG cl) (pl_Peers q) k)"
  by (auto simp: agent_reads_def handle_envelope_def message_types split: if_splits)

lemma received_fits:
  assumes "typed_inv cidr w" "e \<in> set (received c w)"
  shows "\<exists>m. agent_reads e = Some m \<and> message_fits cidr m" "peers_fit cidr (peers_in e)"
proof -
  have "well_typed cidr e" using assms by (auto simp: typed_inv_def received_def)
  then obtain m where m: "agent_reads e = Some m" "message_fits cidr m"
    by (auto simp: well_typed_def split: option.splits)
  then show "\<exists>m. agent_reads e = Some m \<and> message_fits cidr m" "peers_fit cidr (peers_in e)"
    by (cases m; simp add: peers_in_def)+
qed

text \<open>The text of a mesh address is one that \<open>ip\<close> prints and parses.\<close>

lemma mesh_host_text:
  assumes "mesh_host cidr ip"
  shows "is_ip_text ip"
proof -
  obtain net a where a: "ParseCIDR cidr = Inr net" "a \<in> host_addrs net" "ip = IP_String a"
    using assms by (auto simp: mesh_host_def)
  then have "length a = 4" by (auto simp: host_addrs_def candidates_def)
  then show ?thesis using a(3) ParseAddr_String by (simp add: is_ip_text_def)
qed

text \<open>Peers that relay nothing never overlap.\<close>

lemma plain_peers_disjoint:
  assumes "peers_fit cidr ps" "\<forall>p \<in> set ps. peer_AdvertisedSubnets p = []"
  shows "disjoint_peers ps"
proof -
  have ips: "set (allowed_ips p) = {peer_MeshIP p @ ''/32''}" if "p \<in> set ps" for p
    using assms(2) that by (simp add: allowed_ips_def)
  have "set (allowed_ips p) \<inter> set (allowed_ips q) = {}" if "p \<in> set ps" "q \<in> set ps" "p \<noteq> q" for p q
    using distinct_map_key [of peer_MeshIP ps p q] assms(1) that by (auto simp: peers_fit_def ips)
  then show ?thesis using assms(1) by (simp add: disjoint_peers_def peers_fit_def)
qed

section \<open>A session\<close>

text \<open>What a list leaves, its entries being taken up to the first refused one.\<close>

definition followed :: "wg_args \<Rightarrow> PeerInfo list \<Rightarrow> link \<Rightarrow> link" where
  "followed A ps l = reached (taken A ps) ps l"

lemma followed_keeps [simp]:
  "lk_exists (followed A ps l) = lk_exists l" "lk_up (followed A ps l) = lk_up l"
  "lk_key (followed A ps l) = lk_key l" "lk_addrs (followed A ps l) = lk_addrs l"
  by (simp_all add: followed_def)

lemma followed_holds: "distinct (map peer_PublicKey ps) \<Longrightarrow> holds_list A ps (followed A ps l)"
  unfolding followed_def by (rule reached_holds)

lemma lists_applied:
  assumes wg: "wg_contract i A exec view" "m_Interface (cl_WG cl) = i"
    and up: "lk_exists (view k)" "lk_up (view k)"
    and lists: "\<forall>x \<in> set es. \<exists>q. agent_reads x = Some (PeerList q)" "\<forall>x \<in> set es. \<forall>p \<in> set (peers_in x). answered i A exec view p"
  shows "view (fold (handle_envelope exec pause cl) es k) = foldl (\<lambda>l x. followed A (peers_in x) l) (view k) es"
  using up lists
proof (induction es arbitrary: k)
  case Nil
  then show ?case by simp
next
  case (Cons x es)
  obtain q where q: "agent_reads x = Some (PeerList q)" using Cons.prems(3) by auto
  then have "\<forall>p \<in> set (pl_Peers q). answered i A exec view p" using Cons.prems(4) by (simp add: peers_in_def)
  from Reconcile_reaches [OF wg Cons.prems(1,2) this]
  have "view (handle_envelope exec pause cl x k) = followed A (peers_in x) (view k)"
    using agent_reads_acts(2) [OF q, of exec pause cl k] q by (auto simp: peers_in_def followed_def)
  then show ?case using Cons.IH [of "handle_envelope exec pause cl x k"] Cons.prems by simp
qed

lemma foldl_followed_keeps:
  "lk_exists (foldl (\<lambda>l x. followed A (f x) l) l es) = lk_exists l" "lk_up (foldl (\<lambda>l x. followed A (f x) l) l es) = lk_up l"
  "lk_key (foldl (\<lambda>l x. followed A (f x) l) l es) = lk_key l" "lk_addrs (foldl (\<lambda>l x. followed A (f x) l) l es) = lk_addrs l"
  by (induction es arbitrary: l) simp_all

lemma foldl_last:
  "foldl (\<lambda>l x. followed A (f x) l) (followed A (f e) l) es
    = followed A (f (last (e # es))) (foldl (\<lambda>l x. followed A (f x) l) l (butlast (e # es)))"
  by (induction es arbitrary: e l) auto

text \<open>The peers of an interface that holds a list of which nothing was refused and where nobody relays a subnet.\<close>

lemma holds_plain:
  assumes "holds_list A ps l" "\<forall>p \<in> set ps. good_peer A p" "disjoint_peers ps" "\<forall>p \<in> set ps. peer_AdvertisedSubnets p = []"
  shows "map_option fst (lk_peers l key) = Some ips \<longleftrightarrow>
    (\<exists>q \<in> set ps. peer_PublicKey q = key \<and> ips = {peer_MeshIP q @ ''/32''})"
proof -
  have own: "map_option fst (lk_peers l (peer_PublicKey q)) = Some {peer_MeshIP q @ ''/32''}"
    if "q \<in> set ps" for q
    using holds_exact [OF assms(1-3) that] assms(4) that by (simp add: allowed_ips_def)
  show ?thesis
  proof (cases "key \<in> peer_PublicKey ` set ps")
    case False
    then have "lk_peers l key = None" using assms(1,2) by (auto simp: holds_list_def)
    then show ?thesis using False by auto
  next
    case True
    then obtain q where q: "q \<in> set ps" "peer_PublicKey q = key" by auto
    have only: "r = q" if "r \<in> set ps" "peer_PublicKey r = key" for r
      using distinct_map_key [of peer_PublicKey ps r q] assms(3) q that by (simp add: disjoint_peers_def)
    have "map_option fst (lk_peers l key) = Some {peer_MeshIP q @ ''/32''}"
      using own [OF q(1)] q(2) by simp
    then have "map_option fst (lk_peers l key) = Some ips \<longleftrightarrow> ips = {peer_MeshIP q @ ''/32''}"
      by (simp only: option.inject eq_commute)
    also have "\<dots> \<longleftrightarrow> (\<exists>r \<in> set ps. peer_PublicKey r = key \<and> ips = {peer_MeshIP r @ ''/32''})"
    proof
      assume "ips = {peer_MeshIP q @ ''/32''}"
      then show "\<exists>r \<in> set ps. peer_PublicKey r = key \<and> ips = {peer_MeshIP r @ ''/32''}" by (intro bexI [OF _ q(1)] conjI q(2))
    next
      assume "\<exists>r \<in> set ps. peer_PublicKey r = key \<and> ips = {peer_MeshIP r @ ''/32''}"
      then obtain r where r: "r \<in> set ps" "peer_PublicKey r = key" and ips: "ips = {peer_MeshIP r @ ''/32''}" by blast
      show "ips = {peer_MeshIP q @ ''/32''}" using ips unfolding only [OF r] .
    qed
    finally show ?thesis .
  qed
qed

lemma session_applied:
  assumes wg: "wg_contract i A exec view" and ip: "ip_contract i ok_private public_of exec pause view"
    and cl: "m_Interface (cl_WG cl) = i" "ok_private (cl_PrivateKey cl)" "0 \<le> cl_ListenPort cl" "cl_ListenPort cl < 2 ^ 16"
    and new: "\<not> lk_exists (view k)"
    and first: "agent_reads e = Some (Registered p)" "is_ip_text (rgd_MeshIP p)"
    and rest: "\<forall>x \<in> set es. \<exists>q. agent_reads x = Some (PeerList q)"
    and entries: "\<forall>x \<in> set (e # es). \<forall>p \<in> set (peers_in x). answered i A exec view p"
  defines "l \<equiv> view (fold (handle_envelope exec pause cl) (e # es) k)"
  shows "lk_up l" "lk_key l = Some (cl_PrivateKey cl)" "lk_addrs l = {rgd_MeshIP p @ ''/32''}"
    and "\<exists>l0. l = followed A (peers_in (last (e # es))) l0"
proof -
  let ?l1 = "ensured (cl_PrivateKey cl) (rgd_MeshIP p) (cl_ListenPort cl) (view k)" and ?k1 = "handle_envelope exec pause cl e k"
  have peers: "peers_in e = rgd_Peers p" by (simp add: peers_in_def first)
  have "\<forall>q \<in> set (rgd_Peers p). answered i A exec view q" using entries by (simp add: peers)
  from applyPeerList_contract [OF wg ip cl _ first(2) this, of k]
  have k1: "view ?k1 = followed A (peers_in e) ?l1"
    using new agent_reads_acts(1) [OF first(1), of exec pause cl k] by (auto simp: peers followed_def)
  have l1: "lk_exists ?l1" "lk_up ?l1" "lk_key ?l1 = Some (cl_PrivateKey cl)" "lk_addrs ?l1 = {rgd_MeshIP p @ ''/32''}"
    using new by (simp_all add: ensured_def fresh_link_def Let_def)
  have l: "l = foldl (\<lambda>l x. followed A (peers_in x) l) (followed A (peers_in e) ?l1) es"
    using lists_applied [OF wg cl(1), of ?k1 es pause] rest entries l1 by (simp add: l_def k1)
  then show "lk_up l" "lk_key l = Some (cl_PrivateKey cl)" "lk_addrs l = {rgd_MeshIP p @ ''/32''}"
    using l1 by (simp_all add: foldl_followed_keeps)
  show "\<exists>l0. l = followed A (peers_in (last (e # es))) l0" unfolding l foldl_last by blast
qed

section \<open>One more heartbeat\<close>

lemma filter_one_conn:
  assumes "distinct (map fst cs)" "(key, c) \<in> set cs" "\<forall>k. (k, c) \<in> set cs \<longrightarrow> k = key" "alive c"
  shows "filter (\<lambda>(x, e). x = c) (map (\<lambda>(k, x). (x, f k)) (filter (\<lambda>(k, x). alive x) cs)) = [(c, f key)]"
proof -
  have "filter (\<lambda>(k, x). alive x \<and> x = c) cs = [(key, c)]"
  proof (rule filter_one)
    show "distinct cs" using assms(1) by (simp add: distinct_map)
    show "(key, c) \<in> set cs" by (rule assms(2))
    fix y assume y: "y \<in> set cs"
    show "(case y of (k, x) \<Rightarrow> alive x \<and> x = c) \<longleftrightarrow> y = (key, c)"
    proof (cases y)
      case (Pair k x)
      show ?thesis using y assms(3,4) unfolding Pair by (cases "x = c") blast+
    qed
  qed
  then show ?thesis by (simp add: filter_map comp_def split_def)
qed

text \<open>What a connection that registered one key has received once another agent's heartbeat is handled.\<close>

lemma heartbeat_received:
  assumes "mesh_db cidr d" "reachable alive host d cidr w"
    and "w_pc w x = Ready" "w_key w x \<noteq> []" "handleHeartbeat alive now (w_key w x) (w_srv w) = (Inr (), s')"
    and "(key, c) \<in> set (srv_conns (w_srv w))" "\<forall>k. (k, c) \<in> set (srv_conns (w_srv w)) \<longrightarrow> k = key" "alive c"
  shows "\<exists>w'. reachable alive host d cidr w' \<and> w_srv w' = s'
    \<and> received c w' = received c w @ [peer_list_msg key (nodes (srv_db s'))]"
proof -
  obtain w' where w': "(ws_step alive host)\<^sup>*\<^sup>* w w'" "w_srv w' = s'"
    using heartbeat_is_run [where host = host, OF assms(3-5)] unfolding handled_def by blast
  have "reachable alive host d cidr w'"
    using assms(2) w'(1) unfolding reachable_def by (rule rtranclp_trans)
  moreover have "distinct (map fst (srv_conns (w_srv w)))"
    using reachable_inv [OF assms(1,2)] by (simp add: sys_inv_def conns_ok_def)
  note filter_one_conn [where f = "\<lambda>k. peer_list_msg k (nodes (srv_db s'))" and alive = alive, OF this assms(6-8)]
  then have "received c w' = received c w @ [peer_list_msg key (nodes (srv_db s'))]"
    by (simp add: received_def w'(2) heartbeat_out [OF assms(5)] del: filter_map filter_filter)
  ultimately show ?thesis using w'(2) by blast
qed

section \<open>A peer that is refused\<close>

text \<open>
  The server passes on whatever key, endpoint and subnets a node registered with. When \<open>wg\<close>
  refuses one entry of a list, the run ends there: the entries after it are not looked at.
\<close>

lemma refused_peer_ends:
  assumes "set_peers exec m ps k = (Inr (), k1)" "run exec (set_peer_argv m p) k1 = (Inl a, k2)"
  shows "set_peers exec m (ps @ p # qs) k = (Inl (Failed (''set peer '' @ peer_PublicKey p) a), k2)"
  using assms(1)
proof (induction ps arbitrary: k)
  case Nil
  then show ?case using assms(2) by simp
next
  case (Cons q ps)
  then show ?case by (auto split: prod.splits sum.splits)
qed

end
