(* ===== verification/Races.thy ===== *)
theory Races
  imports Samples AgentSession
begin

text \<open>
  What the interleaving of two registrations allows. The list of nodes is read before the
  reply and before the lock of the broadcast are taken, so that a broadcast may carry a list
  that a later one has overtaken; and the reply is written outside the lock, so that two
  goroutines may be about to write to one connection. \<open>mesh_converges\<close> is the other half of
  the first: the next heartbeat puts the list right.
\<close>

section \<open>A registration, stopped on its way\<close>

lemma register_until_listed:
  assumes "w_pc w c = Ready" "UsedMeshIPs (w_db w) = (Inr us, d1)" "AllocateIP (srv_cidr (w_srv w)) us = Inr cand"
    and "UpsertNode now (reg_Name p) (reg_PublicKey p) cand (endpoint_of (host c) p) (reg_AdvertisedSubnets p) d1 = (Inr ip, d2)"
    and "ListNodes d2 = (Inr ns, d3)"
  shows "\<exists>w'. (ws_step alive host)\<^sup>*\<^sup>* w w' \<and> w_srv w' = with_db (put_conn (reg_PublicKey p) c (w_srv w)) d3
    \<and> w_pc w' = (w_pc w)(c := Listed p ip ns)"
proof -
  let ?w1 = "goto c (GotCandidate p cand) (with_db (w_srv w) d1) (w\<lparr>w_key := (w_key w)(c := reg_PublicKey p)\<rparr>)"
  let ?w2 = "goto c (Upserted p ip) (with_db (w_srv ?w1) d2) ?w1"
  let ?w3 = "goto c (Entered p ip) (put_conn (reg_PublicKey p) c (w_srv ?w2)) ?w2"
  let ?w4 = "goto c (Listed p ip ns) (with_db (w_srv ?w3) d3) ?w3"
  have s1: "ws_step alive host w ?w1"
    using ws_step.register [OF assms(1,2), of alive host p] assms(3) by (simp add: after_used_def)
  have s2: "ws_step alive host ?w1 ?w2"
    using ws_step.upsert [where host = host and alive = alive and w = ?w1 and c = c] assms(4) by fastforce
  have s3: "ws_step alive host ?w2 ?w3"
    using ws_step.enter [where host = host and alive = alive and w = ?w2 and c = c] by simp
  have s4: "ws_step alive host ?w3 ?w4"
    using ws_step.list [where host = host and alive = alive and w = ?w3 and c = c] assms(5) by fastforce
  have "(ws_step alive host)\<^sup>*\<^sup>* w ?w2" using s1 s2 by (rule rtranclp.rtrancl_into_rtrancl [OF r_into_rtranclp])
  then have "(ws_step alive host)\<^sup>*\<^sup>* w ?w4"
    using s3 s4 by (blast intro: rtranclp.rtrancl_into_rtrancl)
  then show ?thesis by (intro exI [of _ ?w4]) (simp add: goto_def with_db_def put_conn_def)
qed

lemma register_until_broadcast:
  assumes "w_pc w c = Ready" "UsedMeshIPs (w_db w) = (Inr us, d1)" "AllocateIP (srv_cidr (w_srv w)) us = Inr cand"
    and "UpsertNode now (reg_Name p) (reg_PublicKey p) cand (endpoint_of (host c) p) (reg_AdvertisedSubnets p) d1 = (Inr ip, d2)"
    and "ListNodes d2 = (Inr ns, d3)" "alive c"
  shows "\<exists>w'. (ws_step alive host)\<^sup>*\<^sup>* w w'
    \<and> w_srv w' = snd (WriteJSON alive c (registered_msg ip (reg_PublicKey p) ns) (with_db (put_conn (reg_PublicKey p) c (w_srv w)) d3))
    \<and> w_pc w' = (w_pc w)(c := Broadcasting ns)"
proof -
  obtain w1 where w1: "(ws_step alive host)\<^sup>*\<^sup>* w w1" "w_srv w1 = with_db (put_conn (reg_PublicKey p) c (w_srv w)) d3"
    "w_pc w1 = (w_pc w)(c := Listed p ip ns)" using register_until_listed [OF assms(1-3), of now p host] assms(4,5) by blast
  have pc: "w_pc w1 c = Listed p ip ns" by (simp add: w1(3))
  obtain s1 where wr: "WriteJSON alive c (registered_msg ip (reg_PublicKey p) ns) (w_srv w1) = (True, s1)"
    using assms(6) by (simp add: WriteJSON_def)
  let ?w2 = "goto c (Broadcasting ns) s1 (w1\<lparr>w_told := w_told w1 @ [(reg_Name p, ip)]\<rparr>)"
  have "ws_step alive host w1 ?w2" using ws_step.reply [OF pc wr] by simp
  with w1(1) have "(ws_step alive host)\<^sup>*\<^sup>* w ?w2" by (rule rtranclp.rtrancl_into_rtrancl)
  then show ?thesis using wr unfolding w1(2) by (intro exI [of _ ?w2]) (simp add: goto_def w1(3))
qed

section \<open>Two registrations\<close>

text \<open>The statements of the first registration, and of the second one on what the first one left.\<close>

abbreviation first_db :: db where
  "first_db \<equiv> empty_db\<lparr>nodes := [first_node], next_id := 1\<rparr>"

abbreviation second_db :: db where
  "second_db \<equiv> empty_db\<lparr>nodes := [first_node, second_node], next_id := 2\<rparr>"

lemma first_statements:
  "UsedMeshIPs empty_db = (Inr [], empty_db)"
  "UpsertNode 5 (reg_Name (sample_register ''a'' ''ka'')) (reg_PublicKey (sample_register ''a'' ''ka'')) ''10.0.0.1''
     (endpoint_of (one_host 0) (sample_register ''a'' ''ka'')) (reg_AdvertisedSubnets (sample_register ''a'' ''ka'')) empty_db
   = (Inr ''10.0.0.1'', first_db)"
  "ListNodes first_db = (Inr [first_node], first_db)"
  by (simp_all add: UsedMeshIPs_def UpsertNode_def ListNodes_def run_statement_served upsert_body_def node_named_def)
     (simp_all add: empty_db_def first_node_def sample_register_def)

lemma second_statements:
  "UsedMeshIPs first_db = (Inr [''10.0.0.1''], first_db)"
  "UpsertNode 6 (reg_Name (sample_register ''b'' ''kb'')) (reg_PublicKey (sample_register ''b'' ''kb'')) ''10.0.0.2''
     (endpoint_of (one_host 1) (sample_register ''b'' ''kb'')) (reg_AdvertisedSubnets (sample_register ''b'' ''kb'')) first_db
   = (Inr ''10.0.0.2'', second_db)"
  "ListNodes second_db = (Inr [first_node, second_node], second_db)"
  by (simp_all add: UsedMeshIPs_def UpsertNode_def ListNodes_def run_statement_served upsert_body_def node_named_def)
     (simp_all add: empty_db_def first_node_def second_node_def sample_register_def)

lemma sample_start_used:
  "UsedMeshIPs (w_db sample_start) = (Inr [], empty_db)" "AllocateIP (srv_cidr (w_srv sample_start)) [] = Inr ''10.0.0.1''"
  using first_statements(1) sample_allocate by (simp_all add: sample_start_def start_world_def w_db_def new_server_def)

lemma sample_start_sel:
  "w_pc sample_start = (\<lambda>_. Ready)" "srv_cidr (w_srv sample_start) = ''10.0.0.0/29''"
  "w_srv sample_start = new_server empty_db ''10.0.0.0/29''"
  by (simp_all add: sample_start_def start_world_def new_server_def)

definition told_server :: Server where
  "told_server = first_server\<lparr>srv_out := [(0, registered_msg ''10.0.0.1'' ''ka'' [first_node])]\<rparr>"

lemma first_told:
  "\<exists>w. (ws_step all_alive one_host)\<^sup>*\<^sup>* sample_start w \<and> w_srv w = told_server
    \<and> w_pc w = (\<lambda>_. Ready)(0 := Broadcasting [first_node])"
proof -
  have pc: "w_pc sample_start 0 = Ready" "all_alive 0" by (simp_all add: sample_start_sel all_alive_def)
  have srv: "snd (WriteJSON all_alive 0 (registered_msg ''10.0.0.1'' (reg_PublicKey (sample_register ''a'' ''ka'')) [first_node])
      (with_db (put_conn (reg_PublicKey (sample_register ''a'' ''ka'')) 0 (new_server empty_db ''10.0.0.0/29'')) first_db))
    = told_server"
    by (simp add: told_server_def first_server_def sample_start_sel new_server_def with_db_def put_conn_def WriteJSON_def
        all_alive_def sample_register_def)
  show ?thesis
    using register_until_broadcast [where host = one_host and alive = all_alive, OF pc(1) sample_start_used first_statements(2,3) pc(2),
        unfolded sample_start_sel srv] .
qed

text \<open>The second agent registers while the first one's list waits for the lock.\<close>

lemma second_told:
  assumes "w_srv w = s" "srv_db s = first_db" "srv_cidr s = ''10.0.0.0/29''" "w_pc w 1 = Ready"
  shows "\<exists>w'. (ws_step all_alive one_host)\<^sup>*\<^sup>* w w'
    \<and> w_srv w' = s\<lparr>srv_db := second_db, srv_conns := (''kb'', 1) # filter (\<lambda>e. fst e \<noteq> ''kb'') (srv_conns s),
        srv_out := srv_out s @ [(1, registered_msg ''10.0.0.2'' ''kb'' [first_node, second_node])]\<rparr>
    \<and> w_pc w' = (w_pc w)(1 := Broadcasting [first_node, second_node])"
proof -
  have db: "UsedMeshIPs (w_db w) = (Inr [''10.0.0.1''], first_db)" "AllocateIP (srv_cidr (w_srv w)) [''10.0.0.1''] = Inr ''10.0.0.2''" "all_alive 1"
    unfolding w_db_def assms(1-3) by (rule second_statements sample_allocate_2 | simp add: all_alive_def)+
  have srv: "snd (WriteJSON all_alive 1
      (registered_msg ''10.0.0.2'' (reg_PublicKey (sample_register ''b'' ''kb'')) [first_node, second_node])
      (with_db (put_conn (reg_PublicKey (sample_register ''b'' ''kb'')) 1 (w_srv w)) second_db))
    = s\<lparr>srv_db := second_db, srv_conns := (''kb'', 1) # filter (\<lambda>e. fst e \<noteq> ''kb'') (srv_conns s),
        srv_out := srv_out s @ [(1, registered_msg ''10.0.0.2'' ''kb'' [first_node, second_node])]\<rparr>"
    using assms(1) by (simp add: with_db_def put_conn_def WriteJSON_def all_alive_def sample_register_def)
  show ?thesis
    using register_until_broadcast [where host = one_host and alive = all_alive, OF assms(4) db(1,2)
        second_statements(2) second_statements(3) db(3), unfolded srv] .
qed

section \<open>A list that is overtaken\<close>

text \<open>
  Both registrations are handled, every goroutine is back at its loop, both nodes are in the
  database, and the last list the first agent was sent is the one without the second node.
\<close>

lemma stale_list_last:
  "\<exists>w. reachable all_alive one_host empty_db ''10.0.0.0/29'' w \<and> w_pc w = (\<lambda>_. Ready)
    \<and> nodes (w_db w) = [first_node, second_node] \<and> conn_for (w_srv w) ''ka'' = Some 0
    \<and> peer_list_msg ''ka'' [first_node, second_node] \<in> set (received 0 w)
    \<and> last (received 0 w) = peer_list_msg ''ka'' [first_node] \<and> peers_in (last (received 0 w)) = []"
proof -
  obtain w1 where w1: "(ws_step all_alive one_host)\<^sup>*\<^sup>* sample_start w1" "w_srv w1 = told_server"
    "w_pc w1 = (\<lambda>_. Ready)(0 := Broadcasting [first_node])" using first_told by blast
  have told: "srv_db told_server = first_db" "srv_cidr told_server = ''10.0.0.0/29''" "w_pc w1 1 = Ready"
    by (simp_all add: told_server_def first_server_def sample_start_sel new_server_def w1(3))
  obtain w2 where w2: "(ws_step all_alive one_host)\<^sup>*\<^sup>* w1 w2"
    "w_srv w2 = told_server\<lparr>srv_db := second_db, srv_conns := (''kb'', 1) # filter (\<lambda>e. fst e \<noteq> ''kb'') (srv_conns told_server),
      srv_out := srv_out told_server @ [(1, registered_msg ''10.0.0.2'' ''kb'' [first_node, second_node])]\<rparr>"
    "w_pc w2 = (w_pc w1)(1 := Broadcasting [first_node, second_node])" using second_told [OF w1(2) told] by blast
  let ?w3 = "goto 1 Ready (broadcastPeerLists all_alive [first_node, second_node] (w_srv w2)) w2"
  let ?w4 = "goto 0 Ready (broadcastPeerLists all_alive [first_node] (w_srv ?w3)) ?w3"
  have s3: "ws_step all_alive one_host w2 ?w3" using ws_step.broadcast [of w2 1] by (simp add: w2(3))
  have s4: "ws_step all_alive one_host ?w3 ?w4" using ws_step.broadcast [of ?w3 0] by (simp add: w2(3) w1(3))
  have "(ws_step all_alive one_host)\<^sup>*\<^sup>* sample_start ?w4"
    by (rule rtranclp.rtrancl_into_rtrancl [OF rtranclp.rtrancl_into_rtrancl [OF rtranclp_trans [OF w1(1) w2(1)] s3] s4])
  moreover have "srv_out (w_srv ?w4) = srv_out (w_srv w2)
      @ [(1, peer_list_msg ''kb'' [first_node, second_node]), (0, peer_list_msg ''ka'' [first_node, second_node]),
         (1, peer_list_msg ''kb'' [first_node]), (0, peer_list_msg ''ka'' [first_node])]"
    by (simp add: broadcast_out w2(2) told_server_def first_server_def all_alive_def)
  then have "received 0 ?w4 = [registered_msg ''10.0.0.1'' ''ka'' [first_node],
      peer_list_msg ''ka'' [first_node, second_node], peer_list_msg ''ka'' [first_node]]"
    by (simp add: received_def w2(2) told_server_def)
  moreover have "w_pc ?w4 = (\<lambda>_. Ready)" by (simp add: w2(3) w1(3) fun_eq_iff)
  moreover have "nodes (w_db ?w4) = [first_node, second_node]" "conn_for (w_srv ?w4) ''ka'' = Some 0"
    unfolding w_db_def by (simp_all add: w2(2) conn_for_def told_server_def first_server_def)
  moreover have "peers_in (peer_list_msg ''ka'' [first_node]) = []"
    by (simp add: peers_in_def agent_reads_list) (simp add: first_node_def)
  ultimately show ?thesis unfolding reachable_def sample_start_def [symmetric] by (intro exI [of _ ?w4]) simp
qed

section \<open>Two writers on one connection\<close>

text \<open>
  A goroutine about to write the reply on its own connection, and another one about to
  broadcast to the same connection: only the second one holds the lock.
\<close>

lemma reply_races:
  "\<exists>w p ip ns ns'. reachable all_alive one_host empty_db ''10.0.0.0/29'' w \<and> w_pc w 0 = Listed p ip ns
    \<and> w_pc w 1 = Broadcasting ns' \<and> (''ka'', 0) \<in> set (srv_conns (w_srv w))"
proof -
  have pc: "w_pc sample_start 0 = Ready" by (simp add: sample_start_sel)
  obtain w1 where w1: "(ws_step all_alive one_host)\<^sup>*\<^sup>* sample_start w1"
    "w_srv w1 = with_db (put_conn (reg_PublicKey (sample_register ''a'' ''ka'')) 0 (new_server empty_db ''10.0.0.0/29'')) first_db"
    "w_pc w1 = (\<lambda>_. Ready)(0 := Listed (sample_register ''a'' ''ka'') ''10.0.0.1'' [first_node])"
    using register_until_listed [where host = one_host and alive = all_alive, OF pc sample_start_used first_statements(2,3),
        unfolded sample_start_sel] by blast
  have s: "srv_db (w_srv w1) = first_db" "srv_cidr (w_srv w1) = ''10.0.0.0/29''" "w_pc w1 1 = Ready"
    "srv_conns (w_srv w1) = [(''ka'', 0)]"
    by (simp_all add: w1(2,3) new_server_def with_db_def put_conn_def sample_register_def)
  obtain w2 where w2: "(ws_step all_alive one_host)\<^sup>*\<^sup>* w1 w2" "srv_conns (w_srv w2) = [(''kb'', 1), (''ka'', 0)]"
    "w_pc w2 = (w_pc w1)(1 := Broadcasting [first_node, second_node])"
    using second_told [OF refl s(1-3)] by (auto simp: s(4))
  have "reachable all_alive one_host empty_db ''10.0.0.0/29'' w2"
    using rtranclp_trans [OF w1(1) w2(1)] unfolding reachable_def sample_start_def .
  then show ?thesis using w2(2,3) w1(3) by (intro exI [of _ w2]) simp
qed

end
