(* ===== verification/Migrate.thy ===== *)
theory Migrate
  imports Prelude GoStrings
begin

text \<open>
  internal/controlplane/db/migrate.go. The state is the schema and the rows of
  \<open>schema_migrations\<close>; what a migration file does to the schema is the parameter
  \<open>apply_sql\<close> (\<open>None\<close> when its script fails), the directory a record of parameters. As
  for the other tables, a script says which statements the database serves. The lemmas
  show that a run applies a prefix of the pending files in order, each at most once, all of
  them when it succeeds, and that a run resumed after a failure ends in the same schema.
\<close>

record 's catalog =
  cat_applied :: "string list"
  cat_schema :: 's
  cat_faults :: "bool list"

record migrations =
  dir_entries :: "(string \<times> bool) list option"
  dir_read :: "string \<Rightarrow> string option"

datatype migrate_error =
    CreateTable
  | ReadDir
  | Check string
  | ReadFile string
  | Begin string
  | Apply string
  | Record string
  | Commit string

definition served :: "'s catalog \<Rightarrow> bool \<times> 's catalog" where
  "served c = (case cat_faults c of [] \<Rightarrow> (True, c) | f # fs \<Rightarrow> (\<not> f, c\<lparr>cat_faults := fs\<rparr>))"

text \<open>\<open>filepath.Ext\<close> of a directory entry: the last dot and what follows it.\<close>

definition Ext :: "string \<Rightarrow> string" where
  "Ext name = (case Cut (rev name) (CHR ''.'') of None \<Rightarrow> [] | Some (a, b) \<Rightarrow> CHR ''.'' # rev a)"

definition sql_files :: "(string \<times> bool) list \<Rightarrow> string list" where
  "sql_files entries = sort (map fst (filter (\<lambda>(name, isdir). \<not> isdir \<and> Ext name = ''.sql'') entries))"

section \<open>The run\<close>

text \<open>The transaction of one file; it is rolled back unless every step is served.\<close>

definition migrate_one ::
  "(string \<Rightarrow> 's \<Rightarrow> 's option) \<Rightarrow> string \<Rightarrow> string \<Rightarrow> 's catalog \<Rightarrow> (migrate_error + unit) \<times> 's catalog" where
  "migrate_one apply_sql name contents c = (case served c of
       (False, c1) \<Rightarrow> (Inl (Begin name), c1)
     | (True, c1) \<Rightarrow> (case served c1 of
         (False, c2) \<Rightarrow> (Inl (Apply name), c2)
       | (True, c2) \<Rightarrow> (case apply_sql contents (cat_schema c2) of
           None \<Rightarrow> (Inl (Apply name), c2)
         | Some s \<Rightarrow> (case served c2 of
             (False, c3) \<Rightarrow> (Inl (Record name), c3)
           | (True, c3) \<Rightarrow> if name \<in> set (cat_applied c3) then (Inl (Record name), c3)
             else (case served c3 of
               (False, c4) \<Rightarrow> (Inl (Commit name), c4)
             | (True, c4) \<Rightarrow> (Inr (), c4\<lparr>cat_schema := s, cat_applied := cat_applied c4 @ [name]\<rparr>))))))"

fun migrate_files ::
  "(string \<Rightarrow> 's \<Rightarrow> 's option) \<Rightarrow> (string \<Rightarrow> string option) \<Rightarrow> string list \<Rightarrow> 's catalog
    \<Rightarrow> (migrate_error + unit) \<times> 's catalog" where
  "migrate_files apply_sql read [] c = (Inr (), c)"
| "migrate_files apply_sql read (name # names) c = (case served c of
       (False, c1) \<Rightarrow> (Inl (Check name), c1)
     | (True, c1) \<Rightarrow> if name \<in> set (cat_applied c1) then migrate_files apply_sql read names c1
       else (case read name of
         None \<Rightarrow> (Inl (ReadFile name), c1)
       | Some contents \<Rightarrow> (case migrate_one apply_sql name contents c1 of
           (Inl e, c2) \<Rightarrow> (Inl e, c2)
         | (Inr _, c2) \<Rightarrow> migrate_files apply_sql read names c2)))"

definition Migrate ::
  "(string \<Rightarrow> 's \<Rightarrow> 's option) \<Rightarrow> migrations \<Rightarrow> 's catalog \<Rightarrow> (migrate_error + unit) \<times> 's catalog" where
  "Migrate apply_sql dir c = (case served c of
       (False, c1) \<Rightarrow> (Inl CreateTable, c1)
     | (True, c1) \<Rightarrow> (case dir_entries dir of
         None \<Rightarrow> (Inl ReadDir, c1)
       | Some entries \<Rightarrow> migrate_files apply_sql (dir_read dir) (sql_files entries) c1))"

section \<open>What a run applies\<close>

text \<open>The effect of applying files one after the other.\<close>

fun apply_all :: "(string \<Rightarrow> 's \<Rightarrow> 's option) \<Rightarrow> (string \<Rightarrow> string option) \<Rightarrow> string list \<Rightarrow> 's \<Rightarrow> 's option" where
  "apply_all apply_sql read [] s = Some s"
| "apply_all apply_sql read (n # ns) s = Option.bind (read n) (\<lambda>contents.
     Option.bind (apply_sql contents s) (apply_all apply_sql read ns))"

lemma apply_all_append:
  "apply_all apply_sql read (a @ b) s = Option.bind (apply_all apply_sql read a s) (apply_all apply_sql read b)"
  by (induction a arbitrary: s) (auto split: Option.bind_splits)

definition pending :: "migrations \<Rightarrow> string list \<Rightarrow> string list" where
  "pending dir applied = (case dir_entries dir of None \<Rightarrow> []
     | Some entries \<Rightarrow> filter (\<lambda>n. n \<notin> set applied) (sql_files entries))"

lemma served_keeps: "served c = (ok, c') \<Longrightarrow> cat_applied c' = cat_applied c \<and> cat_schema c' = cat_schema c"
  by (auto simp: served_def split: list.splits)

lemma served_all: "cat_faults c = [] \<Longrightarrow> served c = (True, c)"
  by (simp add: served_def)

lemma migrate_one_cases:
  assumes "migrate_one apply_sql name contents c = (r, c')"
  shows "(\<exists>s. r = Inr () \<and> apply_sql contents (cat_schema c) = Some s \<and> cat_schema c' = s
        \<and> cat_applied c' = cat_applied c @ [name])
    \<or> (\<exists>e. r = Inl e \<and> cat_schema c' = cat_schema c \<and> cat_applied c' = cat_applied c)"
  using assms
  by (auto simp: migrate_one_def dest!: served_keeps split: prod.splits bool.splits option.splits if_splits)

lemma migrate_files_prefix:
  assumes "migrate_files apply_sql read names c = (r, c')" "distinct names"
  shows "\<exists>new rest. filter (\<lambda>n. n \<notin> set (cat_applied c)) names = new @ rest
    \<and> cat_applied c' = cat_applied c @ new \<and> apply_all apply_sql read new (cat_schema c) = Some (cat_schema c')
    \<and> (r = Inr () \<longrightarrow> rest = [])"
  using assms
proof (induction names arbitrary: c)
  case (Cons name names)
  have stop: ?case if "cat_applied c' = cat_applied c" "cat_schema c' = cat_schema c" "r \<noteq> Inr ()"
    using that by (intro exI [of _ "[]"] exI [of _ "filter (\<lambda>n. n \<notin> set (cat_applied c)) (name # names)"]) simp
  obtain ok c1 where s: "served c = (ok, c1)" by (cases "served c")
  note same = served_keeps [OF s]
  show ?case
  proof (cases ok)
    case False
    then show ?thesis using Cons.prems(1) s same by (intro stop) auto
  next
    case True
    show ?thesis
    proof (cases "name \<in> set (cat_applied c)")
      case old: True
      then have "migrate_files apply_sql read names c1 = (r, c')" using Cons.prems(1) s same True by simp
      from Cons.IH [OF this] show ?thesis using Cons.prems(2) same old by simp
    next
      case new: False
      show ?thesis
      proof (cases "read name")
        case None
        then show ?thesis using Cons.prems(1) s same True new by (intro stop) auto
      next
        case (Some contents)
        obtain r2 c2 where one: "migrate_one apply_sql name contents c1 = (r2, c2)"
          by (cases "migrate_one apply_sql name contents c1")
        from migrate_one_cases [OF one] show ?thesis
        proof
          assume "\<exists>e. r2 = Inl e \<and> cat_schema c2 = cat_schema c1 \<and> cat_applied c2 = cat_applied c1"
          then show ?thesis using Cons.prems(1) s same True new Some one by (intro stop) auto
        next
          assume "\<exists>s. r2 = Inr () \<and> apply_sql contents (cat_schema c1) = Some s \<and> cat_schema c2 = s
            \<and> cat_applied c2 = cat_applied c1 @ [name]"
          then have applied: "r2 = Inr ()" "apply_sql contents (cat_schema c) = Some (cat_schema c2)"
            "cat_applied c2 = cat_applied c @ [name]" using same by auto
          then have "migrate_files apply_sql read names c2 = (r, c')"
            using Cons.prems(1) s same True new Some one by simp
          from Cons.IH [OF this] Cons.prems(2) obtain ns rest where
            "filter (\<lambda>n. n \<notin> set (cat_applied c2)) names = ns @ rest" "cat_applied c' = cat_applied c2 @ ns"
            "apply_all apply_sql read ns (cat_schema c2) = Some (cat_schema c')" "r = Inr () \<longrightarrow> rest = []" by auto
          moreover have "filter (\<lambda>n. n \<notin> set (cat_applied c2)) names = filter (\<lambda>n. n \<notin> set (cat_applied c)) names"
            using Cons.prems(2) applied(3) by (intro filter_cong) auto
          ultimately show ?thesis using new Some applied
            by (intro exI [of _ "name # ns"] exI [of _ rest]) simp
        qed
      qed
    qed
  qed
qed simp

definition unique_entries :: "migrations \<Rightarrow> bool" where
  "unique_entries dir \<longleftrightarrow> (case dir_entries dir of None \<Rightarrow> True | Some es \<Rightarrow> distinct (map fst es))"

lemma distinct_sql_files: "distinct (map fst es) \<Longrightarrow> distinct (sql_files es)"
  by (simp add: sql_files_def distinct_map_filter)

lemma Migrate_prefix:
  assumes "Migrate apply_sql dir c = (r, c')" "unique_entries dir"
  shows "\<exists>new rest. pending dir (cat_applied c) = new @ rest \<and> cat_applied c' = cat_applied c @ new
    \<and> apply_all apply_sql (dir_read dir) new (cat_schema c) = Some (cat_schema c') \<and> (r = Inr () \<longrightarrow> rest = [])"
proof -
  obtain ok c1 where s: "served c = (ok, c1)" by (cases "served c")
  note same = served_keeps [OF s]
  show ?thesis
  proof (cases "ok \<and> dir_entries dir \<noteq> None")
    case True
    then obtain es where es: "dir_entries dir = Some es" by auto
    then have run: "migrate_files apply_sql (dir_read dir) (sql_files es) c1 = (r, c')"
      using assms(1) s True by (simp add: Migrate_def)
    have "distinct (sql_files es)" using assms(2) es by (simp add: unique_entries_def distinct_sql_files)
    from migrate_files_prefix [OF run this] show ?thesis using same es by (simp add: pending_def)
  next
    case False
    then have "cat_applied c' = cat_applied c" "cat_schema c' = cat_schema c" "r \<noteq> Inr ()"
      using assms(1) s same by (auto simp: Migrate_def split: option.splits bool.splits)
    then show ?thesis by (intro exI [of _ "[]"] exI [of _ "pending dir (cat_applied c)"]) simp
  qed
qed

lemma pending_after: "distinct (pending dir a) \<Longrightarrow> pending dir a = new @ rest \<Longrightarrow> pending dir (a @ new) = rest"
proof -
  assume d: "distinct (pending dir a)" and split: "pending dir a = new @ rest"
  have "pending dir (a @ new) = filter (\<lambda>n. n \<notin> set new) (pending dir a)"
    by (auto simp: pending_def intro: filter_cong split: option.split)
  also have "\<dots> = rest" using d unfolding split by (auto simp: filter_id_conv filter_empty_conv)
  finally show ?thesis .
qed

lemma distinct_pending: "unique_entries dir \<Longrightarrow> distinct (pending dir a)"
  by (auto simp: pending_def unique_entries_def distinct_sql_files split: option.splits)

text \<open>Once everything is applied, a further run changes nothing.\<close>

lemma Migrate_again:
  assumes "Migrate apply_sql dir c = (Inr (), c')" "unique_entries dir" "Migrate apply_sql' dir c' = (r, c'')"
  shows "cat_applied c'' = cat_applied c' \<and> cat_schema c'' = cat_schema c'"
proof -
  obtain new where new: "pending dir (cat_applied c) = new" "cat_applied c' = cat_applied c @ new"
    using Migrate_prefix [OF assms(1,2)] by auto
  then have "pending dir (cat_applied c') = []"
    using pending_after [OF distinct_pending [OF assms(2)], of "cat_applied c" new "[]"] by simp
  then show ?thesis using Migrate_prefix [OF assms(3,2)] by auto
qed

text \<open>
  Runs that fail and are started again end, once one succeeds, in the schema of a run that
  was never interrupted.
\<close>

lemma Migrate_resumed:
  assumes "Migrate apply_sql dir c = (r, c1)" "Migrate apply_sql dir c1 = (Inr (), c2)" "unique_entries dir"
  shows "cat_applied c2 = cat_applied c @ pending dir (cat_applied c)"
    and "apply_all apply_sql (dir_read dir) (pending dir (cat_applied c)) (cat_schema c) = Some (cat_schema c2)"
proof -
  obtain new rest where a: "pending dir (cat_applied c) = new @ rest" "cat_applied c1 = cat_applied c @ new"
    "apply_all apply_sql (dir_read dir) new (cat_schema c) = Some (cat_schema c1)"
    using Migrate_prefix [OF assms(1,3)] by blast
  have "pending dir (cat_applied c1) = rest"
    using pending_after [OF distinct_pending [OF assms(3)] a(1)] a(2) by simp
  then have b: "cat_applied c2 = cat_applied c1 @ rest"
    "apply_all apply_sql (dir_read dir) rest (cat_schema c1) = Some (cat_schema c2)"
    using Migrate_prefix [OF assms(2,3)] by auto
  show "cat_applied c2 = cat_applied c @ pending dir (cat_applied c)" using a b by simp
  show "apply_all apply_sql (dir_read dir) (pending dir (cat_applied c)) (cat_schema c) = Some (cat_schema c2)"
    using a b by (simp add: apply_all_append)
qed

text \<open>With every statement served, a run succeeds when the scripts do.\<close>

lemma migrate_files_succeed:
  assumes "cat_faults c = []" "distinct names"
    "apply_all apply_sql read (filter (\<lambda>n. n \<notin> set (cat_applied c)) names) (cat_schema c) = Some s"
  shows "\<exists>c'. migrate_files apply_sql read names c = (Inr (), c')"
  using assms
proof (induction names arbitrary: c)
  case (Cons name names)
  show ?case
  proof (cases "name \<in> set (cat_applied c)")
    case True
    then show ?thesis using Cons.IH [of c] Cons.prems by (simp add: served_all)
  next
    case False
    then obtain contents s1 where ok: "read name = Some contents" "apply_sql contents (cat_schema c) = Some s1"
      "apply_all apply_sql read (filter (\<lambda>n. n \<notin> set (cat_applied c)) names) s1 = Some s"
      using Cons.prems(3) by (auto simp: Option.bind_eq_Some_conv)
    let ?c = "c\<lparr>cat_schema := s1, cat_applied := cat_applied c @ [name]\<rparr>"
    have "filter (\<lambda>n. n \<notin> set (cat_applied ?c)) names = filter (\<lambda>n. n \<notin> set (cat_applied c)) names"
      using Cons.prems(2) by (intro filter_cong) auto
    then have "\<exists>c'. migrate_files apply_sql read names ?c = (Inr (), c')"
      using Cons.prems ok(3) by (intro Cons.IH) simp_all
    then show ?thesis using False ok Cons.prems(1) by (simp add: served_all migrate_one_def)
  qed
qed simp

lemma Migrate_succeeds:
  assumes "cat_faults c = []" "dir_entries dir \<noteq> None" "unique_entries dir"
    "apply_all apply_sql (dir_read dir) (pending dir (cat_applied c)) (cat_schema c) \<noteq> None"
  shows "\<exists>c'. Migrate apply_sql dir c = (Inr (), c')"
proof -
  obtain es s where "dir_entries dir = Some es"
    "apply_all apply_sql (dir_read dir) (filter (\<lambda>n. n \<notin> set (cat_applied c)) (sql_files es)) (cat_schema c) = Some s"
    using assms(2,4) by (auto simp: pending_def)
  then show ?thesis using migrate_files_succeed [OF assms(1)] assms(1,3) distinct_sql_files
    by (auto simp: Migrate_def served_all unique_entries_def)
qed

lemma pending_sorted: "sorted (pending dir a)"
  by (auto simp: pending_def sql_files_def intro: sorted_filter [of id, simplified] split: option.split)

lemma pending_iff:
  "dir_entries dir = Some es \<Longrightarrow>
    n \<in> set (pending dir a) \<longleftrightarrow> (n, False) \<in> set es \<and> Ext n = ''.sql'' \<and> n \<notin> set a"
  by (force simp: pending_def sql_files_def)

end
