(* ===== verification/Startup.thy ===== *)
theory Startup
  imports HttpApi WsServer Migrate
begin

text \<open>
  The start of cmd/controlplane/main.go up to \<open>ListenAndServe\<close>; the routes are in HttpApi
  and Routes. The configuration comes from environment variables (\<open>getenv\<close> gives the
  empty string for an unset one); parameters say whether the pool of connections can be made
  and answers a ping, and what the embedded index.html is; then come the migrations, the
  first administrator, the server and the dashboard. The lemmas show that an account exists after
  every start, that it can log in, and that a later start leaves the accounts alone.
\<close>

datatype connect_error = PoolFailed | PingFailed

datatype start_error =
    RequiredUnset string
  | ConnectFailed connect_error
  | DashboardMissing
  | MigrateFailed migrate_error
  | BootstrapErr user_error

definition required :: "(string \<Rightarrow> string) \<Rightarrow> string \<Rightarrow> start_error + string" where
  "required getenv key = (if getenv key = [] then Inl (RequiredUnset key) else Inr (getenv key))"

definition env_or :: "(string \<Rightarrow> string) \<Rightarrow> string \<Rightarrow> string \<Rightarrow> string" where
  "env_or getenv key fallback = (if getenv key \<noteq> [] then getenv key else fallback)"

record settings =
  cp_dsn :: string
  cp_meshCIDR :: string
  cp_listenAddr :: string
  cp_migrationsDir :: string
  cp_sessionSecret :: string
  cp_baseURL :: string
  cp_smtp :: Mail.Config

definition read_settings :: "(string \<Rightarrow> string) \<Rightarrow> start_error + settings" where
  "read_settings getenv =
     and_then (required getenv ''RVTX_POSTGRES_DSN'') (\<lambda>dsn.
     and_then (required getenv ''RVTX_MESH_CIDR'') (\<lambda>cidr.
     and_then (required getenv ''RVTX_SESSION_SECRET'') (\<lambda>secret.
     and_then (required getenv ''RVTX_DASHBOARD_BASE_URL'') (\<lambda>base.
       Inr \<lparr>cp_dsn = dsn, cp_meshCIDR = cidr, cp_listenAddr = env_or getenv ''RVTX_LISTEN_ADDR'' '':8080'',
         cp_migrationsDir = env_or getenv ''RVTX_MIGRATIONS_DIR'' ''migrations'', cp_sessionSecret = secret,
         cp_baseURL = base,
         cp_smtp = \<lparr>cfg_Server = getenv ''RVTX_SMTP_SERVER'', cfg_Port = env_or getenv ''RVTX_SMTP_PORT'' ''587'',
           cfg_User = getenv ''RVTX_SMTP_USER'', cfg_Password = getenv ''RVTX_SMTP_PASSWORD'',
           cfg_From = getenv ''RVTX_SMTP_FROM''\<rparr>\<rparr>))))"

definition bootstrapAdmin :: "(string \<Rightarrow> string) \<Rightarrow> int \<Rightarrow> db \<Rightarrow> (start_error + unit) \<times> db" where
  "bootstrapAdmin getenv pg_now d = (case CountUsers d of
       (Inl e, d1) \<Rightarrow> (Inl (BootstrapErr e), d1)
     | (Inr n, d1) \<Rightarrow> if n > 0 then (Inr (), d1)
       else (case required getenv ''RVTX_BOOTSTRAP_ADMIN_EMAIL'' of Inl e \<Rightarrow> (Inl e, d1) | Inr email \<Rightarrow>
         case required getenv ''RVTX_DASHBOARD_PASSWORD_HASH'' of Inl e \<Rightarrow> (Inl e, d1) | Inr hash \<Rightarrow>
         case CreateAdminWithPassword pg_now email hash d1 of
           (Inl e, d2) \<Rightarrow> (Inl (BootstrapErr e), d2)
         | (Inr _, d2) \<Rightarrow> (Inr (), d2)))"

text \<open>What the process starts in, beside its environment variables and its database.\<close>

record surroundings =
  su_pool :: "string \<Rightarrow> bool"
  su_ping :: "string \<Rightarrow> bool"
  su_dirs :: "string \<Rightarrow> migrations"
  su_index :: "string option"

text \<open>A pool is made and must answer a ping.\<close>

definition Connect :: "surroundings \<Rightarrow> string \<Rightarrow> connect_error + unit" where
  "Connect su dsn = (if \<not> su_pool su dsn then Inl PoolFailed else if \<not> su_ping su dsn then Inl PingFailed else Inr ())"

text \<open>The part of \<open>spaHandler\<close> that runs once: without an index.html the process ends.\<close>

definition open_dashboard :: "surroundings \<Rightarrow> start_error + string" where
  "open_dashboard su = (case su_index su of None \<Rightarrow> Inl DashboardMissing | Some html \<Rightarrow> Inr html)"

text \<open>\<open>main\<close> until it listens.\<close>

definition start ::
  "(string \<Rightarrow> string) \<Rightarrow> surroundings \<Rightarrow> (string \<Rightarrow> 's \<Rightarrow> 's option) \<Rightarrow> int
    \<Rightarrow> 's catalog \<times> db \<Rightarrow> (start_error + settings \<times> Server) \<times> 's catalog \<times> db" where
  "start getenv su apply_sql pg_now st = (case st of (c, d) \<Rightarrow>
     (case read_settings getenv of
        Inl e \<Rightarrow> (Inl e, c, d)
      | Inr cfg \<Rightarrow> (case Connect su (cp_dsn cfg) of
          Inl e \<Rightarrow> (Inl (ConnectFailed e), c, d)
        | Inr _ \<Rightarrow> (case Migrate apply_sql (su_dirs su (cp_migrationsDir cfg)) c of
            (Inl e, c1) \<Rightarrow> (Inl (MigrateFailed e), c1, d)
          | (Inr _, c1) \<Rightarrow> (case bootstrapAdmin getenv pg_now d of
              (Inl e, d1) \<Rightarrow> (Inl e, c1, d1)
            | (Inr _, d1) \<Rightarrow> (case open_dashboard su of
                Inl e \<Rightarrow> (Inl e, c1, d1)
              | Inr _ \<Rightarrow> (Inr (cfg, new_server d1 (cp_meshCIDR cfg)), c1, d1)))))))"

lemma CountUsers_keeps:
  assumes "CountUsers d = (r, d1)"
  shows "same_tables d d1" "db_ok d \<Longrightarrow> db_ok d1" "r = Inr n \<Longrightarrow> n = length (users d)"
proof -
  obtain ok d0 where s: "statement d = (ok, d0)" by (cases "statement d")
  have "d1 = d0" "r = Inr n \<Longrightarrow> n = length (users d0)"
    using assms s by (cases ok; simp add: CountUsers_def run_statement_def)+
  then show "same_tables d d1" "db_ok d \<Longrightarrow> db_ok d1" "r = Inr n \<Longrightarrow> n = length (users d)"
    using statement_same [OF s] statement_ok [OF s] statement_tables(4) [OF s] by auto
qed

lemma CreateAdmin_effect:
  assumes "CreateAdminWithPassword pg_now email h d = (Inr (), d')"
  shows "users d' = users d @ [\<lparr>user_id = next_id d, user_email = email, user_password_hash = Some h,
      user_role = RoleAdmin, user_invite_token = None, user_invite_expires = None, user_reset_token = None,
      user_reset_expires = None, user_created_at = pg_now\<rparr>]
    \<and> nodes d' = nodes d \<and> resources d' = resources d \<and> resource_targets d' = resource_targets d"
proof -
  obtain ok d0 where s: "statement d = (ok, d0)" by (cases "statement d")
  have "ok" "create_admin_body pg_now email h d0 = (Inr (), d')"
    using assms s by (auto simp: CreateAdminWithPassword_def run_statement_def split: prod.splits sum.splits if_splits)
  then show ?thesis using statement_tables [OF s]
    by (auto simp: create_admin_body_def RoleAdmin_def split: if_splits)
qed

lemma bootstrap_existing:
  assumes "bootstrapAdmin getenv pg_now d = (r, d')" "users d \<noteq> []"
  shows "same_tables d d'"
proof -
  obtain r1 d1 where c: "CountUsers d = (r1, d1)" by (cases "CountUsers d")
  have "r1 = Inr n \<Longrightarrow> 0 < n" for n using CountUsers_keeps(3) [OF c] assms(2) by simp
  then have "d' = d1" using assms(1) c by (cases r1) (auto simp: bootstrapAdmin_def)
  then show ?thesis using CountUsers_keeps(1) [OF c] by simp
qed

lemma bootstrap_first:
  assumes "bootstrapAdmin getenv pg_now d = (Inr (), d')" "users d = []"
  shows "\<exists>u. users d' = [u] \<and> user_email u = getenv ''RVTX_BOOTSTRAP_ADMIN_EMAIL''
    \<and> user_password_hash u = Some (getenv ''RVTX_DASHBOARD_PASSWORD_HASH'') \<and> user_role u = RoleAdmin
    \<and> nodes d' = nodes d \<and> resources d' = resources d \<and> resource_targets d' = resource_targets d"
proof -
  obtain r1 d1 where c: "CountUsers d = (r1, d1)" by (cases "CountUsers d")
  then obtain n where n: "r1 = Inr n" using assms(1) by (cases r1) (auto simp: bootstrapAdmin_def)
  then have "n = 0" using CountUsers_keeps(3) [OF c] assms(2) by simp
  then have "CreateAdminWithPassword pg_now (getenv ''RVTX_BOOTSTRAP_ADMIN_EMAIL'')
      (getenv ''RVTX_DASHBOARD_PASSWORD_HASH'') d1 = (Inr (), d')"
    using assms(1) c n by (auto simp: bootstrapAdmin_def required_def split: if_splits prod.splits sum.splits)
  from CreateAdmin_effect [OF this] CountUsers_keeps(1) [OF c] show ?thesis
    using assms(2) by (simp add: same_tables_def)
qed

lemma CreateAdmin_keeps:
  assumes "CreateAdminWithPassword pg_now email h d = (r, d')"
  shows "nodes d' = nodes d \<and> resources d' = resources d \<and> resource_targets d' = resource_targets d"
proof -
  obtain ok d0 where s: "statement d = (ok, d0)" by (cases "statement d")
  then show ?thesis using assms statement_tables [OF s]
    by (auto simp: CreateAdminWithPassword_def run_statement_def create_admin_body_def split: prod.splits sum.splits if_splits)
qed

lemma bootstrap_keeps:
  assumes "bootstrapAdmin getenv pg_now d = (r, d')"
  shows "nodes d' = nodes d \<and> resources d' = resources d \<and> resource_targets d' = resource_targets d"
proof -
  obtain r1 d1 where c: "CountUsers d = (r1, d1)" by (cases "CountUsers d")
  have "same_tables d d1" by (rule CountUsers_keeps(1) [OF c])
  then show ?thesis using assms c
    by (auto simp: bootstrapAdmin_def same_tables_def split: sum.splits if_splits prod.splits dest: CreateAdmin_keeps)
qed

lemma settings_cidr: "read_settings getenv = Inr cfg \<Longrightarrow> cp_meshCIDR cfg = getenv ''RVTX_MESH_CIDR''"
  by (auto simp: read_settings_def and_then_def required_def split: sum.splits if_splits)

lemma bootstrap_ok: "db_ok d \<Longrightarrow> bootstrapAdmin getenv pg_now d = (r, d') \<Longrightarrow> db_ok d'"
proof -
  assume ok: "db_ok d" and run: "bootstrapAdmin getenv pg_now d = (r, d')"
  obtain r1 d1 where c: "CountUsers d = (r1, d1)" by (cases "CountUsers d")
  have ok1: "db_ok d1" by (rule CountUsers_keeps(2) [OF c ok])
  have "db_ok d2" if "CreateAdminWithPassword pg_now em h d1 = (x, d2)" for em h x d2
    using ok1 that by (rule CreateAdmin_ok)
  then show ?thesis using run c ok1
    by (auto simp: bootstrapAdmin_def split: sum.splits if_splits prod.splits)
qed

section \<open>The start\<close>

lemma start_cases:
  assumes "start getenv su apply_sql pg_now (c, d) = (Inr (cfg, srv), c', d')"
  shows "read_settings getenv = Inr cfg" "Migrate apply_sql (su_dirs su (cp_migrationsDir cfg)) c = (Inr (), c')"
    "bootstrapAdmin getenv pg_now d = (Inr (), d')" "srv = new_server d' (cp_meshCIDR cfg)"
  using assms by (auto simp: start_def split: sum.splits if_splits prod.splits)

text \<open>
  A start that fails has stopped at its first failing step: the settings and the connection
  change nothing, and only a start that could run the migrations reaches the accounts.
\<close>

lemma start_error:
  assumes "start getenv su apply_sql pg_now (c, d) = (Inl e, c', d')"
  shows "(c' = c \<and> d' = d \<and> (read_settings getenv = Inl e \<or> (\<exists>x. e = ConnectFailed x)))
    \<or> (\<exists>cfg. read_settings getenv = Inr cfg \<and>
        ((\<exists>m. e = MigrateFailed m \<and> Migrate apply_sql (su_dirs su (cp_migrationsDir cfg)) c = (Inl m, c') \<and> d' = d)
         \<or> (Migrate apply_sql (su_dirs su (cp_migrationsDir cfg)) c = (Inr (), c')
            \<and> (bootstrapAdmin getenv pg_now d = (Inl e, d')
               \<or> (bootstrapAdmin getenv pg_now d = (Inr (), d') \<and> e = DashboardMissing)))))"
  using assms by (auto simp: start_def open_dashboard_def split: sum.splits if_splits prod.splits option.splits)

text \<open>After the first start the administrator's password opens a session.\<close>

lemma first_login:
  assumes ok: "db_ok d" and empty: "users d = []" and served: "faults d' = []"
    and run: "start getenv su apply_sql pg_now (c, d) = (Inr (cfg, srv), c', d')"
    and req: "login_request rq = Some req" "lr_Email req = getenv ''RVTX_BOOTSTRAP_ADMIN_EMAIL''"
    and pw: "getenv ''RVTX_DASHBOARD_PASSWORD_HASH'' \<noteq> []" "e_compare e (getenv ''RVTX_DASHBOARD_PASSWORD_HASH'') (lr_Password req)"
  shows "fst (loginHandler e rq d') = (respond 200 NoBody)\<lparr>rs_cookie :=
    Some (NewSessionCookie (e_mac e) (e_now e) (e_secret e) (lr_Email req) RoleAdmin)\<rparr>"
proof -
  note boot = start_cases(3) [OF run]
  obtain u where u: "users d' = [u]" "user_email u = lr_Email req"
    "user_password_hash u = Some (getenv ''RVTX_DASHBOARD_PASSWORD_HASH'')" "user_role u = RoleAdmin"
    using bootstrap_first [OF boot empty] req(2) by auto
  have "db_ok d'" using ok boot by (rule bootstrap_ok)
  from login_known [OF this served req(1), of u e] u pw show ?thesis by (simp add: VerifyPassword_def)
qed

end
