(* ===== verification/Lifetimes.thy ===== *)
theory Lifetimes
  imports Startup System
begin

text \<open>
  The control plane across the processes that run it. A process is started by \<open>main\<close>, serves
  its connections and requests, and may end at any step; the database and the directory of
  applied migrations outlive it, its map of connections and its goroutines do not. What any
  process told an agent binds the later ones.
\<close>

section \<open>Processes, one after the other\<close>

datatype 's plant =
    Down "'s catalog \<times> db" "(string \<times> string) list"
  | Up "'s catalog" world

text \<open>The answers given so far, by this process and by those before it.\<close>

fun plant_told :: "'s plant \<Rightarrow> (string \<times> string) list" where
  "plant_told (Down st told) = told"
| "plant_told (Up c w) = w_told w"

fun plant_db :: "'s plant \<Rightarrow> db" where
  "plant_db (Down st told) = snd st"
| "plant_db (Up c w) = w_db w"

definition launched :: "Server \<Rightarrow> (string \<times> string) list \<Rightarrow> world" where
  "launched srv told = \<lparr>w_srv = srv, w_pc = (\<lambda>_. Ready), w_key = (\<lambda>_. []), w_told = told\<rparr>"

text \<open>Environment and surroundings may differ from one start to the next, the network may not.\<close>

inductive life :: "string \<Rightarrow> (string \<Rightarrow> 's \<Rightarrow> 's option) \<Rightarrow> 's plant \<Rightarrow> 's plant \<Rightarrow> bool" for cidr apply_sql where
  starts: "getenv ''RVTX_MESH_CIDR'' = cidr \<Longrightarrow> start getenv su apply_sql now st = (Inr (cfg, srv), c, d) \<Longrightarrow>
    life cidr apply_sql (Down st told) (Up c (launched srv told))"
| exits: "getenv ''RVTX_MESH_CIDR'' = cidr \<Longrightarrow> start getenv su apply_sql now st = (Inl e, st') \<Longrightarrow>
    life cidr apply_sql (Down st told) (Down st' told)"
| runs: "ws_step alive host w w' \<Longrightarrow> life cidr apply_sql (Up c w) (Up c w')"
| ends: "life cidr apply_sql (Up c w) (Down (c, w_db w) (w_told w))"

section \<open>What every process keeps\<close>

lemma start_db:
  assumes "start getenv su apply_sql now (c, d) = (r, c', d')"
  shows "d' = d \<or> (\<exists>q. bootstrapAdmin getenv now d = (q, d'))"
  using assms by (auto simp: start_def split: sum.splits prod.splits)

lemma start_keeps:
  assumes "start getenv su apply_sql now (c, d) = (r, c', d')"
  shows "names_ips d' = names_ips d" "mesh_db cidr d \<Longrightarrow> mesh_db cidr d'"
proof -
  have same: "nodes d' = nodes d" "resources d' = resources d" "resource_targets d' = resource_targets d"
    and ok: "db_ok d \<Longrightarrow> db_ok d'"
    using start_db [OF assms] bootstrap_keeps bootstrap_ok by blast+
  show names: "names_ips d' = names_ips d" by (simp add: names_ips_def same(1))
  show "mesh_db cidr d'" if "mesh_db cidr d"
    using that ok store_ok_nodes [OF same(2,3)] by (simp add: mesh_db_def names)
qed

fun plant_ok :: "string \<Rightarrow> 's plant \<Rightarrow> bool" where
  "plant_ok cidr (Down st told) \<longleftrightarrow> mesh_db cidr (snd st) \<and> set told \<subseteq> names_ips (snd st)"
| "plant_ok cidr (Up c w) \<longleftrightarrow> sys_inv cidr w"

lemma life_ok:
  assumes "life cidr apply_sql p p'" "plant_ok cidr p"
  shows "plant_ok cidr p'"
  using assms
proof cases
  case (starts getenv su now st cfg srv c d told)
  obtain c0 d0 where st: "st = (c0, d0)" by (cases st)
  note run = starts(4) [unfolded st]
  have srv: "srv = new_server d cidr"
    using start_cases(4) [OF run] settings_cidr [OF start_cases(1) [OF run]] starts(3) by simp
  have "mesh_db cidr d" "set told \<subseteq> names_ips d"
    using start_keeps [OF run] assms(2) by (simp_all add: starts(1) st)
  then show ?thesis unfolding starts(2) plant_ok.simps by (intro started_inv) (simp_all add: launched_def srv)
next
  case (exits getenv su now st e st' told)
  obtain c0 d0 c' d' where st: "st = (c0, d0)" "st' = (c', d')" by (cases st, cases st')
  show ?thesis using start_keeps [OF exits(4) [unfolded st]] assms(2) by (simp add: exits(1,2) st)
next
  case (runs alive host w w' c)
  then show ?thesis using assms(2) by (simp add: step_inv)
next
  case (ends c w)
  then show ?thesis using assms(2) sys_inv_mesh sys_inv_sel(4) by simp
qed

lemma lives_ok:
  assumes "(life cidr apply_sql)\<^sup>*\<^sup>* (Down (c, d) []) p" "mesh_db cidr d"
  shows "plant_ok cidr p"
  using assms by (induction rule: rtranclp_induct) (auto intro: life_ok)

lemma plant_ok_mesh:
  assumes "plant_ok cidr p"
  shows "mesh_db cidr (plant_db p)" "set (plant_told p) \<subseteq> names_ips (plant_db p)" "p = Up c w \<Longrightarrow> conns_ok (w_srv w)"
  using assms sys_inv_mesh sys_inv_sel(1,4) by (cases p; auto)+

lemma plant_ok_told:
  assumes "plant_ok cidr p" "(n, ip) \<in> set (plant_told p)" "(n', ip') \<in> set (plant_told p)"
  shows "(n = n' \<longleftrightarrow> ip = ip') \<and> mesh_host cidr ip"
  using plant_ok_mesh(1,2) [OF assms(1)] assms(2,3) names_ips_unique [of "plant_db p" n ip n' ip']
  by (auto simp: mesh_db_def db_ok_def)

text \<open>A run of one process, as the other theorems state it.\<close>

lemma steps_lives:
  assumes "(ws_step alive host)\<^sup>*\<^sup>* w w'"
  shows "(life cidr apply_sql)\<^sup>*\<^sup>* (Up c w) (Up c w')"
  using assms by (induction rule: rtranclp_induct) (auto intro: rtranclp.rtrancl_into_rtrancl life.runs)

end
