(* ===== verification/LifeSamples.thy ===== *)
theory LifeSamples
  imports Lifetimes Samples
begin

text \<open>
  A directory of migrations, an environment and a disk on which the start of the control
  plane is applied, and a life of two processes: the first one registers a node and ends,
  the second one starts on the database it left.
\<close>

definition sample_dir :: migrations where
  "sample_dir = \<lparr>dir_entries = Some [(''2.sql'', False), (''1.sql'', False), (''x.md'', False)],
     dir_read = (\<lambda>n. Some n)\<rparr>"

definition sample_apply :: "string \<Rightarrow> string \<Rightarrow> string option" where
  "sample_apply contents s = Some (s @ contents)"

definition sample_catalog :: "string catalog" where
  "sample_catalog = \<lparr>cat_applied = [], cat_schema = [],
     cat_faults = [False, False, False, False, False, False, False, False, True]\<rparr>"

definition served_catalog :: "string catalog" where
  "served_catalog = sample_catalog\<lparr>cat_faults := []\<rparr>"

definition sample_getenv :: "string \<Rightarrow> string" where
  "sample_getenv k = (if k = ''RVTX_BOOTSTRAP_ADMIN_EMAIL'' then ''root@example.org''
     else if k = ''RVTX_DASHBOARD_PASSWORD_HASH'' then ''correct horse''
     else if k = ''RVTX_MESH_CIDR'' then ''10.0.0.0/29'' else ''x'')"

definition sample_surroundings :: surroundings where
  "sample_surroundings = \<lparr>su_pool = (\<lambda>_. True), su_ping = (\<lambda>_. True), su_dirs = (\<lambda>_. sample_dir), su_index = Some ''<html>''\<rparr>"

lemma start_again:
  assumes "read_settings getenv = Inr cfg" "Connect su (cp_dsn cfg) = Inr ()"
    and "fst (Migrate apply_sql (su_dirs su (cp_migrationsDir cfg)) c) = Inr ()" "su_index su = Some html"
    and "users d \<noteq> []" "faults d = []"
  shows "\<exists>c1. start getenv su apply_sql now (c, d) = (Inr (cfg, new_server d (cp_meshCIDR cfg)), c1, d)"
proof -
  obtain c1 where m: "Migrate apply_sql (su_dirs su (cp_migrationsDir cfg)) c = (Inr (), c1)"
    using assms(3) by (metis prod.collapse)
  have "bootstrapAdmin getenv now d = (Inr (), d)"
    using assms(5,6) by (simp add: bootstrapAdmin_def CountUsers_def run_statement_served)
  then show ?thesis using assms(1,2,4) m by (simp add: start_def open_dashboard_def)
qed

lemma sample_lives:
  "\<exists>c w. (life ''10.0.0.0/29'' sample_apply)\<^sup>*\<^sup>* (Down (served_catalog, empty_db) []) (Up c w)
    \<and> w_pc w = (\<lambda>_. Ready) \<and> w_told w = [(''a'', ''10.0.0.1'')]"
proof -
  let ?cidr = "''10.0.0.0/29''" and ?run = "start sample_getenv sample_surroundings sample_apply 0 (served_catalog, empty_db)"
  have cidr: "sample_getenv ''RVTX_MESH_CIDR'' = ?cidr" by code_simp
  obtain r c1 d1 where eq: "?run = (r, c1, d1)" by (metis prod.collapse)
  have "\<not> isl (fst ?run)" "faults (snd (snd ?run)) = []" "nodes (snd (snd ?run)) = []" "users (snd (snd ?run)) \<noteq> []"
    "fst (Migrate sample_apply sample_dir (fst (snd ?run))) = Inr ()" by code_simp+
  then have ok: "\<not> isl r" and d1: "faults d1 = []" "nodes d1 = []" "users d1 \<noteq> []"
    and again: "fst (Migrate sample_apply sample_dir c1) = Inr ()"
    by (simp_all only: eq fst_conv snd_conv not_False_eq_True)
  obtain cfg srv where r: "r = Inr (cfg, srv)" using ok by (cases r) auto
  note run = eq [unfolded r]
  have cfg: "read_settings sample_getenv = Inr cfg" by (rule start_cases(1) [OF run])
  then have srv: "srv = new_server d1 ?cidr" "cp_meshCIDR cfg = ?cidr"
    using start_cases(4) [OF run] settings_cidr cidr by simp_all
  have w: "w_pc (launched srv []) 0 = Ready" "srv_cidr (w_srv (launched srv [])) = ?cidr" "w_db (launched srv []) = d1"
    unfolding w_db_def by (simp_all add: launched_def srv(1) new_server_def)
  obtain w1 where w1: "(ws_step all_alive one_host)\<^sup>*\<^sup>* (launched srv []) w1" "w_told w1 = [(''a'', ''10.0.0.1'')]"
    "faults (w_db w1) = []" "users (w_db w1) = users d1"
    using first_told_address [OF w d1(1,2)] by (auto simp: launched_def)
  have users: "users (w_db w1) \<noteq> []" unfolding w1(4) by (rule d1(3))
  have conn: "Connect sample_surroundings (cp_dsn cfg) = Inr ()" by (simp add: Connect_def sample_surroundings_def)
  have dir: "su_dirs sample_surroundings (cp_migrationsDir cfg) = sample_dir"
    and html: "su_index sample_surroundings = Some ''<html>''" by (simp_all add: sample_surroundings_def)
  obtain c2 where run2: "start sample_getenv sample_surroundings sample_apply 0 (c1, w_db w1)
      = (Inr (cfg, new_server (w_db w1) (cp_meshCIDR cfg)), c2, w_db w1)"
    using start_again [OF cfg conn again [folded dir] html users w1(3)] by blast
  let ?life = "life ?cidr sample_apply"
  have "?life (Down (served_catalog, empty_db) []) (Up c1 (launched srv []))" using cidr run by (rule life.starts)
  then have "?life\<^sup>*\<^sup>* (Down (served_catalog, empty_db) []) (Up c1 w1)"
    using steps_lives [OF w1(1)] by (rule converse_rtranclp_into_rtranclp)
  then have "?life\<^sup>*\<^sup>* (Down (served_catalog, empty_db) []) (Down (c1, w_db w1) (w_told w1))"
    using life.ends by (rule rtranclp.rtrancl_into_rtrancl)
  then have "?life\<^sup>*\<^sup>* (Down (served_catalog, empty_db) []) (Up c2 (launched (new_server (w_db w1) (cp_meshCIDR cfg)) (w_told w1)))"
    using life.starts [OF cidr run2] by (rule rtranclp.rtrancl_into_rtrancl)
  then show ?thesis by (intro exI conjI) (assumption | simp add: launched_def w1(2))+
qed

end
