(* ===== verification/Spec2Isabelle.thy ===== *)
theory Spec2Isabelle
  imports ApiProperties ConfigProperties AgentProperties Failover Conversation Races Registration LifeSamples
begin

text \<open>
  rv-tx joins machines into a WireGuard mesh and publishes services through Traefik. It has
  two programs. The control plane (cmd/controlplane) keeps nodes, resources and accounts in
  Postgres, gives every node an address, tells every connected agent its peers over a
  WebSocket, serves Traefik's dynamic configuration and a dashboard API. The agent
  (cmd/agent) registers, configures a WireGuard interface with \<open>wg\<close> and \<open>ip\<close>, and keeps
  the connection alive.

  \<^bold>\<open>Theories, in the order of the code's layers.\<close>
  \<^item> Prelude: the collections of rewrite rules and the lemmas on lists, options and lookups
    that the components share. GoStrings, IPNet, Json, JsonText, Base64: what the program
    uses of Go's standard library (strings, strconv, net on IPv4 addresses as byte lists,
    encoding/json on values and on text, base64).
  \<^item> Protocol (internal/protocol): message types, payloads, their encoding and decoding.
  \<^item> Database: the rows of migrations/*.sql, the constraints \<open>db_ok\<close>, statements and
    transactions that a script of faults may refuse. NodesDb (db/db.go), ResourcesDb and
    ResourcesList (db/resources.go), UsersDb (db/users.go): one definition per statement
    and one per Go function. The locale \<open>db_operation\<close> holds what every statement
    promises (constraints kept, tables unchanged on an error), \<open>db_transaction\<close> the
    same for a transaction, \<open>token_redeem\<close> that a token works once; each is interpreted
    on every statement, transaction and token flow of the program.
  \<^item> Mesh (mesh/mesh.go): \<open>AllocateIP\<close> with the carry of \<open>incIP\<close>, equal to the least free
    host address of the CIDR (\<open>least_free\<close>); \<open>PeerListFor\<close>. Locale \<open>address_allocator\<close>
    is the interface that the registration relies on.
  \<^item> TraefikConfig (traefikconfig/traefikconfig.go): \<open>Generate\<close> and its helpers; locale
    \<open>keyed_section\<close> is what each map of the configuration promises, interpreted on all six.
    HostPatterns reads the patterns of \<open>hostRule\<close> as the regular expressions they are.
  \<^item> Auth (auth/auth.go), Mail (mail/mail.go): cookies, tokens, the dialogue with the relay.
  \<^item> HttpApi (the handlers and routes of cmd/controlplane/main.go: \<open>api_handler\<close> is the handler of
    a route of the API, \<open>dispatch\<close> and \<open>serve\<close> run it, or \<open>HandleWS\<close> on the agents' WebSocket, on
    the whole server), ApiBodies (the JSON of
    the response bodies, read back from their text), Accounts (who can take an account or
    its role away). Routes has the patterns \<open>main\<close> registers as they are written and the rule
    of \<open>http.ServeMux\<close>: no two conflict, and \<open>mux\<close> is what the rule makes of them.
    MeshBounds bounds the rounds of the allocation loop.
  \<^item> WsServer (wsserver/wsserver.go): the handler of one connection and the broadcast.
  \<^item> Migrate (db/migrate.go) and Startup (main up to the routes, with \<open>Connect\<close> of db/db.go
    and the part of \<open>spaHandler\<close> that runs once): the start of the process and its fatal exits.
    Lifetimes chains processes: \<open>life\<close> starts one, runs it with \<open>ws_step\<close>, ends it anywhere
    and starts the next on the database it left; LifeSamples is a life of two processes.
  \<^item> ResourceStore: the abstract store, a map from resource names to their arguments and
    targets, and the refinement of the three write operations to it; StoreServed says exactly
    when they succeed. AccountMap does both for the users table and its seven operations, and AccountFlows
    follows an invite and a reset from their request to the login.
  \<^item> System: the control plane as a whole. \<open>ws_step\<close> interleaves the registrations of any
    number of connections, statement by statement, with heartbeats, API requests and
    disconnects (a request of the API is one step: no handler issues more than one statement
    or transaction); \<open>reachable\<close> collects its states, \<open>sys_inv\<close> is the inductive invariant,
    and Conversation shows that the sequential \<open>HandleWS\<close> is one of its runs. WireTypes: what
    is ever written to an agent decodes there; Registration: when a registration is refused;
    Races: runs in which two registrations overlap.
    Failover follows one resource from a heartbeat through the tables to the configuration.
  \<^item> WgManager (agent/wgmanager), WsClient (agent/wsclient), AgentMain (cmd/agent).
    WgContract and WgInterface state what \<open>wg\<close> and \<open>ip\<close> do to an abstract interface
    (\<open>link\<close>: addresses, peers, routes) and refine \<open>Reconcile\<close> and \<open>EnsureInterface\<close>
    to it. An entry of a list that \<open>wg\<close> takes as it stands is a \<open>good_peer\<close>, one it refuses as a
    whole is \<open>refused\<close>, and \<open>holds_list\<close> is what an interface has of a list that may hold both. AgentSystem joins the two programs, and AgentSession follows one session of an
    agent against whatever the server wrote to it; AgentSamples is a simulated host that
    satisfies every law those contracts ask for.
  \<^item> Samples, ApiProperties, ConfigProperties, AgentProperties and this theory: the
    properties C1 to C40, each with an application to a concrete state.

  \<^bold>\<open>Outside the code, as parameters.\<close> HMAC and bcrypt (\<open>e_mac\<close>, \<open>e_generate\<close>,
  \<open>e_compare\<close>), the entropy source, the clocks of the process and of Postgres, the answers
  of the mail relay (\<open>e_relay\<close>), the embedded files (\<open>e_dist\<close>), what a start finds (the pool
  and its ping, the directories, index.html: \<open>surroundings\<close>), the environment, the file
  system of the agent (\<open>files\<close>), the commands \<open>wg\<close> and \<open>ip\<close> (\<open>exec\<close>), the effect of a
  migration's SQL, the liveness of a connection (\<open>alive\<close>). Where a theorem needs something
  of them it is a hypothesis: that bcrypt accepts the password it hashed, that \<open>wg\<close> and \<open>ip\<close>
  behave as documented (\<open>wg_contract\<close>, \<open>ip_contract\<close>), that \<open>wg\<close> takes or refuses each entry
  of a list (the server passes on keys, endpoints and subnets without looking at them), that
  a cookie's MAC is the only text with that MAC. \<open>alive\<close> is fixed for a run.

  \<^bold>\<open>Errors, failure and termination.\<close> Every Go error is a value of a sum or an option, one
  constructor per source of the error; the text of an error is kept only where the code
  looks at it. A database statement fails when the script \<open>faults\<close> says so or when it
  violates a constraint, and a failed commit counts as not committed. The database is in order, in
  the words of a property, when its constraints hold and the script has no fault left. Every function is
  total: \<open>alloc_loop\<close> ends by the distance to the broadcast address, loops over messages
  and files end with their lists. \<open>Run\<close> of the client and the loop of \<open>HandleWS\<close>, which do
  not end by themselves, take the list of sessions and of messages, so a statement for all
  lists covers every prefix of an endless run. Only the reader of JSON text has fuel: it starts with
  the length of the text, and more makes no difference (\<open>JsonText.value_of_enough\<close>).

  \<^bold>\<open>Machine integers.\<close> Address bytes are \<open>8 word\<close>; a port must fit Postgres' int4; \<open>Atoi\<close>
  and JSON integers are int64; a \<open>time.Duration\<close> wraps at 64 bits (\<open>seconds\<close>). Times are
  integers of nanoseconds, and timestamptz keeps microseconds.

  \<^bold>\<open>Bounds of the model.\<close> Addresses are IPv4. Texts are valid UTF-8 without NUL, U+2028 and
  U+2029; white space and case folding are those of ASCII; a JSON number with a fraction is
  not read as an integer. Rows keep the order of insertion, ORDER BY sorts by bytes and is
  stable, a uuid is a counter. Go visits a map in an unspecified order; the model visits a
  list, and the theorems about such loops do not depend on its order (\<open>Reconcile\<close>, the
  broadcast). The route table works on clean, decoded path segments. One \<open>Generate\<close> uses
  one instant for all targets. The heartbeat goroutine is the number of its ticks in a
  session; a ticker that panics ends the agent.

  \<^bold>\<open>Not modelled.\<close> \<open>db.Close\<close> (it is deferred in a \<open>main\<close> that only ends in
  \<open>log.Fatalf\<close>, so it never runs), \<open>http.ListenAndServe\<close>, the WebSocket
  handshake and framing, TLS and DNS, log output, the header fields of a response other than
  the cookie, the SQL text of the migrations beyond the tables it leaves, the embed
  directive of dashboard/embed.go and the frontend. These are libraries, input and output,
  or another language.

  \<^bold>\<open>What modelling showed.\<close> A full mesh refuses the registration of nodes that already have
  an address (C40). When an old connection ends after its agent has reconnected, the new
  connection leaves the broadcast map (\<open>System.close_removes_newer\<close>), and so does the
  connection of a node whose key another connection named in a refused registration
  (\<open>Conversation.named_key_removed\<close>); a connection that registers twice leaves its first key
  behind (\<open>Conversation.earlier_key_stays\<close>). When two registrations overlap, the last list an
  agent gets may lack the newer node (\<open>Races.stale_list_last\<close>) until the next heartbeat (C36),
  and a reply may be written while a broadcast writes to the same connection
  (\<open>Races.reply_races\<close>). \<open>hasAddress\<close> takes
  110.0.0.1/32 for 10.0.0.1/32 (\<open>WgInterface.address_mistaken\<close>). \<open>Reconcile\<close> leaves the route
  of a subnet that a peer no longer advertises (\<open>WgContract.relay_route_stays\<close>), and stops at
  the first entry of a list that \<open>wg\<close> refuses, so one node that registered with such a key or
  subnet keeps every agent from the nodes listed after it (\<open>AgentSession.refused_peer_ends\<close>, C31). A key file
  that cannot be read is overwritten by a new identity (\<open>AgentMain.unreadable_replaced\<close>).
  An empty node table is sent to the dashboard as null (C18). The back-off of the agent is
  never reset (C34). Invites work for accounts that have a
  password already (\<open>UsersDb.accept_ignores_password\<close>).
\<close>

section \<open>The mesh\<close>

text \<open>
  C1. Over any number of processes of the control plane, each ended at any point and followed
  by a start on what it left, whatever the interleaving of registrations, heartbeats,
  disconnects and API requests in each: two \<open>registered\<close> answers name the same address
  exactly when they went to the same node name, and the address is a host address of the mesh.
\<close>

theorem told_addresses:
  assumes "mesh_db cidr d" "(life cidr apply_sql)\<^sup>*\<^sup>* (Down (c, d) []) p"
    and "(n, ip) \<in> set (plant_told p)" "(n', ip') \<in> set (plant_told p)"
  shows "(n = n' \<longleftrightarrow> ip = ip') \<and> mesh_host cidr ip"
  by (rule plant_ok_told [OF lives_ok [OF assms(2,1)] assms(3,4)])

theorem told_addresses_witness:
  "\<exists>c w. (life ''10.0.0.0/29'' sample_apply)\<^sup>*\<^sup>* (Down (served_catalog, empty_db) []) (Up c w)
    \<and> w_pc w = (\<lambda>_. Ready) \<and> (''a'', ''10.0.0.1'') \<in> set (w_told w) \<and> mesh_host ''10.0.0.0/29'' ''10.0.0.1''"
proof -
  obtain c w where w: "(life ''10.0.0.0/29'' sample_apply)\<^sup>*\<^sup>* (Down (served_catalog, empty_db) []) (Up c w)"
    "w_pc w = (\<lambda>_. Ready)" "w_told w = [(''a'', ''10.0.0.1'')]" using sample_lives by blast
  have told: "(''a'', ''10.0.0.1'') \<in> set (plant_told (Up c w))" by (simp add: w(3))
  have "mesh_host ''10.0.0.0/29'' ''10.0.0.1''" using told_addresses [OF mesh_empty_db w(1) told told] by (rule conjunct2)
  with w told show ?thesis by (intro exI [of _ c] exI [of _ w]) simp
qed

text \<open>
  C2. After any history of processes and of steps within them the schema's constraints hold,
  every resource has the targets its protocol needs, every node has a host address of the
  mesh, and the connection map of the running process has one entry per key.
\<close>

theorem reachable_ok:
  assumes "mesh_db cidr d" "(life cidr apply_sql)\<^sup>*\<^sup>* (Down (c, d) []) p"
  shows "db_ok (plant_db p) \<and> store_ok (plant_db p) \<and> (\<forall>n \<in> set (nodes (plant_db p)). mesh_host cidr (node_MeshIP n))
    \<and> (case p of Up c' w \<Rightarrow> conns_ok (w_srv w) | Down st told \<Rightarrow> True)"
  using plant_ok_mesh [OF lives_ok [OF assms(2,1)]] by (auto simp: mesh_db_def names_ips_def split: plant.splits)

theorem reachable_ok_witness:
  "\<exists>c w. (life ''10.0.0.0/29'' sample_apply)\<^sup>*\<^sup>* (Down (served_catalog, empty_db) []) (Up c w)
    \<and> w_told w \<noteq> [] \<and> db_ok (w_db w) \<and> conns_ok (w_srv w)"
proof -
  obtain c w where w: "(life ''10.0.0.0/29'' sample_apply)\<^sup>*\<^sup>* (Down (served_catalog, empty_db) []) (Up c w)"
    "w_told w = [(''a'', ''10.0.0.1'')]" using sample_lives by blast
  show ?thesis using reachable_ok [OF mesh_empty_db w(1)] w by (intro exI [of _ c] exI [of _ w]) simp
qed

text \<open>
  C3. The step relation has the behaviour of the code's connection handler: a whole
  conversation that nothing interrupts (any messages, decodable or not, whatever their
  handlers return, and the end of the connection) is a run of steps of its connection that
  ends in the server state \<open>HandleWS\<close> returns, and after it the connection takes no step.
\<close>

theorem conversation_simulated:
  assumes "w_pc w c = Ready" "w_key w c = []"
  shows "\<exists>w'. (ws_step alive (remote_host \<circ> addr))\<^sup>*\<^sup>* w w' \<and> w_srv w' = HandleWS alive (Some c) (addr c) msgs (w_srv w)
    \<and> w_pc w' = (w_pc w)(c := Closed)
    \<and> (\<forall>w''. (ws_step alive (remote_host \<circ> addr))\<^sup>*\<^sup>* w' w'' \<longrightarrow> w_pc w'' c = Closed \<and> w_key w'' c = w_key w' c)"
proof -
  obtain w' where w': "(ws_step alive (remote_host \<circ> addr))\<^sup>*\<^sup>* w w'"
    "w_srv w' = HandleWS alive (Some c) (addr c) msgs (w_srv w)"
    "w_pc w' = (w_pc w)(c := Closed)"
    using conversation_is_run [OF assms] by blast
  then have "w_pc w' c = Closed" by simp
  from closed_forever [OF _ this] have "\<forall>w''. (ws_step alive (remote_host \<circ> addr))\<^sup>*\<^sup>* w' w'' \<longrightarrow> w_pc w'' c = Closed \<and> w_key w'' c = w_key w' c"
    by blast
  with w' show ?thesis by blast
qed

theorem conversation_simulated_witness:
  "\<exists>w'. (ws_step all_alive (remote_host \<circ> (\<lambda>_. ''192.0.2.7:51000'')))\<^sup>*\<^sup>* sample_start w' \<and> w_pc w' 0 = Closed
    \<and> w_srv w' = HandleWS all_alive (Some 0) ''192.0.2.7:51000''
        [(5, \<lparr>env_Type = TypeRegister, env_Payload = enc_register (sample_register ''a'' ''ka'')\<rparr>)] (w_srv sample_start)"
proof -
  have "w_pc sample_start 0 = Ready" "w_key sample_start 0 = []" by (simp_all add: sample_start_def start_world_def)
  note run = conversation_simulated [OF this, where alive = all_alive and addr = "\<lambda>_. ''192.0.2.7:51000''"
    and msgs = "[(5, \<lparr>env_Type = TypeRegister, env_Payload = enc_register (sample_register ''a'' ''ka'')\<rparr>)]"]
  show ?thesis using run by (elim ex_forward conjE, intro conjI) (assumption | simp only: fun_upd_same)+
qed

text \<open>
  C22. The protocol is type-safe: in every reachable state, every message that was written
  is of one of the two types the agent switches on, its payload decodes into the struct of
  that type, the addresses in it are hosts of the mesh, no key and no address is listed
  twice, and so the agent acts on it.
\<close>

theorem wire_typed:
  assumes "mesh_db cidr d" "reachable alive host d cidr w" "(c, e) \<in> set (srv_out (w_srv w))"
  shows "case agent_reads e of
      None \<Rightarrow> False
    | Some (Registered p) \<Rightarrow> mesh_host cidr (rgd_MeshIP p) \<and> peers_fit cidr (rgd_Peers p)
        \<and> handle_envelope exec pause cl e k = snd (applyPeerList exec pause cl (rgd_MeshIP p) (rgd_Peers p) k)
    | Some (PeerList p) \<Rightarrow> peers_fit cidr (pl_Peers p)
        \<and> handle_envelope exec pause cl e k = snd (Reconcile exec (cl_WG cl) (pl_Peers p) k)"
proof -
  have "well_typed cidr e" using reachable_typed [OF assms(1,2)] assms(3) by (auto simp: typed_inv_def)
  then show ?thesis
    by (auto simp: well_typed_def agent_reads_def handle_envelope_def message_types
        split: option.splits typed_message.splits if_splits)
qed

theorem wire_typed_witness:
  "\<exists>w e p. reachable all_alive one_host empty_db ''10.0.0.0/29'' w \<and> (0, e) \<in> set (srv_out (w_srv w))
    \<and> agent_reads e = Some (Registered p) \<and> rgd_MeshIP p = ''10.0.0.1'' \<and> mesh_host ''10.0.0.0/29'' (rgd_MeshIP p)"
proof -
  obtain w where reached: "reachable all_alive one_host empty_db ''10.0.0.0/29'' w" "w_srv w = second_server"
    using sample_reached by blast
  let ?e = "registered_msg ''10.0.0.1'' ''ka'' [first_node]"
  have out: "(0, ?e) \<in> set (srv_out (w_srv w))" by (simp add: reached(2) second_server_def first_server_def)
  have reads: "agent_reads ?e = Some (Registered \<lparr>rgd_MeshIP = ''10.0.0.1'', rgd_Peers = PeerListFor ''ka'' [first_node]\<rparr>)"
    using registered_decoded by (simp add: agent_reads_def) (simp add: registered_msg_def)
  have "mesh_host ''10.0.0.0/29'' ''10.0.0.1''"
    by (rule wire_typed [OF mesh_empty_db reached(1) out, where exec = "\<lambda>_ _ k. ((True, []), k)", unfolded reads,
        simplified, THEN conjunct1])
  with reached(1) out reads show ?thesis by (intro exI conjI) (assumption | simp)+
qed

text \<open>
  C7. A session of an agent that dials and registers and then only sends heartbeats, against
  what the control plane wrote to its connection up to any point of any run, when that is
  the answer and then any number of peer lists (an agent that registers once gets no second
  answer), and \<open>wg\<close> takes each listed entry as it stands or refuses it as a whole. Whatever
  is refused, the session sends just these messages, and its new interface is up with its
  key, has the host address of the mesh it was told, and holds the last list
  (\<open>WgContract.holds_list\<close>): no other peer, and each entry before the first refused one with
  its allowed addresses. If nothing in the last list is refused and nobody in it relays a
  subnet, the peers are exactly the entries, each with just its mesh address.
\<close>

theorem session_follows:
  assumes "wg_contract i A exec view" "ip_contract i ok_private public_of exec pause view"
    and "m_Interface (cl_WG cl) = i" "ok_private (cl_PrivateKey cl)" "0 \<le> cl_ListenPort cl" "cl_ListenPort cl < 2 ^ 16"
    and "0 < cl_HeartbeatInterval cl" "\<not> lk_exists (view k)"
    and "mesh_db cidr d" "reachable alive host d cidr w" "received c w = (e # es) @ later"
    and "agent_reads e = Some (Registered p)" "\<forall>x \<in> set es. \<exists>q. agent_reads x = Some (PeerList q)"
    and "\<forall>x \<in> set (e # es). \<forall>q \<in> set (peers_in x). good_peer A q \<or> refused i exec view q"
    and "ss_dial s" "ss_write s" "ss_read s = e # es"
  shows "\<exists>k'. connectOnce exec pause cl s k = Some (register_msg cl # heartbeats (ss_ticks s), k')
    \<and> lk_up (view k') \<and> lk_key (view k') = Some (cl_PrivateKey cl)
    \<and> lk_addrs (view k') = {rgd_MeshIP p @ ''/32''} \<and> mesh_host cidr (rgd_MeshIP p)
    \<and> holds_list A (peers_in (last (e # es))) (view k')
    \<and> ((\<forall>q \<in> set (peers_in (last (e # es))). good_peer A q \<and> peer_AdvertisedSubnets q = []) \<longrightarrow>
        (\<forall>key ips. map_option fst (lk_peers (view k') key) = Some ips \<longleftrightarrow>
          (\<exists>q \<in> set (peers_in (last (e # es))). peer_PublicKey q = key \<and> ips = {peer_MeshIP q @ ''/32''})))"
proof -
  let ?l = "view (fold (handle_envelope exec pause cl) (e # es) k)" and ?ps = "peers_in (last (e # es))"
  have typed: "typed_inv cidr w" using reachable_typed [OF assms(9,10)] .
  have got: "x \<in> set (received c w)" if "x \<in> set (e # es)" for x using that by (auto simp: assms(11))
  have host: "mesh_host cidr (rgd_MeshIP p)" using received_fits(1) [OF typed got, of e] assms(12) by simp
  have fit: "peers_fit cidr ?ps" by (rule received_fits(2) [OF typed got]) (rule last_in_set, simp)
  have entries: "\<forall>x \<in> set (e # es). \<forall>q \<in> set (peers_in x). answered i A exec view q"
    using assms(14) by (simp add: answered_def)
  note applied = session_applied [OF assms(1-6,8,12) mesh_host_text [OF host] assms(13) entries]
  obtain l0 where "?l = followed A ?ps l0" using applied(4) by blast
  then have held: "holds_list A ?ps ?l" using followed_holds fit by (simp only: peers_fit_def)
  have exact: "map_option fst (lk_peers ?l key) = Some ips \<longleftrightarrow> (\<exists>q \<in> set ?ps. peer_PublicKey q = key \<and> ips = {peer_MeshIP q @ ''/32''})"
    if "\<forall>q \<in> set ?ps. good_peer A q \<and> peer_AdvertisedSubnets q = []" for key ips
    using that plain_peers_disjoint [OF fit] by (intro holds_plain [OF held]) blast+
  show ?thesis using assms(7,15-17) host applied(1-3) held exact
    by (intro exI [of _ "fold (handle_envelope exec pause cl) (e # es) k"]) (simp add: connectOnce_def heartbeatLoop_def)
qed

text \<open>The connection of the first of two nodes: the answer, the empty list, the list with the second node.\<close>

theorem session_follows_witness:
  "\<exists>w k'. reachable all_alive one_host empty_db ''10.0.0.0/29'' w
    \<and> connectOnce host_exec host_pause sample_client
        \<lparr>ss_dial = True, ss_write = True, ss_read = received 0 w, ss_ticks = [True, False]\<rparr> empty_host
      = Some ([register_msg sample_client, heartbeat_msg], k')
    \<and> lk_addrs (host_view k') = {''10.0.0.1/32''}
    \<and> map_option fst (lk_peers (host_view k') ''kb'') = Some {''10.0.0.2/32''}"
proof -
  obtain w where reached: "reachable all_alive one_host empty_db ''10.0.0.0/29'' w" "w_srv w = second_server"
    using sample_reached by blast
  let ?e = "registered_msg ''10.0.0.1'' ''ka'' [first_node]" and ?cl = sample_client
  let ?es = "[peer_list_msg ''ka'' [first_node], peer_list_msg ''ka'' [first_node, second_node]]"
  let ?p = "\<lparr>rgd_MeshIP = ''10.0.0.1'', rgd_Peers = PeerListFor ''ka'' [first_node]\<rparr>"
  have got: "received 0 w = (?e # ?es) @ []"
    by (simp add: received_def reached(2) second_server_def first_server_def)
  note reads = agent_reads_answer [of "''10.0.0.1''" "''ka''" "[first_node]"] and list = agent_reads_list
  have keys: "node_PublicKey first_node = ''ka''" "node_PublicKey second_node = ''kb''"
    by (simp_all add: first_node_def second_node_def)
  have peers: "peers_in ?e = []" "peers_in (?es ! 0) = []" "peers_in (?es ! 1) = [peer_of_node second_node]"
    by (simp_all add: peers_in_def reads list keys)
  have good: "good_peer host_args (peer_of_node second_node) \<and> peer_AdvertisedSubnets (peer_of_node second_node) = []"
    by (simp add: good_peer_def host_args_def peer_of_node_def allowed_ips_def token_def cidr_text_def is_space_def second_node_def)
  have cl: "m_Interface (cl_WG ?cl) = ''rvtx0''" "0 \<le> cl_ListenPort ?cl" "cl_ListenPort ?cl < 2 ^ 16"
    "0 < cl_HeartbeatInterval ?cl" by (simp_all add: sample_client_def second_def)
  have new: "\<not> lk_exists (host_view empty_host)" by (simp add: host_ok_def empty_host_def)
  let ?s = "\<lparr>ss_dial = True, ss_write = True, ss_read = received 0 w, ss_ticks = [True, False]\<rparr>"
  have entries: "\<forall>x \<in> set (?e # ?es). \<forall>q \<in> set (peers_in x). good_peer host_args q \<or> refused ''rvtx0'' host_exec host_view q"
    using peers good by simp
  have last: "\<forall>q \<in> set (peers_in (last (?e # ?es))). good_peer host_args q \<and> peer_AdvertisedSubnets q = []"
    using peers good by simp
  have lists: "\<forall>x \<in> set ?es. \<exists>q. agent_reads x = Some (PeerList q)" by (simp add: list)
  have ss: "ss_dial ?s" "ss_write ?s" "ss_read ?s = ?e # ?es" using got by simp_all
  obtain k' where run: "connectOnce host_exec host_pause ?cl ?s empty_host
      = Some (register_msg ?cl # heartbeats (ss_ticks ?s), k')"
    and addrs: "lk_addrs (host_view k') = {rgd_MeshIP ?p @ ''/32''}"
    and final: "(\<forall>q \<in> set (peers_in (last (?e # ?es))). good_peer host_args q \<and> peer_AdvertisedSubnets q = []) \<longrightarrow>
      (\<forall>key ips. map_option fst (lk_peers (host_view k') key) = Some ips \<longleftrightarrow>
        (\<exists>q \<in> set (peers_in (last (?e # ?es))). peer_PublicKey q = key \<and> ips = {peer_MeshIP q @ ''/32''}))"
    using session_follows [OF host_wg host_ip cl(1) TrueI cl(2-4) new mesh_empty_db reached(1) got reads lists entries ss]
    by (elim exE conjE) (rule that; assumption)
  have "map_option fst (lk_peers (host_view k') ''kb'') = Some {''10.0.0.2/32''}"
    using final [rule_format, OF last [rule_format]] peers(3) by (simp add: peer_of_node_def second_node_def)
  with reached(1) run addrs show ?thesis by (intro exI [of _ w] exI [of _ k'] conjI) simp_all
qed

text \<open>
  C4. \<open>AllocateIP\<close> returns the lowest address of the network, other than the network and
  the broadcast address, whose text is not in use, and fails exactly when all are in use.
\<close>

theorem AllocateIP_spec:
  assumes "ParseCIDR cidr = Inr net"
  shows "case AllocateIP cidr used of
      Inr s \<Rightarrow> \<exists>a. s = IP_String a \<and> net_contains net a \<and> a \<noteq> net_IP net \<and> a \<noteq> lastAddr net \<and> s \<notin> set used
        \<and> (\<forall>b. net_contains net b \<and> b \<noteq> net_IP net \<and> b \<noteq> lastAddr net \<and> ip_val b < ip_val a \<longrightarrow> IP_String b \<in> set used)
    | Inl e \<Rightarrow> \<forall>b. net_contains net b \<and> b \<noteq> net_IP net \<and> b \<noteq> lastAddr net \<longrightarrow> IP_String b \<in> set used"
proof -
  obtain k where "net4 k net" using ParseCIDR_net4 [OF assms] by blast
  note hosts = host_addrs_iff [OF this]
  note cases = AllocateIP_cases [OF assms, of used]
  show ?thesis
  proof (cases "AllocateIP cidr used")
    case (Inl e)
    then show ?thesis using cases hosts by auto
  next
    case (Inr s)
    then show ?thesis using cases hosts unfolding least_free_def host_addrs_def by simp blast
  qed
qed

theorem AllocateIP_spec_witness:
  "AllocateIP ''10.0.0.0/30'' [''10.0.0.1''] = Inr ''10.0.0.2'' \<and>
   (\<exists>net a. ParseCIDR ''10.0.0.0/30'' = Inr net \<and> IP_String a = ''10.0.0.2'' \<and> net_contains net a \<and> a \<noteq> lastAddr net)"
proof -
  have al: "AllocateIP ''10.0.0.0/30'' [''10.0.0.1''] = Inr ''10.0.0.2''" by code_simp
  have "ParseCIDR ''10.0.0.0/30'' = Inr \<lparr>net_IP = [10, 0, 0, 0], net_Mask = [255, 255, 255, 252]\<rparr>" by code_simp
  from AllocateIP_spec [OF this, of "[''10.0.0.1'']"] this al show ?thesis unfolding al by (simp only: sum.case) metis
qed

text \<open>
  C5. A registration that succeeds: the node's row carries what the agent sent, a name
  that was known keeps its address and a new one gets an allocated one, the connection is
  the one for the key, and the agent is told its address and everyone else.
\<close>

theorem register_effect:
  assumes "nodes_ok (srv_db s)" "handleRegister alive now c h p s = (Inr (), s')"
  shows "(\<exists>n \<in> set (nodes (srv_db s')). node_Name n = reg_Name p \<and> node_PublicKey n = reg_PublicKey p
      \<and> node_LastEndpoint n = Some (endpoint_of h p) \<and> node_LastSeen n = Some now
      \<and> node_AdvertisedSubnets n = reg_AdvertisedSubnets p
      \<and> (case node_named (reg_Name p) (srv_db s) of Some old \<Rightarrow> node_MeshIP n = node_MeshIP old
         | None \<Rightarrow> AllocateIP (srv_cidr s) (map node_MeshIP (nodes (srv_db s))) = Inr (node_MeshIP n))
      \<and> (c, registered_msg (node_MeshIP n) (reg_PublicKey p) (nodes (srv_db s'))) \<in> set (srv_out s'))
    \<and> conn_for s' = (conn_for s)(reg_PublicKey p \<mapsto> c)
    \<and> (\<forall>(k, x) \<in> set (srv_conns s'). alive x \<longrightarrow> (x, peer_list_msg k (nodes (srv_db s'))) \<in> set (srv_out s'))"
  using handleRegister_success [OF assms] by auto

theorem register_effect_witness:
  "\<exists>s'. handleRegister all_alive 5 7 ''h'' (sample_register ''b'' ''k2'') (new_server sample_db ''10.0.0.0/29'') = (Inr (), s')
    \<and> conn_for s' ''k2'' = Some 7
    \<and> (\<exists>n \<in> set (nodes (srv_db s')). node_Name n = ''b'' \<and> node_MeshIP n = ''10.0.0.2'' \<and> node_PublicKey n = ''k2'')"
proof -
  let ?s = "new_server sample_db ''10.0.0.0/29''" and ?p = "sample_register ''b'' ''k2''"
  have ok: "nodes_ok (srv_db ?s)" using sample_db_ok by (simp add: new_server_def db_ok_def)
  have "fst (handleRegister all_alive 5 7 ''h'' ?p ?s) = Inr ()"
    by (simp add: new_server_def sample_served sample_allocate_3 sample_defs)
  then obtain s' where run: "handleRegister all_alive 5 7 ''h'' ?p ?s = (Inr (), s')" by (metis prod.collapse)
  have "node_named ''b'' sample_db = Some node_b" by (simp add: node_named_def sample_defs)
  then show ?thesis using register_effect [OF ok run] run
    by (auto simp: sample_register_def new_server_def node_b_def)
qed

section \<open>The control plane and an agent together\<close>



text \<open>
  C37. Joining: when the server, on the tables of a mesh, accepts the registration an agent
  sent, its answer makes a host without the interface have it up, with the address the
  database holds for that node, an address of the mesh, and the agent's key. The interface
  holds the answer's list, the other nodes of the database, as far as \<open>wg\<close> takes it, which
  takes each entry as it stands or refuses it as a whole: no other peer, and the nodes
  before the first refused one. If none of the other nodes is refused there is one peer per
  other node, with its address and subnets where no two nodes share one.
\<close>

theorem joined:
  assumes "mesh_db (srv_cidr s) (srv_db s)" "handleRegister alive now conn h (register_payload c) s = (Inr (), s')"
    and "wg_contract i A exec view" "ip_contract i ok_private public_of exec pause view" "m_Interface (cl_WG c) = i"
    and "ok_private (cl_PrivateKey c)" "0 \<le> cl_ListenPort c" "cl_ListenPort c < 2 ^ 16" "\<not> lk_exists (view k)"
    and "\<forall>n \<in> set (nodes (srv_db s')). node_PublicKey n \<noteq> cl_PublicKey c \<longrightarrow>
        good_peer A (peer_of_node n) \<or> refused i exec view (peer_of_node n)"
  shows "\<exists>n e. n \<in> set (nodes (srv_db s')) \<and> node_Name n = cl_Name c \<and> node_PublicKey n = cl_PublicKey c
    \<and> mesh_host (srv_cidr s) (node_MeshIP n) \<and> (conn, e) \<in> set (srv_out s')
    \<and> (let l = view (handle_envelope exec pause c e k) in
        lk_up l \<and> lk_key l = Some (cl_PrivateKey c) \<and> lk_addrs l = {node_MeshIP n @ ''/32''}
        \<and> holds_list A (PeerListFor (cl_PublicKey c) (nodes (srv_db s'))) l
        \<and> ((\<forall>n \<in> set (nodes (srv_db s')). node_PublicKey n \<noteq> cl_PublicKey c \<longrightarrow> good_peer A (peer_of_node n)) \<longrightarrow>
            dom (lk_peers l) = node_PublicKey ` set (nodes (srv_db s')) - {cl_PublicKey c}
            \<and> (unshared (nodes (srv_db s')) \<longrightarrow> (\<forall>n \<in> set (nodes (srv_db s')). node_PublicKey n \<noteq> cl_PublicKey c \<longrightarrow>
                map_option fst (lk_peers l (node_PublicKey n))
                  = Some (insert (node_MeshIP n @ ''/32'') (set (node_AdvertisedSubnets n)))))))"
proof -
  let ?ns = "nodes (srv_db s')" and ?key = "cl_PublicKey c"
  have "nodes_ok (srv_db s)" using assms(1) by (simp add: mesh_db_def db_ok_def)
  from handleRegister_success(1) [OF this assms(2)] obtain n where
    n: "n \<in> set ?ns" "node_Name n = cl_Name c" "node_PublicKey n = ?key"
      "(conn, registered_msg (node_MeshIP n) ?key ?ns) \<in> set (srv_out s')"
    by (auto simp: register_payload_def)
  let ?e = "registered_msg (node_MeshIP n) ?key ?ns"
  have mesh: "mesh_db (srv_cidr s) (srv_db s')" by (rule handleRegister_mesh [OF assms(1,2)])
  then have ok: "nodes_ok (srv_db s')" and host: "mesh_host (srv_cidr s) (node_MeshIP n)"
    using n(1) by (auto simp: mesh_db_def db_ok_def names_ips_def)
  have "\<forall>p \<in> set (PeerListFor ?key ?ns). answered i A exec view p"
    using assms(10) by (auto simp: PeerListFor_map answered_def)
  then have l: "view (handle_envelope exec pause c ?e k) = followed A (PeerListFor ?key ?ns)
      (ensured (cl_PrivateKey c) (node_MeshIP n) (cl_ListenPort c) (view k))"
    using assms(9) mesh_host_text [OF host] unfolding followed_def by (intro registered_applied [OF assms(3-8)]) simp_all
  have held: "holds_list A (PeerListFor ?key ?ns) (view (handle_envelope exec pause c ?e k))"
    unfolding l by (rule followed_holds [OF nodes_ok_keys [OF ok]])
  have "lk_up (view (handle_envelope exec pause c ?e k))" "lk_key (view (handle_envelope exec pause c ?e k)) = Some (cl_PrivateKey c)"
    "lk_addrs (view (handle_envelope exec pause c ?e k)) = {node_MeshIP n @ ''/32''}"
    using assms(9) by (simp_all add: l ensured_def fresh_link_def Let_def)
  then show ?thesis using n host held holds_nodes [OF held] ok
    by (intro exI [of _ n] exI [of _ ?e]) (simp add: Let_def)
qed

theorem joined_witness:
  "\<exists>s' e. handleRegister all_alive 5 7 ''192.0.2.2'' (register_payload sample_client) (new_server sample_db ''10.0.0.0/29'')
      = (Inr (), s')
    \<and> lk_addrs (host_view (handle_envelope host_exec host_pause sample_client e empty_host)) = {''10.0.0.2/32''}
    \<and> dom (lk_peers (host_view (handle_envelope host_exec host_pause sample_client e empty_host))) = {''ka''}"
proof -
  let ?s = "new_server sample_db ''10.0.0.0/29''"
  let ?run = "handleRegister all_alive 5 7 ''192.0.2.2'' (register_payload sample_client) ?s"
  have ok: "mesh_db (srv_cidr ?s) (srv_db ?s)" using sample_mesh by (simp add: new_server_def)
  obtain r s' where eq: "?run = (r, s')" by (cases ?run)
  have "fst ?run = Inr ()"
    by (simp add: new_server_def sample_served sample_allocate_3 sample_defs register_payload_def sample_client_def)
  then have run: "?run = (Inr (), s')" by (simp add: eq)
  have "map (\<lambda>n. (node_Name n, node_PublicKey n, node_MeshIP n, node_AdvertisedSubnets n)) (nodes (srv_db (snd ?run)))
      = [(''a'', ''ka'', ''10.0.0.1'', []), (''b'', ''pub:PRIV'', ''10.0.0.2'', [])]"
    by (simp add: new_server_def sample_served sample_allocate_3 sample_defs register_payload_def sample_client_def
        with_db_def put_conn_def)
  then have ns: "map (\<lambda>n. (node_Name n, node_PublicKey n, node_MeshIP n, node_AdvertisedSubnets n)) (nodes (srv_db s'))
      = [(''a'', ''ka'', ''10.0.0.1'', []), (''b'', ''pub:PRIV'', ''10.0.0.2'', [])]" by (simp only: eq snd_conv)
  obtain a b where ab: "nodes (srv_db s') = [a, b]"
    and a: "node_Name a = ''a''" "node_PublicKey a = ''ka''" "node_MeshIP a = ''10.0.0.1''" "node_AdvertisedSubnets a = []"
    and b: "node_Name b = ''b''" "node_PublicKey b = ''pub:PRIV''" "node_MeshIP b = ''10.0.0.2''" "node_AdvertisedSubnets b = []"
    using ns by (auto simp: map_eq_Cons_conv)
  have c: "m_Interface (cl_WG sample_client) = ''rvtx0''" "0 \<le> cl_ListenPort sample_client"
    "cl_ListenPort sample_client < 2 ^ 16" by (simp_all add: sample_client_def)
  have new: "\<not> lk_exists (host_view empty_host)" by (simp add: host_ok_def empty_host_def)
  have good: "\<forall>n \<in> set (nodes (srv_db s')). node_PublicKey n \<noteq> cl_PublicKey sample_client \<longrightarrow> good_peer host_args (peer_of_node n)"
    by (simp add: ab a b good_peer_def host_args_def peer_of_node_def allowed_ips_def token_def cidr_text_def is_space_def)
  then have entries: "\<forall>n \<in> set (nodes (srv_db s')). node_PublicKey n \<noteq> cl_PublicKey sample_client \<longrightarrow>
      good_peer host_args (peer_of_node n) \<or> refused ''rvtx0'' host_exec host_view (peer_of_node n)" by blast
  let ?l = "\<lambda>e. host_view (handle_envelope host_exec host_pause sample_client e empty_host)"
  obtain n e where n: "n \<in> set (nodes (srv_db s'))" "node_Name n = cl_Name sample_client" "lk_addrs (?l e) = {node_MeshIP n @ ''/32''}"
    and all: "(\<forall>n \<in> set (nodes (srv_db s')). node_PublicKey n \<noteq> cl_PublicKey sample_client \<longrightarrow> good_peer host_args (peer_of_node n)) \<longrightarrow>
        dom (lk_peers (?l e)) = node_PublicKey ` set (nodes (srv_db s')) - {cl_PublicKey sample_client}
        \<and> (unshared (nodes (srv_db s')) \<longrightarrow>
          (\<forall>n \<in> set (nodes (srv_db s')). node_PublicKey n \<noteq> cl_PublicKey sample_client \<longrightarrow>
            map_option fst (lk_peers (?l e) (node_PublicKey n))
              = Some (insert (node_MeshIP n @ ''/32'') (set (node_AdvertisedSubnets n)))))"
    using joined [OF ok run host_wg host_ip c(1) TrueI c(2,3) new entries] unfolding Let_def
    by (elim exE conjE) (rule that; assumption)
  have "n = b" using n(1,2) by (auto simp: ab a b sample_client_def)
  moreover have "dom (lk_peers (?l e)) = {''ka''}" using all good by (auto simp: ab a b sample_client_def)
  ultimately show ?thesis using run n(3) by (intro exI [of _ s'] exI [of _ e] conjI) (simp_all add: b)
qed

section \<open>Failover\<close>

text \<open>
  C32. Failover from the heartbeat to Traefik: with the database in order, after a heartbeat
  of any agent, a tcp or udp resource with a primary on a mesh node and a backup is served
  from the node's address exactly while that node was seen in the last 45 seconds, by this
  heartbeat if it was its own, and from the backup otherwise.
\<close>

theorem heartbeat_decides:
  assumes "db_ok (srv_db s)" "store_ok (srv_db s)" "faults (srv_db s) = []"
    and "failover_pair (srv_db s) r n p b" "handleHeartbeat alive now key s = (res, s')"
  shows "\<exists>cfg. traefikConfigHandler e rq (srv_db s') = (respond 200 (ConfigBody cfg), srv_db s', [])
    \<and> served_addresses cfg r = Some [
        if (case (if node_PublicKey n = key then Some now else node_LastSeen n) of
              None \<Rightarrow> False | Some seen \<Rightarrow> e_now e - seen \<le> 45 * 10 ^ 9)
        then node_MeshIP n @ '':'' @ Itoa (tgt_port p) else target_address (srv_db s) b]"
proof -
  have "seen_lately (e_now e) (touch now key n) \<longleftrightarrow>
      (case (if node_PublicKey n = key then Some now else node_LastSeen n) of
         None \<Rightarrow> False | Some seen \<Rightarrow> e_now e - seen \<le> 45 * 10 ^ 9)"
    by (simp add: seen_lately_def touch_def split: option.split)
  then show ?thesis using heartbeat_failover [OF assms, of e rq] primary_address [OF assms(1,4)] by auto
qed

text \<open>The ssh resource of the sample database, one and fifty seconds after the primary's heartbeat.\<close>

definition plain_get :: request where
  "plain_get = sample_request ''GET'' [] [] JNull"

theorem heartbeat_decides_witness:
  "let s' = snd (handleHeartbeat all_alive 0 ''ka'' (new_server sample_db ''10.0.0.0/29''));
       served = (\<lambda>t. case rs_body (fst (traefikConfigHandler (sample_env t) plain_get (srv_db s'))) of
         ConfigBody cfg \<Rightarrow> served_addresses cfg ssh_row | _ \<Rightarrow> None)
   in served (10 ^ 9) = Some [''10.0.0.1:22''] \<and> served (50 * 10 ^ 9) = Some [''192.0.2.9:22'']"
proof -
  let ?s = "new_server sample_db ''10.0.0.0/29''"
  obtain res s' where run: "handleHeartbeat all_alive 0 ''ka'' ?s = (res, s')" by fastforce
  have ok: "db_ok (srv_db ?s)" "store_ok (srv_db ?s)" "faults (srv_db ?s) = []" and db: "srv_db ?s = sample_db"
    using sample_db_ok sample_store_ok by (simp_all add: new_server_def)
  let ?p = "\<lparr>tgt_resource_id = 3, tgt_node_id = Some 0, tgt_address = None, tgt_port = 22, tgt_role = ''primary''\<rparr>"
  let ?b = "\<lparr>tgt_resource_id = 3, tgt_node_id = None, tgt_address = Some ''192.0.2.9'', tgt_port = 22, tgt_role = ''backup''\<rparr>"
  have pair: "failover_pair (srv_db ?s) ssh_row node_a ?p ?b"
    unfolding db by (simp add: failover_pair_def targets_of_def sample_defs)
  have "digit_char 2 = CHR ''2''" by code_simp
  then have "Itoa 22 = ''22''" by (simp add: Itoa_def FormatNat.simps)
  then have backup: "target_address (srv_db ?s) ?b = ''192.0.2.9:22''"
    unfolding db by (simp add: target_address_def resolve_def scan_target_def join_node_def join_address_def)
  have node: "node_PublicKey node_a = ''ka''" "node_MeshIP node_a = ''10.0.0.1''" by (simp_all add: node_a_def)
  have "case rs_body (fst (traefikConfigHandler (sample_env t) plain_get (srv_db s'))) of
      ConfigBody cfg \<Rightarrow> served_addresses cfg ssh_row = Some [if t \<le> 45 * 10 ^ 9 then ''10.0.0.1:22'' else ''192.0.2.9:22''] | _ \<Rightarrow> False" for t
    using heartbeat_decides [OF ok pair run, of "sample_env t" plain_get] \<open>Itoa 22 = ''22''\<close>
    by (auto simp: node backup respond_def sample_env_def)
  from this [of "10 ^ 9"] this [of "50 * 10 ^ 9"] show ?thesis
    by (simp add: run Let_def split: body.splits)
qed

section \<open>Starting the control plane\<close>

text \<open>
  C38. Migrations: a run, whatever its result, applies a prefix of the pending files in name
  order, each once, and all of them when it succeeds; and a run that is started again after
  a failure ends, when it succeeds, in the schema that an uninterrupted run would have made.
\<close>

theorem migrations_resume:
  assumes "unique_entries dir" "Migrate apply_sql dir c = (r, c1)"
  shows "(\<exists>new rest. pending dir (cat_applied c) = new @ rest \<and> cat_applied c1 = cat_applied c @ new
      \<and> apply_all apply_sql (dir_read dir) new (cat_schema c) = Some (cat_schema c1) \<and> (r = Inr () \<longrightarrow> rest = []))
    \<and> (Migrate apply_sql dir c1 = (Inr (), c2) \<longrightarrow>
        cat_applied c2 = cat_applied c @ pending dir (cat_applied c)
        \<and> apply_all apply_sql (dir_read dir) (pending dir (cat_applied c)) (cat_schema c) = Some (cat_schema c2))"
  using Migrate_prefix [OF assms(2,1)] Migrate_resumed [OF assms(2) _ assms(1)] by blast

theorem migrations_resume_witness:
  "let (r, c1) = Migrate sample_apply sample_dir sample_catalog in
     r = Inl (Apply ''2.sql'') \<and> cat_applied c1 = [''1.sql'']
     \<and> cat_schema (snd (Migrate sample_apply sample_dir c1)) = ''1.sql2.sql''"
proof -
  let ?one = "Migrate sample_apply sample_dir sample_catalog"
  obtain r c1 where run: "?one = (r, c1)" by fastforce
  obtain r2 c2 where again: "Migrate sample_apply sample_dir c1 = (r2, c2)" by fastforce
  have "fst ?one = Inl (Apply ''2.sql'')" "cat_applied (snd ?one) = [''1.sql'']" by code_simp+
  then have first: "r = Inl (Apply ''2.sql'')" "cat_applied c1 = [''1.sql'']" by (simp_all only: run fst_conv snd_conv)
  have "fst (Migrate sample_apply sample_dir (snd ?one)) = Inr ()" by code_simp
  then have "r2 = Inr ()" by (simp only: run again fst_conv snd_conv)
  then have "apply_all sample_apply (dir_read sample_dir) (pending sample_dir (cat_applied sample_catalog))
      (cat_schema sample_catalog) = Some (cat_schema c2)"
    using migrations_resume [of sample_dir sample_apply sample_catalog r c1 c2] run again
    by (simp add: unique_entries_def sample_dir_def)
  moreover have "apply_all sample_apply (dir_read sample_dir) (pending sample_dir (cat_applied sample_catalog))
      (cat_schema sample_catalog) = Some ''1.sql2.sql''" by code_simp
  ultimately have "cat_schema c2 = ''1.sql2.sql''" by (simp only: option.inject)
  then show ?thesis by (simp only: run again first Let_def case_prod_conv snd_conv simp_thms)
qed

text \<open>
  C39. The first start makes the control plane usable, and no later one touches the
  accounts: a start that succeeds on a database without accounts creates the one
  administrator, whose configured password then, with the database in order, logs in; on a
  database with accounts every table stays as it is. What is started is the initial state of
  the system, for the configured network.
\<close>

theorem start_accounts:
  assumes "db_ok d" "start getenv su apply_sql pg_now (c, d) = (Inr (cfg, srv), c', d')"
  shows "(users d \<noteq> [] \<longrightarrow> same_tables d d')
    \<and> (users d = [] \<longrightarrow> map (\<lambda>u. (user_email u, user_password_hash u, user_role u)) (users d')
          = [(getenv ''RVTX_BOOTSTRAP_ADMIN_EMAIL'', Some (getenv ''RVTX_DASHBOARD_PASSWORD_HASH''), RoleAdmin)])
    \<and> (users d = [] \<and> faults d' = [] \<and> login_request rq = Some req
        \<and> lr_Email req = getenv ''RVTX_BOOTSTRAP_ADMIN_EMAIL'' \<and> getenv ''RVTX_DASHBOARD_PASSWORD_HASH'' \<noteq> []
        \<and> e_compare e (getenv ''RVTX_DASHBOARD_PASSWORD_HASH'') (lr_Password req)
      \<longrightarrow> fst (loginHandler e rq d') = (respond 200 NoBody)\<lparr>rs_cookie :=
            Some (NewSessionCookie (e_mac e) (e_now e) (e_secret e) (lr_Email req) RoleAdmin)\<rparr>)
    \<and> srv = w_srv (start_world d' (getenv ''RVTX_MESH_CIDR'')) \<and> (mesh_db cidr d \<longrightarrow> mesh_db cidr d')"
proof (intro conjI impI)
  note boot = start_cases(3) [OF assms(2)]
  show "same_tables d d'" if "users d \<noteq> []" using bootstrap_existing [OF boot that] .
  show "map (\<lambda>u. (user_email u, user_password_hash u, user_role u)) (users d')
      = [(getenv ''RVTX_BOOTSTRAP_ADMIN_EMAIL'', Some (getenv ''RVTX_DASHBOARD_PASSWORD_HASH''), RoleAdmin)]"
    if "users d = []" using bootstrap_first [OF boot that] by auto
  show "srv = w_srv (start_world d' (getenv ''RVTX_MESH_CIDR''))"
    using start_cases(4) [OF assms(2)] settings_cidr [OF start_cases(1) [OF assms(2)]] by (simp add: start_world_def)
  show "mesh_db cidr d'" if "mesh_db cidr d" using that by (rule start_keeps(2) [OF assms(2)])
qed (use first_login [OF assms(1) _ _ assms(2)] in blast)

theorem start_accounts_witness:
  "\<exists>cfg srv c' d'. start sample_getenv sample_surroundings sample_apply 0
      (served_catalog, empty_db) = (Inr (cfg, srv), c', d')
    \<and> map user_email (users d') = [''root@example.org'']
    \<and> rs_status (fst (loginHandler (sample_env 0) admin_login d')) = 200"
proof -
  let ?run = "start sample_getenv sample_surroundings sample_apply 0 (served_catalog, empty_db)"
  obtain r c' d' where eq: "?run = (r, c', d')" by (metis prod.collapse)
  have "\<not> isl (fst ?run)" "faults (snd (snd ?run)) = []" by code_simp+
  then obtain x where "r = Inr x" and served: "faults d' = []"
    by (cases r) (simp_all only: eq fst_conv snd_conv sum.disc simp_thms)
  then obtain cfg srv where run: "?run = (Inr (cfg, srv), c', d')" using eq by (cases x) simp
  have env: "sample_getenv ''RVTX_BOOTSTRAP_ADMIN_EMAIL'' = ''root@example.org''"
    "sample_getenv ''RVTX_DASHBOARD_PASSWORD_HASH'' = ''correct horse''"
    by (simp_all add: sample_getenv_def)
  have none: "users empty_db = []" by (simp add: empty_db_def)
  have cmp: "e_compare (sample_env 0) ''correct horse'' ''correct horse''" by (simp add: sample_env_def)
  note accounts = start_accounts [OF empty_db_ok run, where rq = admin_login and e = "sample_env 0"
      and req = "\<lparr>lr_Email = ''root@example.org'', lr_Password = ''correct horse''\<rparr>", unfolded env]
  have "map (\<lambda>u. (user_email u, user_password_hash u, user_role u)) (users d')
      = [(''root@example.org'', Some ''correct horse'', RoleAdmin)]"
    using accounts none by blast
  then have "map user_email (users d') = [''root@example.org'']" by (auto simp: map_eq_Cons_conv)
  moreover have "rs_status (fst (loginHandler (sample_env 0) admin_login d')) = 200"
  proof -
    have "fst (loginHandler (sample_env 0) admin_login d') = (respond 200 NoBody)\<lparr>rs_cookie :=
        Some (NewSessionCookie (e_mac (sample_env 0)) (e_now (sample_env 0)) (e_secret (sample_env 0)) ''root@example.org'' RoleAdmin)\<rparr>"
      using accounts [THEN conjunct2, THEN conjunct2] none served admin_login_request cmp by simp
    then show ?thesis by (simp add: respond_def)
  qed
  ultimately show ?thesis by (intro exI conjI) (rule run)
qed

section \<open>A full mesh\<close>

text \<open>
  C40. When a registration is refused, with every statement served: exactly when no address
  of the mesh is free, when the key belongs to a node of another name, or when the answer
  cannot be written. In the first two cases nothing changes, and the first refuses also a
  node that has an address already: the address for a new node is asked for first.
\<close>

theorem registration_decided:
  assumes "nodes_ok (srv_db s)" "faults (srv_db s) = []"
  shows "\<exists>r s'. handleRegister alive now c h p s = (r, s')
    \<and> (let full = (\<forall>ip. mesh_host (srv_cidr s) ip \<longrightarrow> ip \<in> node_MeshIP ` set (nodes (srv_db s)));
          other = (\<exists>m \<in> set (nodes (srv_db s)). node_Name m \<noteq> reg_Name p \<and> node_PublicKey m = reg_PublicKey p)
       in (r = Inr () \<longleftrightarrow> \<not> full \<and> \<not> other \<and> alive c) \<and> (full \<or> other \<longrightarrow> s' = s))"
proof -
  have other: "other_has_key (srv_db s) p \<longleftrightarrow>
      (\<exists>m \<in> set (nodes (srv_db s)). node_Name m \<noteq> reg_Name p \<and> node_PublicKey m = reg_PublicKey p)"
    by (simp add: other_has_key_def list_ex_iff)
  obtain r s' where run: "handleRegister alive now c h p s = (r, s')" by fastforce
  show ?thesis
    unfolding mesh_full_def [symmetric] other [symmetric] Let_def
    using register_outcome [OF assms, where alive = alive and now = now and c = c and h = h and p = p] run
    by (cases "mesh_full s"; cases "other_has_key (srv_db s) p") auto
qed

text \<open>A /30 has two hosts: with both registered, one of the two nodes cannot register again.\<close>

theorem registration_decided_witness:
  "let s = new_server sample_db ''10.0.0.0/30'' in
     \<exists>r. handleRegister all_alive 5 1 ''h'' (sample_register ''b'' ''k2'') s = (r, s) \<and> r \<noteq> Inr ()"
proof -
  let ?s = "new_server sample_db ''10.0.0.0/30''"
  have taken: "map node_MeshIP (nodes (srv_db ?s)) = [''10.0.0.1'', ''10.0.0.2'']"
    by (simp add: new_server_def sample_defs)
  have "\<not> (case AllocateIP ''10.0.0.0/30'' [''10.0.0.1'', ''10.0.0.2''] of Inr _ \<Rightarrow> True | Inl _ \<Rightarrow> False)"
    by code_simp
  then obtain e where full: "AllocateIP ''10.0.0.0/30'' [''10.0.0.1'', ''10.0.0.2''] = Inl e" by (auto split: sum.splits)
  have cidr: "srv_cidr ?s = ''10.0.0.0/30''" by (simp add: new_server_def)
  have full: "\<forall>ip. mesh_host (srv_cidr ?s) ip \<longrightarrow> ip \<in> node_MeshIP ` set (nodes (srv_db ?s))"
    unfolding set_map [symmetric] taken cidr using mesh.alloc_full [OF full] by blast
  have "nodes_ok (srv_db ?s)" "faults (srv_db ?s) = []" using sample_db_ok by (simp_all add: new_server_def db_ok_def)
  from registration_decided [OF this, of all_alive 5 1 "''h''" "sample_register ''b'' ''k2''"]
  show ?thesis using full unfolding Let_def by blast
qed

end
